(* ===== verification/Prelude.thy ===== *)
theory Prelude
  imports Main
begin

text \<open>
  The prelude of the development: how a Rust computation ends (\<open>abnormal\<close>,
  \<open>outcome\<close>), the hash maps a loop of \<open>insert\<close> calls builds (\<open>insert_all\<close>), and
  the generic list lemmas the components share, and machines that simulate others (locale \<open>simulation\<close>). The collections \<open>outcome_simps\<close> and
  \<open>hashmap_simps\<close> gather the rewriting rules the component theories use, \<open>ends_intros\<close> the rules for computations that end.
\<close>

named_theorems outcome_simps \<open>rewriting rules for computations that may panic\<close>
named_theorems ends_intros \<open>introduction rules for computations that end\<close>
named_theorems hashmap_simps \<open>rewriting rules for maps built by a loop of insertions\<close>

section \<open>How a computation ends\<close>

text \<open>
  A Rust computation returns, panics (\<open>expect\<close>, \<open>unwrap\<close>, a slice out of range, an
  arithmetic overflow in a debug build), or awaits for ever on a stream that delivers nothing.
\<close>

datatype abnormal = Panic string | Hang

type_synonym 'a outcome = "abnormal + 'a"

definition bind_out :: "'a outcome \<Rightarrow> ('a \<Rightarrow> 'b outcome) \<Rightarrow> 'b outcome" where
  "bind_out r f = (case r of Inl e \<Rightarrow> Inl e | Inr x \<Rightarrow> f x)"

text \<open>\<open>Option::expect\<close> and \<open>Result::expect\<close>: the value, or a panic with the message.\<close>

definition expect :: "'a option \<Rightarrow> string \<Rightarrow> 'a outcome" where
  "expect r msg = (case r of None \<Rightarrow> Inl (Panic msg) | Some x \<Rightarrow> Inr x)"

lemma bind_out_simps [simp, outcome_simps]:
  "bind_out (Inl e) f = Inl e"
  "bind_out (Inr x) f = f x"
  by (simp_all add: bind_out_def)

lemma expect_simps [simp, outcome_simps]:
  "expect None msg = Inl (Panic msg)"
  "expect (Some x) msg = Inr x"
  by (simp_all add: expect_def)

lemma bind_out_Inr_iff [outcome_simps]:
  "bind_out r f = Inr y \<longleftrightarrow> (\<exists>x. r = Inr x \<and> f x = Inr y)"
  by (cases r) auto

lemma bind_out_Inl_iff [outcome_simps]:
  "bind_out r f = Inl e \<longleftrightarrow> r = Inl e \<or> (\<exists>x. r = Inr x \<and> f x = Inl e)"
  by (cases r) auto

lemma expect_Inr_iff [outcome_simps]: "expect r msg = Inr x \<longleftrightarrow> r = Some x"
  by (cases r) auto

lemma expect_Inl_iff [outcome_simps]: "expect r msg = Inl e \<longleftrightarrow> r = None \<and> e = Panic msg"
  by (cases r) auto

text \<open>A computation that ends: it returns or panics.\<close>

definition ends :: "'a outcome \<Rightarrow> bool" where
  "ends r \<longleftrightarrow> r \<noteq> Inl Hang"

lemma ends_simps [simp]: "ends (Inr x)" "ends (Inl (Panic m))" "\<not> ends (Inl Hang)"
  by (simp_all add: ends_def)

lemma ends_bind [ends_intros]: "ends r \<Longrightarrow> (\<And>x. r = Inr x \<Longrightarrow> ends (f x)) \<Longrightarrow> ends (bind_out r f)"
  by (cases r) (auto simp: ends_def)

lemma ends_expect [ends_intros]: "ends (expect x m)"
  by (cases x) auto

lemma ends_InlD [simp]: "ends (Inl e :: 'a outcome) \<Longrightarrow> ends (Inl e :: 'b outcome)"
  by (simp add: ends_def)

lemma ends_Inl: "r = Inl e \<Longrightarrow> ends r \<Longrightarrow> ends (Inl e)"
  by (simp add: ends_def)

section \<open>Hash maps filled by a loop\<close>

text \<open>
  \<open>for x in xs { m.insert(key(x), value(x)); }\<close>: a later insertion of a key overwrites an
  earlier one. The map has no order, which is all the code relies on.
\<close>

definition insert_all :: "('k \<times> 'v) list \<Rightarrow> ('k \<rightharpoonup> 'v) \<Rightarrow> ('k \<rightharpoonup> 'v)" where
  "insert_all kvs m = fold (\<lambda>(k, v) m. m(k \<mapsto> v)) kvs m"

lemma insert_all_Nil [simp]: "insert_all [] m = m"
  by (simp add: insert_all_def)

lemma insert_all_Cons [simp]: "insert_all ((k, v) # kvs) m = insert_all kvs (m(k \<mapsto> v))"
  by (simp add: insert_all_def)

lemma insert_all_append [simp]: "insert_all (xs @ ys) m = insert_all ys (insert_all xs m)"
  by (simp add: insert_all_def)

lemma insert_all_map_of: "insert_all kvs m = m ++ map_of (rev kvs)"
  by (induction kvs arbitrary: m) (auto simp: map_add_def fun_eq_iff split: option.splits)

lemma insert_all_empty [hashmap_simps]: "insert_all kvs Map.empty = map_of (rev kvs)"
  by (simp add: insert_all_map_of)

lemma dom_insert_all [hashmap_simps]: "dom (insert_all kvs m) = dom m \<union> fst ` set kvs"
  by (auto simp: insert_all_map_of dom_map_of_conv_image_fst)

lemma insert_all_SomeD:
  "insert_all kvs Map.empty k = Some v \<Longrightarrow> (k, v) \<in> set kvs"
  by (auto simp: insert_all_empty dest: map_of_SomeD)

lemma insert_all_None_iff:
  "insert_all kvs Map.empty k = None \<longleftrightarrow> k \<notin> fst ` set kvs"
  by (auto simp: insert_all_empty map_of_eq_None_iff)

lemma insert_all_distinct:
  assumes "distinct (map fst kvs)" and "(k, v) \<in> set kvs"
  shows "insert_all kvs Map.empty k = Some v"
  using assms by (simp add: insert_all_empty rev_map [symmetric])

section \<open>Lists\<close>

lemma length_filter_partition:
  "length (filter P xs) + length (filter (\<lambda>x. \<not> P x) xs) = length xs"
  by (induction xs) auto

lemma sum_list_le_const:
  fixes c :: "'a::linordered_idom"
  assumes "\<And>x. x \<in> set xs \<Longrightarrow> f x \<le> c"
  shows "sum_list (map f xs) \<le> of_nat (length xs) * c"
  using assms by (induction xs) (auto simp: algebra_simps add_mono)

lemma set_map_filter: "set (List.map_filter f xs) = {y. \<exists>x \<in> set xs. f x = Some y}"
  by (induction xs) (auto simp: List.map_filter_def split: option.splits)

section \<open>Machines\<close>

text \<open>
  A machine answers events one by one; a concrete one simulates an abstract one when each step from the representation of
  an abstract state has the abstract answer and ends in the representation of the next one.
\<close>

primrec run_events :: "('e \<Rightarrow> 's \<Rightarrow> 'o \<times> 's) \<Rightarrow> 'e list \<Rightarrow> 's \<Rightarrow> 'o list \<times> 's" where
  "run_events step [] s = ([], s)"
| "run_events step (e # es) s =
     (case step e s of (out, s) \<Rightarrow> (case run_events step es s of (outs, s) \<Rightarrow> (out # outs, s)))"

lemma run_events_sel:
  "fst (run_events step (e # es) s) = fst (step e s) # fst (run_events step es (snd (step e s)))"
  "snd (run_events step (e # es) s) = snd (run_events step es (snd (step e s)))"
  by (simp_all split: prod.split)

locale simulation =
  fixes step :: "'e \<Rightarrow> 's \<Rightarrow> 'o \<times> 's" and astep :: "'e \<Rightarrow> 'a \<Rightarrow> 'o \<times> 'a" and rep :: "'a \<Rightarrow> 's" and ok :: "'e \<Rightarrow> bool"
  assumes step_rep: "ok e \<Longrightarrow> step e (rep a) = map_prod id rep (astep e a)"
begin

lemma run_rep: "list_all ok es \<Longrightarrow> run_events step es (rep a) = map_prod id rep (run_events astep es a)"
  by (induction es arbitrary: a) (simp_all add: step_rep split: prod.split)

end

end
