(* ===== verification/F64.thy ===== *)
theory F64
  imports Prelude "HOL-Library.Word" "HOL-Library.Log_Nat"
begin

text \<open>
  Rust's \<open>f64\<close> (IEEE 754 binary64, round to nearest, ties to even) and the casts the program
  applies to it. A value is a NaN, an infinity with its sign, the negative zero, or a rational
  (\<open>F64_Fin 0\<close> is the positive zero). Every operation is the exact rational operation followed
  by \<open>f64_round\<close>; the lemmas bound the relative error of one rounding by \<open>2\<^sup>-\<^sup>5\<^sup>3\<close>.
\<close>

section \<open>Values\<close>

datatype f64 = F64_NaN | F64_Inf bool | F64_NegZero | F64_Fin rat

type_synonym i32 = "32 word"

definition i32_max :: int where "i32_max = 2147483647"
definition i32_min :: int where "i32_min = -2147483648"

fun f64_is_nan :: "f64 \<Rightarrow> bool" where
  "f64_is_nan F64_NaN = True"
| "f64_is_nan _ = False"

text \<open>The sign bit; a NaN's is never looked at.\<close>

fun f64_neg :: "f64 \<Rightarrow> bool" where
  "f64_neg F64_NaN = False"
| "f64_neg (F64_Inf s) = s"
| "f64_neg F64_NegZero = True"
| "f64_neg (F64_Fin x) = (x < 0)"

definition f64_zero :: "bool \<Rightarrow> f64" where
  "f64_zero s = (if s then F64_NegZero else F64_Fin 0)"

section \<open>Rounding a rational to the nearest double\<close>

text \<open>\<open>ilog2 x\<close> is the exponent \<open>k\<close> with \<open>2 powi k \<le> x < 2 powi (k + 1)\<close>.\<close>

definition ilog2 :: "rat \<Rightarrow> int" where
  "ilog2 x = (let (p, q) = quotient_of x; k = bitlen p - bitlen q
     in if 2 powi k \<le> x then k else k - 1)"

text \<open>Round to the nearest integer, ties to even.\<close>

definition rne :: "rat \<Rightarrow> int" where
  "rne x = (let n = \<lfloor>x\<rfloor>; r = x - of_int n
     in if r < 1/2 then n else if 1/2 < r then n + 1 else if even n then n else n + 1)"

text \<open>The exponent of the last place of the significand, not below the subnormals' \<open>-1074\<close>.\<close>

definition ulp_exp :: "rat \<Rightarrow> int" where
  "ulp_exp x = max (ilog2 \<bar>x\<bar> - 52) (-1074)"

definition rnd :: "rat \<Rightarrow> rat" where
  "rnd x = of_int (rne (x / 2 powi ulp_exp x)) * 2 powi ulp_exp x"

text \<open>\<open>s\<close> is the sign a zero result gets.\<close>

definition f64_round :: "bool \<Rightarrow> rat \<Rightarrow> f64" where
  "f64_round s x =
     (if x = 0 then f64_zero s
      else let y = rnd x in
        if y = 0 then f64_zero (x < 0)
        else if 2 ^ 1024 \<le> \<bar>y\<bar> then F64_Inf (x < 0)
        else F64_Fin y)"

section \<open>The operations the program uses\<close>

fun f64_rat :: "f64 \<Rightarrow> rat" where
  "f64_rat (F64_Fin x) = x"
| "f64_rat _ = 0"

fun f64_finite :: "f64 \<Rightarrow> bool" where
  "f64_finite (F64_Fin _) = True"
| "f64_finite F64_NegZero = True"
| "f64_finite _ = False"

definition f64_mul :: "f64 \<Rightarrow> f64 \<Rightarrow> f64" where
  "f64_mul a b = (let s = (f64_neg a \<noteq> f64_neg b) in
     if f64_is_nan a \<or> f64_is_nan b then F64_NaN
     else if f64_finite a \<and> f64_finite b then f64_round s (f64_rat a * f64_rat b)
     else if f64_finite a \<and> f64_rat a = 0 \<or> f64_finite b \<and> f64_rat b = 0 then F64_NaN
     else F64_Inf s)"

definition f64_div :: "f64 \<Rightarrow> f64 \<Rightarrow> f64" where
  "f64_div a b = (let s = (f64_neg a \<noteq> f64_neg b) in
     if f64_is_nan a \<or> f64_is_nan b then F64_NaN
     else if f64_finite a \<and> f64_finite b then
       (if f64_rat b = 0 then (if f64_rat a = 0 then F64_NaN else F64_Inf s)
        else f64_round s (f64_rat a / f64_rat b))
     else if \<not> f64_finite a \<and> \<not> f64_finite b then F64_NaN
     else if f64_finite a then f64_zero s
     else F64_Inf s)"

definition f64_add :: "f64 \<Rightarrow> f64 \<Rightarrow> f64" where
  "f64_add a b = (let s = (f64_neg a \<and> f64_neg b) in
     if f64_is_nan a \<or> f64_is_nan b then F64_NaN
     else if f64_finite a \<and> f64_finite b then f64_round s (f64_rat a + f64_rat b)
     else if f64_finite a then b
     else if f64_finite b \<or> f64_neg a = f64_neg b then a
     else F64_NaN)"

instantiation f64 :: "{plus, times, inverse}"
begin

definition plus_f64_def [simp]: "a + b = f64_add a b"
definition times_f64_def [simp]: "a * b = f64_mul a b"
definition divide_f64_def [simp]: "a div b = f64_div a b"
definition inverse_f64_def [simp]: "inverse a = f64_div (F64_Fin 1) a"

instance ..

end

text \<open>\<open>f64::floor\<close> and \<open>f64::round\<close> (half away from zero); both are exact.\<close>

fun f64_floor :: "f64 \<Rightarrow> f64" where
  "f64_floor (F64_Fin x) = F64_Fin (of_int \<lfloor>x\<rfloor>)"
| "f64_floor a = a"

definition round_away :: "rat \<Rightarrow> int" where
  "round_away x = (if x < 0 then - \<lfloor>\<bar>x\<bar> + 1/2\<rfloor> else \<lfloor>x + 1/2\<rfloor>)"

fun f64_round_half_away :: "f64 \<Rightarrow> f64" where
  "f64_round_half_away (F64_Fin x) =
     (if round_away x = 0 then f64_zero (x < 0) else F64_Fin (of_int (round_away x)))"
| "f64_round_half_away a = a"

text \<open>\<open>as i32\<close>: truncation, saturating at the ends, 0 for a NaN.\<close>

definition rat_trunc :: "rat \<Rightarrow> int" where
  "rat_trunc x = (if x < 0 then \<lceil>x\<rceil> else \<lfloor>x\<rfloor>)"

fun f64_to_i32 :: "f64 \<Rightarrow> i32" where
  "f64_to_i32 F64_NaN = 0"
| "f64_to_i32 (F64_Inf s) = word_of_int (if s then i32_min else i32_max)"
| "f64_to_i32 F64_NegZero = 0"
| "f64_to_i32 (F64_Fin x) = word_of_int (max i32_min (min i32_max (rat_trunc x)))"

text \<open>\<open>as f64\<close> of an unsigned count.\<close>

definition f64_of_nat :: "nat \<Rightarrow> f64" where
  "f64_of_nat n = f64_round False (of_nat n)"

text \<open>The conversion \<open>(v / p).floor() as i32\<close> of a quotient, as \<open>place_order\<close> writes it.\<close>

definition floor_quot_i32 :: "f64 \<Rightarrow> f64 \<Rightarrow> i32" where
  "floor_quot_i32 v p = f64_to_i32 (f64_floor (v / p))"

text \<open>\<open>Duration::as_secs_f64\<close> of a number of nanoseconds: the seconds and the rest apart.\<close>

definition as_secs_f64 :: "nat \<Rightarrow> f64" where
  "as_secs_f64 ns = f64_of_nat (ns div 10 ^ 9) + f64_of_nat (ns mod 10 ^ 9) / F64_Fin (10 ^ 9)"

text \<open>A decimal literal of the source: the nearest double.\<close>

definition f64_lit :: "rat \<Rightarrow> f64" where
  "f64_lit x = f64_round False x"

text \<open>Half a unit in the last place, relative: the error bound of one rounding.\<close>

definition eps64 :: rat where "eps64 = 1 / 2 ^ 53"

section \<open>The exponent of a rational and the rounding error\<close>

lemma ilog2_bounds:
  assumes "0 < x"
  shows "2 powi ilog2 x \<le> x" and "x < 2 powi (ilog2 x + 1)"
proof -
  obtain p q where pq: "quotient_of x = (p, q)" by fastforce
  have x: "x = of_int p / of_int q" and q: "0 < q"
    using quotient_of_div [OF pq] quotient_of_denom_pos [OF pq] by auto
  have p: "0 < p" using assms x q by (auto simp: zero_less_divide_iff)
  define bp where "bp = nat (bitlen p - 1)"
  define bq where "bq = nat (bitlen q - 1)"
  have bl: "bitlen p = int bp + 1" "bitlen q = int bq + 1"
    using bitlen_ge_iff_power [of 1 p] bitlen_ge_iff_power [of 1 q] p q by (simp_all add: bp_def bq_def)
  have "2 ^ bp \<le> p \<and> p < 2 ^ Suc bp"
    using bitlen_bounds [OF p] by (simp add: bl nat_add_distrib)
  moreover have "2 ^ bq \<le> q \<and> q < 2 ^ Suc bq"
    using bitlen_bounds [OF q] by (simp add: bl nat_add_distrib)
  ultimately have P: "(2::rat) ^ bp \<le> of_int p" "of_int p < (2::rat) ^ Suc bp"
    and Q: "(2::rat) ^ bq \<le> of_int q" "of_int q < (2::rat) ^ Suc bq"
    by (metis of_int_le_iff of_int_less_iff of_int_numeral of_int_power)+
  have Q0: "0 < (of_int q :: rat)" using q by simp
  have lo: "2 powi (int bp - int bq - 1) \<le> x"
  proof -
    have "2 powi (int bp - int bq - 1) = (2::rat) ^ bp / 2 ^ Suc bq"
      by (simp add: power_int_diff)
    also have "\<dots> \<le> of_int p / of_int q"
      using P Q Q0 p by (intro frac_le) auto
    finally show ?thesis by (simp add: x)
  qed
  have hi: "x < 2 powi (int bp - int bq + 1)"
  proof -
    have "x < (2::rat) ^ Suc bp / 2 ^ bq"
      unfolding x using P Q Q0 p by (intro frac_less) auto
    also have "\<dots> = 2 powi (int bp - int bq + 1)"
      by (simp add: power_int_diff power_int_add)
    finally show ?thesis .
  qed
  show "2 powi ilog2 x \<le> x" "x < 2 powi (ilog2 x + 1)"
    using lo hi by (auto simp: ilog2_def pq bl Let_def)
qed

lemma powi2_strict_mono: "(a::int) < b \<Longrightarrow> (2::rat) powi a < 2 powi b"
  by (rule power_int_strict_increasing) auto

lemma powi2_mono: "(a::int) \<le> b \<Longrightarrow> (2::rat) powi a \<le> 2 powi b"
  by (rule power_int_increasing) auto

lemma ilog2_eqI:
  assumes "2 powi k \<le> x" and "x < 2 powi (k + 1)"
  shows "ilog2 x = k"
proof -
  have x0: "0 < x" using assms(1) by (meson less_le_trans zero_less_numeral zero_less_power_int)
  note b = ilog2_bounds [OF x0]
  have "\<not> ilog2 x + 1 \<le> k" using b(2) assms(1) powi2_mono [of "ilog2 x + 1" k] by force
  moreover have "\<not> k + 1 \<le> ilog2 x" using b(1) assms(2) powi2_mono [of "k + 1" "ilog2 x"] by force
  ultimately show ?thesis by linarith
qed

lemma rne_error: "\<bar>of_int (rne x) - x\<bar> \<le> 1/2"
proof -
  define n where "n = \<lfloor>x\<rfloor>"
  have "of_int n \<le> x" "x < of_int n + 1"
    using floor_correct [of x] by (simp_all add: n_def)
  then show ?thesis by (auto simp: rne_def Let_def abs_if n_def [symmetric])
qed

lemma rne_of_int [simp]: "rne (of_int n) = n"
  by (simp add: rne_def)

lemma rne_0 [simp]: "rne 0 = 0"
  using rne_of_int [of 0] by simp

lemma rne_nonneg: "0 \<le> x \<Longrightarrow> 0 \<le> rne x"
  by (auto simp: rne_def Let_def)

lemma rne_mono:
  assumes "x \<le> y" shows "rne x \<le> rne y"
proof (cases "\<lfloor>x\<rfloor> = \<lfloor>y\<rfloor>")
  case True
  then show ?thesis using assms by (auto simp: rne_def Let_def)
next
  case False
  then have "\<lfloor>x\<rfloor> + 1 \<le> \<lfloor>y\<rfloor>" using floor_mono [OF assms] by linarith
  moreover have "rne x \<le> \<lfloor>x\<rfloor> + 1" "\<lfloor>y\<rfloor> \<le> rne y" by (auto simp: rne_def Let_def)
  ultimately show ?thesis by linarith
qed

lemma powi2_pos [simp]: "0 < (2::rat) powi e"
  by simp

lemma rnd_error_ulp: "\<bar>rnd x - x\<bar> \<le> 2 powi ulp_exp x / 2"
proof -
  let ?u = "(2::rat) powi ulp_exp x"
  have "rnd x - x = (of_int (rne (x / ?u)) - x / ?u) * ?u"
    by (simp add: rnd_def left_diff_distrib)
  then have "\<bar>rnd x - x\<bar> = \<bar>of_int (rne (x / ?u)) - x / ?u\<bar> * ?u"
    by (simp add: abs_mult)
  also have "\<dots> \<le> 1/2 * ?u"
    by (rule mult_right_mono [OF rne_error]) simp
  finally show ?thesis by simp
qed

lemma rnd_error:
  assumes "2 powi (-1022) \<le> \<bar>x\<bar>"
  shows "\<bar>rnd x - x\<bar> \<le> eps64 * \<bar>x\<bar>"
proof -
  have x0: "0 < \<bar>x\<bar>" using assms by (meson less_le_trans powi2_pos)
  have "-1022 \<le> ilog2 \<bar>x\<bar>"
  proof (rule ccontr)
    assume "\<not> -1022 \<le> ilog2 \<bar>x\<bar>"
    then have "(2::rat) powi (ilog2 \<bar>x\<bar> + 1) \<le> 2 powi (-1022)" by (intro powi2_mono) auto
    with ilog2_bounds(2) [OF x0] assms show False by linarith
  qed
  then have u: "ulp_exp x = ilog2 \<bar>x\<bar> - 52" by (simp add: ulp_exp_def)
  have "\<bar>rnd x - x\<bar> \<le> 2 powi (ilog2 \<bar>x\<bar> - 52) / 2" using rnd_error_ulp [of x] by (simp add: u)
  also have "\<dots> = eps64 * 2 powi ilog2 \<bar>x\<bar>"
    by (simp add: power_int_diff eps64_def)
  also have "\<dots> \<le> eps64 * \<bar>x\<bar>"
    using ilog2_bounds(1) [OF x0] by (intro mult_left_mono) (auto simp: eps64_def)
  finally show ?thesis .
qed

lemma rnd_nonneg: "0 \<le> x \<Longrightarrow> 0 \<le> rnd x"
  by (simp add: rnd_def rne_nonneg)

lemma rnd_exact:
  assumes "\<bar>m\<bar> \<le> 2 ^ 53" and "-1074 \<le> e"
  shows "rnd (of_int m * 2 powi e) = of_int m * 2 powi e"
proof (cases "m = 0")
  case True then show ?thesis by (simp add: rnd_def)
next
  case False
  let ?x = "of_int m * (2::rat) powi e"
  have ax: "\<bar>?x\<bar> = of_int \<bar>m\<bar> * 2 powi e" by (simp add: abs_mult)
  have x0: "0 < \<bar>?x\<bar>" using False by (simp add: ax)
  have "\<exists>k. ?x / 2 powi ulp_exp ?x = of_int k"
  proof (cases "ulp_exp ?x \<le> e")
    case True
    then have "(2::rat) powi (e - ulp_exp ?x) = of_int (2 ^ nat (e - ulp_exp ?x))"
      by (simp add: power_int_def)
    then have "?x / 2 powi ulp_exp ?x = of_int (m * 2 ^ nat (e - ulp_exp ?x))"
      by (simp add: power_int_diff flip: times_divide_eq_right)
    then show ?thesis by blast
  next
    case False
    then have u: "ulp_exp ?x = ilog2 \<bar>?x\<bar> - 52" "e < ilog2 \<bar>?x\<bar> - 52"
      using assms(2) by (auto simp: ulp_exp_def)
    have "(2::rat) powi (e + 53) \<le> 2 powi ilog2 \<bar>?x\<bar>" using u by (intro powi2_mono) auto
    also have "\<dots> \<le> of_int \<bar>m\<bar> * 2 powi e" using ilog2_bounds(1) [OF x0] by (simp add: ax)
    finally have "(2::rat) ^ 53 \<le> of_int \<bar>m\<bar>" by (simp add: power_int_add)
    then have "(2::int) ^ 53 \<le> \<bar>m\<bar>"
      by (metis of_int_le_iff of_int_numeral of_int_power)
    with assms(1) have m: "\<bar>m\<bar> = 2 ^ 53" by linarith
    then have axv: "\<bar>?x\<bar> = 2 powi (e + 53)" using ax by (simp add: power_int_add)
    then have "ilog2 \<bar>?x\<bar> = e + 53" by (intro ilog2_eqI) (auto simp: powi2_strict_mono)
    with u have "ulp_exp ?x = e + 1" by simp
    moreover have "m = sgn m * 2 ^ 53" using m by (metis sgn_mult_abs mult.commute)
    ultimately have "?x / 2 powi ulp_exp ?x = of_int (sgn m * 2 ^ 52)"
      by (simp add: power_int_add field_simps)
    then show ?thesis by blast
  qed
  then obtain k where "?x / 2 powi ulp_exp ?x = of_int k" by blast
  then show ?thesis by (simp add: rnd_def) (simp add: field_simps)
qed

section \<open>What is a double\<close>

fun f64_wf :: "f64 \<Rightarrow> bool" where
  "f64_wf (F64_Fin x) \<longleftrightarrow> rnd x = x \<and> \<bar>x\<bar> < 2 ^ 1024"
| "f64_wf _ \<longleftrightarrow> True"

lemma rne_le: "\<bar>x\<bar> \<le> of_int m \<Longrightarrow> \<bar>rne x\<bar> \<le> m"
  using rne_mono [of x "of_int m"] rne_mono [of "of_int (- m)" x] rne_of_int [of m] rne_of_int [of "- m"]
  by (simp add: abs_le_iff del: rne_of_int)

lemma scaled_le: "\<bar>x / 2 powi ulp_exp x\<bar> \<le> 2 ^ 53"
proof (cases "x = 0")
  case False
  then have "\<bar>x\<bar> < 2 powi (ilog2 \<bar>x\<bar> + 1)" by (intro ilog2_bounds(2)) simp
  also have "\<dots> \<le> 2 powi (53 + ulp_exp x)" by (intro powi2_mono) (simp add: ulp_exp_def)
  finally have "\<bar>x\<bar> < 2 ^ 53 * 2 powi ulp_exp x" by (simp add: power_int_add)
  then show ?thesis by (simp add: abs_divide pos_divide_le_eq)
qed simp

lemma rnd_rnd [simp]: "rnd (rnd x) = rnd x"
proof -
  have "\<bar>rne (x / 2 powi ulp_exp x)\<bar> \<le> 2 ^ 53" using scaled_le [of x] by (intro rne_le) simp
  then show ?thesis unfolding rnd_def [of x] by (intro rnd_exact) (simp_all add: ulp_exp_def)
qed

lemma f64_wf_zero [simp]: "f64_wf (f64_zero s)"
  by (simp add: f64_zero_def rnd_def)

lemma f64_wf_round [simp]: "f64_wf (f64_round s x)"
  by (simp add: f64_round_def Let_def)

lemma f64_wf_mul [simp]: "f64_wf (a * b)"
  by (simp add: f64_mul_def Let_def)

lemma f64_wf_div [simp]: "f64_wf (a / b)"
  by (simp add: f64_div_def Let_def)

section \<open>Quotients and counts as 32-bit integers\<close>

lemma rnd_0 [simp]: "rnd 0 = 0"
  by (simp add: rnd_def)

lemma rnd_tiny:
  assumes "0 < y" and "y < 2 powi (-1022)"
  shows "rnd y < 1"
proof -
  have "ilog2 \<bar>y\<bar> < -1022"
  proof (rule ccontr)
    assume "\<not> ilog2 \<bar>y\<bar> < -1022"
    then have "(2::rat) powi (-1022) \<le> 2 powi ilog2 \<bar>y\<bar>" by (intro powi2_mono) auto
    with ilog2_bounds(1) [of "\<bar>y\<bar>"] assms show False by simp
  qed
  then have "ulp_exp y = -1074" by (simp add: ulp_exp_def)
  then have "rnd y \<le> y + 2 powi (-1074) / 2" using rnd_error_ulp [of y] by (simp add: abs_if split: if_splits)
  also have "\<dots> < 2 powi (-1022) + 2 powi (-1074) / 2" using assms(2) by simp
  also have "\<dots> < 1"
  proof -
    have "(2::rat) powi (-2) = 1/4" by (simp add: power_int_def power2_eq_square)
    then show ?thesis using powi2_mono [of "-1022" "-2"] powi2_mono [of "-1074" "-2"] by linarith
  qed
  finally show ?thesis .
qed

lemma rnd_bounds:
  assumes "0 < y" and "1 \<le> rnd y"
  shows "rnd y \<le> y * (1 + eps64)" and "y * (1 - eps64) \<le> rnd y"
proof -
  have "2 powi (-1022) \<le> \<bar>y\<bar>" using rnd_tiny [OF assms(1)] assms by (meson abs_ge_self less_le_not_le not_le order_trans)
  from rnd_error [OF this] show "rnd y \<le> y * (1 + eps64)" "y * (1 - eps64) \<le> rnd y"
    using assms(1) by (auto simp: algebra_simps abs_if split: if_splits)
qed

lemma sint_i32_clamp:
  "sint (word_of_int (max i32_min (min i32_max k)) :: i32) = max i32_min (min i32_max k)"
  by (subst int_word_sint) (simp add: i32_min_def i32_max_def)

lemma rat_trunc_nonneg: "0 \<le> x \<Longrightarrow> rat_trunc x = \<lfloor>x\<rfloor>"
  by (simp add: rat_trunc_def)

lemma rat_trunc_of_int [simp]: "rat_trunc (of_int k) = k"
  by (simp add: rat_trunc_def)

lemma f64_div_Fin:
  "p \<noteq> 0 \<Longrightarrow> f64_div (F64_Fin v) (F64_Fin p) = f64_round ((v < 0) \<noteq> (p < 0)) (v / p)"
  by (simp add: f64_div_def Let_def)

lemma sint_floor_round:
  assumes "0 \<le> y"
  shows "sint (f64_to_i32 (f64_floor (f64_round False y))) = min i32_max \<lfloor>rnd y\<rfloor>"
proof (cases "y = 0")
  case True
  then show ?thesis by (simp add: f64_round_def f64_zero_def rat_trunc_def rnd_def i32_max_def i32_min_def)
next
  case False
  with assms have y: "0 < y" by simp
  have r: "0 \<le> rnd y" using assms by (rule rnd_nonneg)
  consider "rnd y = 0" | "rnd y \<noteq> 0" "rnd y < 2 ^ 1024" | "2 ^ 1024 \<le> rnd y" by linarith
  then show ?thesis
  proof cases
    case 1
    then show ?thesis using y by (simp add: f64_round_def f64_zero_def rat_trunc_def i32_max_def i32_min_def)
  next
    case 2
    then have "f64_round False y = F64_Fin (rnd y)" using y r by (simp add: f64_round_def Let_def)
    moreover have "i32_min \<le> min i32_max \<lfloor>rnd y\<rfloor>" using r by (simp add: i32_min_def i32_max_def)
    ultimately show ?thesis using sint_i32_clamp [of "\<lfloor>rnd y\<rfloor>"] by (simp add: max_absorb2)
  next
    case 3
    then have "f64_round False y = F64_Inf False" using y r by (auto simp add: f64_round_def Let_def)
    moreover have "i32_max \<le> \<lfloor>rnd y\<rfloor>"
    proof -
      have "of_int i32_max \<le> (2::rat) ^ 1024" by (simp add: i32_max_def)
      with 3 show ?thesis by (simp add: le_floor_iff)
    qed
    ultimately show ?thesis using sint_i32_clamp [of i32_max] by (simp add: i32_max_def i32_min_def)
  qed
qed

lemma floor_quot_upper:
  assumes "0 \<le> v" and "0 < p" and "0 < sint (floor_quot_i32 (F64_Fin v) (F64_Fin p))"
  shows "of_int (sint (floor_quot_i32 (F64_Fin v) (F64_Fin p))) * p \<le> v * (1 + eps64)"
proof -
  let ?y = "v / p" and ?n = "sint (floor_quot_i32 (F64_Fin v) (F64_Fin p))"
  have y: "0 \<le> ?y" using assms by simp
  have n: "?n = min i32_max \<lfloor>rnd ?y\<rfloor>"
    using assms sint_floor_round [OF y] by (simp add: floor_quot_i32_def f64_div_Fin)
  then have r1: "1 \<le> rnd ?y" using assms(3) by (simp add: le_floor_iff)
  then have "0 < ?y" using y by (metis less_le not_one_le_zero rnd_0)
  note b = rnd_bounds(1) [OF this r1]
  have "of_int ?n \<le> rnd ?y" unfolding n by (meson min.cobounded2 le_floor_iff order_refl)
  with b have "of_int ?n \<le> ?y * (1 + eps64)" by linarith
  then have "of_int ?n * p \<le> ?y * (1 + eps64) * p" using assms(2) by (intro mult_right_mono) auto
  also have "\<dots> = v * (1 + eps64)" using assms(2) by (simp add: field_simps)
  finally show ?thesis .
qed

lemma floor_quot_lower:
  assumes "0 \<le> v" and "0 < p" and "sint (floor_quot_i32 (F64_Fin v) (F64_Fin p)) < i32_max"
    and "0 < sint (floor_quot_i32 (F64_Fin v) (F64_Fin p))"
  shows "v * (1 - eps64) < of_int (sint (floor_quot_i32 (F64_Fin v) (F64_Fin p)) + 1) * p"
proof -
  let ?y = "v / p" and ?n = "sint (floor_quot_i32 (F64_Fin v) (F64_Fin p))"
  have y: "0 \<le> ?y" using assms by simp
  have n: "?n = min i32_max \<lfloor>rnd ?y\<rfloor>"
    using assms sint_floor_round [OF y] by (simp add: floor_quot_i32_def f64_div_Fin)
  then have r1: "1 \<le> rnd ?y" using assms(4) by (simp add: le_floor_iff)
  then have "0 < ?y" using y by (metis less_le not_one_le_zero rnd_0)
  note b = rnd_bounds(2) [OF this r1]
  have "?n = \<lfloor>rnd ?y\<rfloor>" using n assms(3) by linarith
  then have "rnd ?y < of_int (?n + 1)" by linarith
  with b have "?y * (1 - eps64) < of_int (?n + 1)" by linarith
  then have "?y * (1 - eps64) * p < of_int (?n + 1) * p" using assms(2) by (intro mult_strict_right_mono) auto
  moreover have "?y * (1 - eps64) * p = v * (1 - eps64)" using assms(2) by (simp add: field_simps)
  ultimately show ?thesis by simp
qed

text \<open>Division by a zero price: the quotient is infinite and the cast saturates.\<close>

lemma floor_quot_zero_price:
  assumes "0 < v" shows "floor_quot_i32 (F64_Fin v) (F64_Fin 0) = word_of_int i32_max"
  using assms by (simp add: floor_quot_i32_def f64_div_def)

lemma rnd_of_int: "\<bar>n\<bar> \<le> 2 ^ 53 \<Longrightarrow> rnd (of_int n) = of_int n"
  using rnd_exact [of n 0] by simp

lemma f64_round_of_int:
  assumes "\<bar>n\<bar> \<le> 2 ^ 53"
  shows "f64_round False (of_int n) = F64_Fin (of_int n)"
proof -
  have "\<bar>rat_of_int n\<bar> \<le> 2 ^ 53" by (metis assms of_int_abs of_int_le_iff of_int_numeral of_int_power)
  also have "\<dots> < 2 ^ 1024" by simp
  finally show ?thesis using assms by (simp add: f64_round_def f64_zero_def rnd_of_int)
qed

lemma f64_of_nat_exact: "int n \<le> 2 ^ 53 \<Longrightarrow> f64_of_nat n = F64_Fin (of_nat n)"
  using f64_round_of_int [of "int n"] by (simp add: f64_of_nat_def)

section \<open>Roundings well inside the range of normal numbers\<close>

text \<open>Two values that differ by one rounding.\<close>

definition rnd_close :: "rat \<Rightarrow> rat \<Rightarrow> bool" where
  "rnd_close x y \<longleftrightarrow> x * (1 - eps64) \<le> y \<and> y \<le> x * (1 + eps64)"

lemma eps64_bounds: "0 < eps64" "eps64 \<le> 1 / 1000000000000"
  by (simp_all add: eps64_def)

lemma rnd_close_rnd: "1 / 1024 \<le> x \<Longrightarrow> rnd_close x (rnd x)"
proof -
  assume x: "1 / 1024 \<le> x"
  have "(2::rat) powi (-1022) \<le> 2 powi (-10)" by (rule powi2_mono) simp
  also have "\<dots> \<le> x" using x by (simp add: power_int_def power_one_over)
  finally have "2 powi (-1022) \<le> \<bar>x\<bar>" using x by simp
  from rnd_error [OF this] x show ?thesis
    by (auto simp: rnd_close_def algebra_simps abs_if split: if_splits)
qed

lemma f64_round_normal:
  assumes "1 / 1024 \<le> x" and "x \<le> 2 ^ 200"
  shows "f64_round s x = F64_Fin (rnd x)" and "0 < rnd x"
proof -
  have c: "x * (1 - eps64) \<le> rnd x" "rnd x \<le> x * (1 + eps64)"
    using rnd_close_rnd [OF assms(1)] by (auto simp: rnd_close_def)
  have "0 < x * (1 - eps64)" using assms(1) by (simp add: eps64_def)
  with c show r: "0 < rnd x" by linarith
  have "x * (1 + eps64) \<le> 2 ^ 200 * 2" using assms by (intro mult_mono) (auto simp: eps64_def)
  also have "\<dots> < (2::rat) ^ 1024" by simp
  finally have "rnd x < 2 ^ 1024" using c by linarith
  with r assms show "f64_round s x = F64_Fin (rnd x)" by (simp add: f64_round_def Let_def)
qed

lemma f64_mul_Fin: "f64_mul (F64_Fin a) (F64_Fin b) = f64_round ((a < 0) \<noteq> (b < 0)) (a * b)"
  by (simp add: f64_mul_def Let_def)

lemma round_away_bounds:
  assumes "0 \<le> x" shows "x - 1/2 \<le> of_int (round_away x)" and "of_int (round_away x) \<le> x + 1/2"
  using assms floor_correct [of "x + 1/2"] by (auto simp: round_away_def)

end
