(* ===== verification/RustStr.thy ===== *)
theory RustStr
  imports F64 "HOL-Library.Sublist"
begin

text \<open>
  The parts of Rust's \<open>str\<close> and \<open>char\<close> the program uses. A Rust string is its UTF-8
  bytes, so a \<open>string\<close> of the model is a list of bytes (a \<open>char\<close> of HOL is one byte) and
  \<open>length\<close> is Rust's \<open>len()\<close>. Slicing checks the character boundary, \<open>trim\<close> removes every
  code point with the Unicode White_Space property by its encoding.
\<close>

section \<open>Bytes\<close>

abbreviation byte :: "char \<Rightarrow> nat" where "byte \<equiv> of_char"

definition is_ascii_digit :: "char \<Rightarrow> bool" where
  "is_ascii_digit c \<longleftrightarrow> 48 \<le> byte c \<and> byte c \<le> 57"

definition is_ascii_upper :: "char \<Rightarrow> bool" where
  "is_ascii_upper c \<longleftrightarrow> 65 \<le> byte c \<and> byte c \<le> 90"

definition is_ascii_lower :: "char \<Rightarrow> bool" where
  "is_ascii_lower c \<longleftrightarrow> 97 \<le> byte c \<and> byte c \<le> 122"

definition is_ascii_alphabetic :: "char \<Rightarrow> bool" where
  "is_ascii_alphabetic c \<longleftrightarrow> is_ascii_upper c \<or> is_ascii_lower c"

definition to_ascii_upper :: "char \<Rightarrow> char" where
  "to_ascii_upper c = (if is_ascii_lower c then char_of (byte c - 32) else c)"

definition to_ascii_lower :: "char \<Rightarrow> char" where
  "to_ascii_lower c = (if is_ascii_upper c then char_of (byte c + 32) else c)"

text \<open>A byte \<open>10xxxxxx\<close> continues a character; an index before one is no boundary.\<close>

definition is_utf8_cont :: "char \<Rightarrow> bool" where
  "is_utf8_cont c \<longleftrightarrow> 128 \<le> byte c \<and> byte c < 192"

text \<open>\<open>&s[0..n]\<close>\<close>

definition str_slice_to :: "nat \<Rightarrow> string \<Rightarrow> string outcome" where
  "str_slice_to n s =
     (if length s < n then Inl (Panic ''byte index out of range'')
      else if n < length s \<and> is_utf8_cont (s ! n) then Inl (Panic ''not a char boundary'')
      else Inr (take n s))"

section \<open>Trimming\<close>

text \<open>
  The number of bytes of a white-space character at the start of the text, 0 if there is none;
  \<open>ws_len_rev\<close> reads the reversed text, so it sees the last character's bytes backwards.
\<close>

definition is_ws1 :: "nat \<Rightarrow> bool" where
  "is_ws1 b \<longleftrightarrow> (9 \<le> b \<and> b \<le> 13) \<or> b = 32"

definition is_ws2 :: "nat \<Rightarrow> nat \<Rightarrow> bool" where
  "is_ws2 b c \<longleftrightarrow> b = 194 \<and> (c = 133 \<or> c = 160)"

definition is_ws3 :: "nat \<Rightarrow> nat \<Rightarrow> nat \<Rightarrow> bool" where
  "is_ws3 b c d \<longleftrightarrow>
     (b = 225 \<and> c = 154 \<and> d = 128) \<or>
     (b = 226 \<and> c = 128 \<and> (128 \<le> d \<and> d \<le> 138 \<or> d = 168 \<or> d = 169 \<or> d = 175)) \<or>
     (b = 226 \<and> c = 129 \<and> d = 159) \<or>
     (b = 227 \<and> c = 128 \<and> d = 128)"

fun ws_len :: "string \<Rightarrow> nat" where
  "ws_len (b # c # d # s) =
     (if is_ws1 (byte b) then 1 else if is_ws2 (byte b) (byte c) then 2
      else if is_ws3 (byte b) (byte c) (byte d) then 3 else 0)"
| "ws_len [b, c] = (if is_ws1 (byte b) then 1 else if is_ws2 (byte b) (byte c) then 2 else 0)"
| "ws_len [b] = (if is_ws1 (byte b) then 1 else 0)"
| "ws_len [] = 0"

fun ws_len_rev :: "string \<Rightarrow> nat" where
  "ws_len_rev (d # c # b # s) =
     (if is_ws1 (byte d) then 1 else if is_ws2 (byte c) (byte d) then 2
      else if is_ws3 (byte b) (byte c) (byte d) then 3 else 0)"
| "ws_len_rev [d, c] = (if is_ws1 (byte d) then 1 else if is_ws2 (byte c) (byte d) then 2 else 0)"
| "ws_len_rev [d] = (if is_ws1 (byte d) then 1 else 0)"
| "ws_len_rev [] = 0"

lemma ws_len_le [simp]: "ws_len s \<le> length s"
  by (induction s rule: ws_len.induct) auto

lemma ws_len_rev_le [simp]: "ws_len_rev s \<le> length s"
  by (induction s rule: ws_len_rev.induct) auto

lemma ws_len_pos_nonempty: "0 < ws_len s \<Longrightarrow> s \<noteq> []"
  by auto

function strip_ws :: "(string \<Rightarrow> nat) \<Rightarrow> string \<Rightarrow> string" where
  "strip_ws w s = (if s \<noteq> [] \<and> 0 < w s then strip_ws w (drop (w s) s) else s)"
  by pat_completeness auto
termination
  by (relation "measure (\<lambda>(w, s). length s)") auto

declare strip_ws.simps [simp del]

definition trim :: "string \<Rightarrow> string" where
  "trim s = rev (strip_ws ws_len_rev (rev (strip_ws ws_len s)))"

section \<open>Searching and splitting\<close>

definition str_contains :: "string \<Rightarrow> string \<Rightarrow> bool" where
  "str_contains pat s \<longleftrightarrow> sublist pat s"

definition str_starts_with :: "string \<Rightarrow> string \<Rightarrow> bool" where
  "str_starts_with pat s \<longleftrightarrow> prefix pat s"

fun split_char :: "char \<Rightarrow> string \<Rightarrow> string list" where
  "split_char c [] = [[]]"
| "split_char c (x # xs) =
     (if x = c then [] # split_char c xs
      else (case split_char c xs of [] \<Rightarrow> [[x]] | p # ps \<Rightarrow> (x # p) # ps))"

function split_str :: "string \<Rightarrow> string \<Rightarrow> string list" where
  "split_str pat s =
     (if pat \<noteq> [] \<and> s \<noteq> [] \<and> prefix pat s then [] # split_str pat (drop (length pat) s)
      else case s of [] \<Rightarrow> [[]]
        | x # xs \<Rightarrow> (case split_str pat xs of [] \<Rightarrow> [[x]] | p # ps \<Rightarrow> (x # p) # ps))"
  by pat_completeness auto
termination
  by (relation "measure (\<lambda>(pat, s). length s)") auto

declare split_str.simps [simp del]

definition str_replace :: "string \<Rightarrow> string \<Rightarrow> string \<Rightarrow> string" where
  "str_replace pat new s =
     (case split_str pat s of [] \<Rightarrow> [] | p # ps \<Rightarrow> p @ concat (map (\<lambda>q. new @ q) ps))"

fun split_once :: "char \<Rightarrow> string \<Rightarrow> (string \<times> string) option" where
  "split_once c [] = None"
| "split_once c (x # xs) =
     (if x = c then Some ([], xs) else map_option (\<lambda>(k, v). (x # k, v)) (split_once c xs))"

text \<open>\<open>iter.nth(n)\<close>\<close>

definition list_nth :: "'a list \<Rightarrow> nat \<Rightarrow> 'a option" where
  "list_nth xs n = (if n < length xs then Some (xs ! n) else None)"

text \<open>\<open>str::lines\<close>: an ending of a line feed, or carriage return and line feed; no last empty line.\<close>

definition strip_cr :: "string \<Rightarrow> string" where
  "strip_cr l = (if l \<noteq> [] \<and> byte (last l) = 13 then butlast l else l)"

definition str_lines :: "string \<Rightarrow> string list" where
  "str_lines s = (let ps = split_char (char_of (10::nat)) s
     in map strip_cr (butlast ps) @ (if last ps = [] then [] else [last ps]))"

section \<open>Numbers\<close>

definition digit_char :: "nat \<Rightarrow> char" where "digit_char d = char_of (48 + d)"

fun show_nat :: "nat \<Rightarrow> string" where
  "show_nat n = (if n < 10 then [digit_char n] else show_nat (n div 10) @ [digit_char (n mod 10)])"

declare show_nat.simps [simp del]

definition nat_of_digits :: "string \<Rightarrow> nat" where
  "nat_of_digits ds = foldl (\<lambda>a c. 10 * a + (byte c - 48)) 0 ds"

text \<open>\<open>str::parse::<usize>\<close> on a 64-bit machine.\<close>

definition usize_max :: nat where "usize_max = 2 ^ 64 - 1"

definition parse_usize :: "string \<Rightarrow> nat option" where
  "parse_usize s =
     (let ds = (case s of c # cs \<Rightarrow> if c = CHR ''+'' then cs else s | [] \<Rightarrow> [])
      in if ds = [] \<or> \<not> list_all is_ascii_digit ds \<or> usize_max < nat_of_digits ds then None
         else Some (nat_of_digits ds))"

definition split_sign :: "string \<Rightarrow> bool \<times> string" where
  "split_sign s = (case s of [] \<Rightarrow> (False, [])
     | c # cs \<Rightarrow> if c = CHR ''-'' then (True, cs) else if c = CHR ''+'' then (False, cs) else (False, s))"

text \<open>\<open>str::parse::<f64>\<close>: the documented grammar, correctly rounded.\<close>

definition parse_exp :: "string \<Rightarrow> int option" where
  "parse_exp r = (case r of [] \<Rightarrow> Some 0
     | c # cs \<Rightarrow>
        if c = CHR ''e'' \<or> c = CHR ''E'' then
          (let (neg, ds) = split_sign cs
           in if ds = [] \<or> \<not> list_all is_ascii_digit ds then None
              else Some (if neg then - int (nat_of_digits ds) else int (nat_of_digits ds)))
        else None)"

definition parse_number :: "bool \<Rightarrow> string \<Rightarrow> f64 option" where
  "parse_number neg r =
     (let ip = takeWhile is_ascii_digit r; r1 = dropWhile is_ascii_digit r;
          (fp, r2) = (case r1 of [] \<Rightarrow> ([], [])
            | c # cs \<Rightarrow> if c = CHR ''.'' then (takeWhile is_ascii_digit cs, dropWhile is_ascii_digit cs)
                       else ([], r1))
      in if ip = [] \<and> fp = [] then None
         else map_option (\<lambda>e. f64_round neg
                ((if neg then -1 else 1) * of_nat (nat_of_digits (ip @ fp)) * 10 powi (e - int (length fp))))
              (parse_exp r2))"

definition parse_f64 :: "string \<Rightarrow> f64 option" where
  "parse_f64 s =
     (let (neg, r) = split_sign s; l = map to_ascii_lower r
      in if l = ''nan'' then Some F64_NaN
         else if l = ''inf'' \<or> l = ''infinity'' then Some (F64_Inf neg)
         else parse_number neg r)"

section \<open>Facts\<close>

lemma strip_ws_idle: "w s = 0 \<Longrightarrow> strip_ws w s = s"
  by (simp add: strip_ws.simps)

lemma strip_ws_stops: "strip_ws w s = [] \<or> w (strip_ws w s) = 0"
proof (induction w s rule: strip_ws.induct)
  case (1 w s)
  then show ?case by (cases "s \<noteq> [] \<and> 0 < w s") (auto simp: strip_ws.simps [of w s])
qed

lemma trim_id: "ws_len s = 0 \<Longrightarrow> ws_len_rev (rev s) = 0 \<Longrightarrow> trim s = s"
  by (simp add: trim_def strip_ws_idle)

lemma trim_Nil [simp]: "trim [] = []"
  by (simp add: trim_id)

lemma split_char_nonempty [simp]: "split_char c s \<noteq> []"
  by (induction s) (auto split: list.splits)

lemma split_char_fresh: "c \<notin> set s \<Longrightarrow> split_char c s = [s]"
  by (induction s) auto

lemma split_char_append:
  "c \<notin> set s \<Longrightarrow> split_char c (s @ c # t) = s # split_char c t"
  by (induction s) auto

lemma split_once_append: "c \<notin> set k \<Longrightarrow> split_once c (k @ c # v) = Some (k, v)"
  by (induction k) auto

lemma split_once_None_iff: "split_once c s = None \<longleftrightarrow> c \<notin> set s"
  by (induction s) auto

lemma split_once_SomeD: "split_once c s = Some (k, v) \<Longrightarrow> s = k @ c # v \<and> c \<notin> set k"
  by (induction s arbitrary: k v) (auto split: if_splits)

lemma digit_char_is_digit: "d < 10 \<Longrightarrow> is_ascii_digit (digit_char d)"
  by (simp add: is_ascii_digit_def digit_char_def)

lemma byte_digit_char: "d < 10 \<Longrightarrow> byte (digit_char d) = 48 + d"
  by (simp add: digit_char_def)

lemma nat_of_digits_snoc: "nat_of_digits (ds @ [c]) = 10 * nat_of_digits ds + (byte c - 48)"
  by (simp add: nat_of_digits_def)

lemma nat_of_digits_show_nat: "nat_of_digits (show_nat n) = n"
proof (induction n rule: show_nat.induct)
  case (1 n)
  show ?case
  proof (cases "n < 10")
    case True
    then show ?thesis by (simp add: show_nat.simps [of n] nat_of_digits_def byte_digit_char)
  next
    case False
    with 1 show ?thesis by (simp add: show_nat.simps [of n] nat_of_digits_snoc byte_digit_char)
  qed
qed

lemma show_nat_digits: "list_all is_ascii_digit (show_nat n)"
proof (induction n rule: show_nat.induct)
  case (1 n)
  then show ?case
    by (cases "n < 10") (simp_all add: show_nat.simps [of n] digit_char_is_digit)
qed

lemma show_nat_nonempty [simp]: "show_nat n \<noteq> []"
  by (subst show_nat.simps) simp

lemma digit_not_plus: "is_ascii_digit c \<Longrightarrow> c \<noteq> CHR ''+''"
  by (auto simp: is_ascii_digit_def)

lemma parse_usize_digits:
  assumes "ds \<noteq> []" and "list_all is_ascii_digit ds"
  shows "parse_usize ds = (if usize_max < nat_of_digits ds then None else Some (nat_of_digits ds))"
  using assms by (cases ds) (auto simp: parse_usize_def dest: digit_not_plus)

lemma parse_usize_show_nat: "n \<le> usize_max \<Longrightarrow> parse_usize (show_nat n) = Some n"
  by (simp add: parse_usize_digits show_nat_digits nat_of_digits_show_nat)

lemma str_slice_to_Inr: "str_slice_to n s = Inr t \<Longrightarrow> t = take n s \<and> length t = n"
  by (auto simp: str_slice_to_def split: if_splits)

end
