(* ===== verification/Calendar.thy ===== *)
theory Calendar
  imports RustStr
begin

text \<open>
  What the program uses of the crates \<open>chrono\<close> and \<open>chrono_tz\<close>, as parameters: the records
  \<open>chrono\<close> (a calendar) and \<open>tz\<close> (a time zone), the locales \<open>chrono_laws\<close> and
  \<open>tz_laws\<close> with the documented behaviour the program relies on, and their interpretations on
  the proleptic Gregorian calendar and on the US Eastern rules of the year 2025. A date is its
  day number (0 is 1970-01-01), an instant its nanoseconds since the Unix epoch, a local time of
  day its nanoseconds since local midnight. At the end, \<open>utils/time.rs\<close>.
\<close>

type_synonym date = int
type_synonym instant = int
type_synonym day_time = int

definition ns_per_sec :: int where "ns_per_sec = 1000000000"
definition day_ns :: int where "day_ns = 86400 * 1000000000"

text \<open>\<open>NaiveTime::from_hms_opt(h, m, s).unwrap()\<close>, and \<open>TimeDelta::num_seconds\<close>, which truncates.\<close>

definition hms :: "int \<Rightarrow> int \<Rightarrow> int \<Rightarrow> day_time" where
  "hms h m s = (h * 3600 + m * 60 + s) * ns_per_sec"

definition num_seconds :: "int \<Rightarrow> int" where
  "num_seconds d = (if d < 0 then - ((- d) div ns_per_sec) else d div ns_per_sec)"

section \<open>The calendar\<close>

record chrono =
  num_days_from_monday :: "date \<Rightarrow> nat"
  day_of_month :: "date \<Rightarrow> nat"
  with_day :: "date \<Rightarrow> nat \<Rightarrow> date option"
  format_ymd :: "date \<Rightarrow> string"

locale chrono_laws =
  fixes C :: chrono
  assumes weekday_lt: "num_days_from_monday C d < 7"
    and weekday_add: "int (num_days_from_monday C (d + k)) = (int (num_days_from_monday C d) + k) mod 7"
    and day_pos: "1 \<le> day_of_month C d"
    and with_day_back: "1 \<le> n \<Longrightarrow> n \<le> day_of_month C d \<Longrightarrow>
      with_day C d n = Some (d - int (day_of_month C d) + int n)"
begin

lemma weekday_of_monday:
  "num_days_from_monday C (d - int (num_days_from_monday C d)) = 0"
  using weekday_add [of d "- int (num_days_from_monday C d)"] by simp

lemma weekday_back:
  assumes "num_days_from_monday C (d - int k) = w"
  shows "num_days_from_monday C d = (w + k) mod 7"
proof -
  have "int (num_days_from_monday C d) = (int w + int k) mod 7"
    using weekday_add [of "d - int k" "int k"] assms by simp
  then show ?thesis by (metis nat_int of_nat_add of_nat_mod of_nat_numeral)
qed

end

subsection \<open>The proleptic Gregorian calendar\<close>

text \<open>
  Years start on March 1st, so that the leap day is the last day of the year; \<open>z\<close> counts the
  days from 0000-03-01, an era is 400 years, \<open>ystart y\<close> the first day of year \<open>y\<close> of an era,
  \<open>mstart m\<close> the first day of month \<open>m\<close> of a year.
\<close>

definition ystart :: "int \<Rightarrow> int" where
  "ystart y = 365 * y + y div 4 - y div 100 + y div 400"

definition mstart :: "int \<Rightarrow> int" where
  "mstart m = (153 * m + 2) div 5"

definition day_of_era :: "date \<Rightarrow> int" where
  "day_of_era d = (d + 719468) mod 146097"

definition year_of_era :: "int \<Rightarrow> int" where
  "year_of_era e = (let y = e div 365 in if ystart y \<le> e then y else y - 1)"

definition month_of_year :: "int \<Rightarrow> int" where
  "month_of_year doy = (5 * doy + 2) div 153"

definition greg_doy :: "date \<Rightarrow> int" where
  "greg_doy d = day_of_era d - ystart (year_of_era (day_of_era d))"

definition greg_day :: "date \<Rightarrow> int" where
  "greg_day d = greg_doy d - mstart (month_of_year (greg_doy d)) + 1"

definition greg_month_len :: "date \<Rightarrow> int" where
  "greg_month_len d =
     (let y = year_of_era (day_of_era d); m = month_of_year (greg_doy d)
      in if m < 11 then mstart (m + 1) - mstart m else ystart (y + 1) - ystart y - mstart 11)"

definition greg_ymd :: "date \<Rightarrow> int \<times> int \<times> int" where
  "greg_ymd d =
     (let m = month_of_year (greg_doy d);
          y = (d + 719468) div 146097 * 400 + year_of_era (day_of_era d)
      in (if m < 10 then (y, m + 3, greg_day d) else (y + 1, m - 9, greg_day d)))"

definition pad2 :: "int \<Rightarrow> string" where
  "pad2 n = [digit_char (nat (n div 10)), digit_char (nat (n mod 10))]"

definition gregorian :: chrono where
  "gregorian = \<lparr>
     num_days_from_monday = (\<lambda>d. nat ((d + 3) mod 7)),
     day_of_month = (\<lambda>d. nat (greg_day d)),
     with_day = (\<lambda>d n. if 1 \<le> n \<and> int n \<le> greg_month_len d then Some (d - greg_day d + int n) else None),
     format_ymd = (\<lambda>d. case greg_ymd d of (y, m, k) \<Rightarrow>
       pad2 (y div 100) @ pad2 (y mod 100) @ ''-'' @ pad2 m @ ''-'' @ pad2 k)\<rparr>"

lemma div_plus1: "(0::int) < n \<Longrightarrow> (y + 1) div n = y div n + (if n dvd y + 1 then 1 else 0)"
proof -
  assume n: "0 < n"
  define q r where "q = y div n" and "r = y mod n"
  have y: "y = n * q + r" "0 \<le> r" "r < n" using n by (auto simp: q_def r_def)
  show ?thesis
  proof (cases "r = n - 1")
    case True
    then have "y + 1 = n * (q + 1)" using y(1) by (simp add: algebra_simps)
    then show ?thesis using n by (simp add: q_def)
  next
    case False
    then have r: "0 < r + 1" "r + 1 < n" using y by auto
    have "(y + 1) div n = q" "(y + 1) mod n = r + 1"
      using y r by (auto intro: int_div_pos_eq int_mod_pos_eq)
    then show ?thesis using r by (auto simp: q_def dvd_eq_mod_eq_0)
  qed
qed

lemma ystart_step: "ystart (y + 1) \<le> ystart y + 366" "ystart y + 365 \<le> ystart (y + 1)"
proof -
  have "(400::int) dvd y + 1 \<Longrightarrow> 100 dvd y + 1" "(100::int) dvd y + 1 \<Longrightarrow> 4 dvd y + 1"
    by presburger+
  then show "ystart (y + 1) \<le> ystart y + 366" "ystart y + 365 \<le> ystart (y + 1)"
    by (auto simp: ystart_def div_plus1)
qed

lemma ystart_ge: "0 \<le> y \<Longrightarrow> 365 * y \<le> ystart y"
  using zdiv_mono2 [of y 4 100] by (simp add: ystart_def pos_imp_zdiv_nonneg_iff)

lemma ystart_le: "0 \<le> y \<Longrightarrow> y \<le> 400 \<Longrightarrow> ystart y \<le> 365 * y + 101"
  unfolding ystart_def by linarith

lemma year_of_era_bounds:
  assumes "0 \<le> e" and "e < 146097"
  shows "ystart (year_of_era e) \<le> e" and "e < ystart (year_of_era e + 1)"
proof -
  define y where "y = e div 365"
  have y: "365 * y \<le> e" "e < 365 * y + 365" "0 \<le> y" "y \<le> 400"
    using assms by (auto simp: y_def)
  have "ystart (year_of_era e) \<le> e \<and> e < ystart (year_of_era e + 1)"
  proof (cases "ystart y \<le> e")
    case True
    moreover have "e < ystart (y + 1)" using y ystart_ge [of "y + 1"] by simp
    ultimately show ?thesis by (simp add: year_of_era_def y_def [symmetric])
  next
    case False
    moreover have "0 \<le> y - 1" using False y assms by (cases "y = 0") (auto simp: ystart_def)
    then have "ystart (y - 1) \<le> e" using y ystart_le [of "y - 1"] by simp
    ultimately show ?thesis by (simp add: year_of_era_def y_def [symmetric])
  qed
  then show "ystart (year_of_era e) \<le> e" "e < ystart (year_of_era e + 1)" by auto
qed

lemma month_bounds: "mstart (month_of_year doy) \<le> doy" "doy < mstart (month_of_year doy + 1)"
proof -
  define q where "q = (5 * doy + 2) div 153"
  have q: "153 * q \<le> 5 * doy + 2" "5 * doy + 2 < 153 * q + 153" by (auto simp: q_def)
  from q(1) have "mstart q \<le> doy" unfolding mstart_def by linarith
  moreover from q(2) have "5 * (doy + 1) \<le> 153 * (q + 1) + 2" by simp
  then have "doy + 1 \<le> mstart (q + 1)" 
    using zdiv_mono1 [of "5 * (doy + 1)" "153 * (q + 1) + 2" 5] by (simp add: mstart_def)
  ultimately show "mstart (month_of_year doy) \<le> doy" "doy < mstart (month_of_year doy + 1)"
    by (auto simp: month_of_year_def q_def [symmetric])
qed

lemma greg_doy_bounds: "0 \<le> greg_doy d" "greg_doy d < ystart (year_of_era (day_of_era d) + 1) - ystart (year_of_era (day_of_era d))"
  using year_of_era_bounds [of "day_of_era d"] by (auto simp: greg_doy_def day_of_era_def)

lemma greg_day_bounds: "1 \<le> greg_day d" "greg_day d \<le> greg_month_len d"
proof -
  show "1 \<le> greg_day d" using month_bounds(1) [of "greg_doy d"] by (simp add: greg_day_def)
  have doy: "greg_doy d \<le> 365"
  proof -
    show ?thesis using greg_doy_bounds(2) [of d] ystart_step(1) [of "year_of_era (day_of_era d)"] by linarith
  qed
  have m: "month_of_year (greg_doy d) \<le> 11" using doy by (simp add: month_of_year_def)
  show "greg_day d \<le> greg_month_len d"
  proof (cases "month_of_year (greg_doy d) < 11")
    case True
    then show ?thesis using month_bounds(2) [of "greg_doy d"] by (simp add: greg_day_def greg_month_len_def Let_def)
  next
    case False
    then have "month_of_year (greg_doy d) = 11" using m by simp
    then show ?thesis using greg_doy_bounds(2) [of d] by (simp add: greg_day_def greg_month_len_def Let_def)
  qed
qed

interpretation gregorian_laws: chrono_laws gregorian
proof
  fix d k :: int and n :: nat
  show "num_days_from_monday gregorian d < 7" by (simp add: gregorian_def)
  show "int (num_days_from_monday gregorian (d + k)) = (int (num_days_from_monday gregorian d) + k) mod 7"
    by (simp add: gregorian_def) (simp add: mod_add_left_eq mod_add_right_eq algebra_simps)
  show "1 \<le> day_of_month gregorian d" using greg_day_bounds(1) [of d] by (simp add: gregorian_def)
  assume n: "1 \<le> n" "n \<le> day_of_month gregorian d"
  then have "int n \<le> greg_day d" using greg_day_bounds(1) [of d] by (simp add: gregorian_def)
  then show "with_day gregorian d n = Some (d - int (day_of_month gregorian d) + int n)"
    using n greg_day_bounds [of d] by (simp add: gregorian_def)
qed

section \<open>Time zones\<close>

text \<open>
  \<open>tz_local u\<close> is the local date and time of day of an instant; \<open>tz_earliest d t\<close> is
  \<open>from_local_datetime(d, t).earliest()\<close>, the first instant with that local time, \<open>None\<close> when a
  clock change skips it; \<open>min_utc\<close> is \<open>DateTime::<Utc>::MIN_UTC\<close>.
\<close>

record tz =
  tz_local :: "instant \<Rightarrow> date \<times> day_time"
  tz_earliest :: "date \<Rightarrow> day_time \<Rightarrow> instant option"
  min_utc :: instant

text \<open>
  \<open>safe\<close> is a time of day by which the zone's clock changes of the day are over
  (three o'clock for US Eastern).
\<close>

locale tz_laws =
  fixes Z :: tz and safe :: day_time
  assumes earliest_ex: "safe \<le> t \<Longrightarrow> t < day_ns \<Longrightarrow> \<exists>v. tz_earliest Z d t = Some v"
    and earliest_local: "tz_earliest Z d t = Some v \<Longrightarrow> tz_local Z v = (d, t)"
    and date_mono: "u \<le> v \<Longrightarrow> fst (tz_local Z u) \<le> fst (tz_local Z v)"
    and clock_mono: "u \<le> v \<Longrightarrow> fst (tz_local Z u) = fst (tz_local Z v) \<Longrightarrow>
      safe \<le> snd (tz_local Z u) \<Longrightarrow> snd (tz_local Z u) \<le> snd (tz_local Z v)"
    and next_day: "safe \<le> snd (tz_local Z u) \<Longrightarrow> fst (tz_local Z u) < fst (tz_local Z (u + day_ns))"

section \<open>\<open>utils/time.rs\<close>\<close>

definition localtimeonly2future_datetime_tz :: "tz \<Rightarrow> instant \<Rightarrow> day_time \<Rightarrow> instant" where
  "localtimeonly2future_datetime_tz Z now t =
     (let (today, time) = tz_local Z now;
          target_date = (if time < t then today else fst (tz_local Z (now + day_ns)))
      in case tz_earliest Z target_date t of Some v \<Rightarrow> v | None \<Rightarrow> min_utc Z)"

context tz_laws
begin

lemma future_target:
  assumes "safe \<le> t" and "t < day_ns"
  shows "now < localtimeonly2future_datetime_tz Z now t"
    and "snd (tz_local Z (localtimeonly2future_datetime_tz Z now t)) = t"
proof -
  obtain d s where now: "tz_local Z now = (d, s)" by fastforce
  define d' where "d' = (if s < t then d else fst (tz_local Z (now + day_ns)))"
  obtain v where v: "tz_earliest Z d' t = Some v" using earliest_ex assms by blast
  have r: "localtimeonly2future_datetime_tz Z now t = v"
    using v by (simp add: localtimeonly2future_datetime_tz_def now d'_def)
  have lv: "tz_local Z v = (d', t)" using v by (rule earliest_local)
  have "\<not> v \<le> now"
  proof
    assume le: "v \<le> now"
    then have "d' \<le> d" using date_mono [OF le] by (simp add: lv now)
    moreover have "s < t"
    proof (rule ccontr)
      assume "\<not> s < t"
      then have "d < d'" using next_day [of now] assms by (simp add: now d'_def)
      with \<open>d' \<le> d\<close> show False by simp
    qed
    moreover have "t \<le> s" if "s < t"
      using clock_mono [OF le] that assms by (simp add: lv now d'_def)
    ultimately show False by simp
  qed
  then show "now < localtimeonly2future_datetime_tz Z now t" by (simp add: r)
  show "snd (tz_local Z (localtimeonly2future_datetime_tz Z now t)) = t" by (simp add: r lv)
qed

end

subsection \<open>US Eastern in 2025\<close>

text \<open>
  UTC-4 from 2025-03-09 07:00 UTC to 2025-11-02 06:00 UTC, UTC-5 outside. A local time is mapped
  back by trying the summer offset first, whose instant is the earlier one.
\<close>

definition dst_start :: instant where "dst_start = 1741503600 * 1000000000"
definition dst_end :: instant where "dst_end = 1762063200 * 1000000000"
definition off_summer :: int where "off_summer = -14400 * 1000000000"
definition off_winter :: int where "off_winter = -18000 * 1000000000"

definition eastern_offset :: "instant \<Rightarrow> int" where
  "eastern_offset u = (if dst_start \<le> u \<and> u < dst_end then off_summer else off_winter)"

definition eastern_2025 :: tz where
  "eastern_2025 = \<lparr>
     tz_local = (\<lambda>u. ((u + eastern_offset u) div day_ns, (u + eastern_offset u) mod day_ns)),
     tz_earliest = (\<lambda>d t. let l = d * day_ns + t; us = l - off_summer; uw = l - off_winter
        in if \<not> (0 \<le> t \<and> t < day_ns) then None
           else if eastern_offset us = off_summer then Some us
           else if eastern_offset uw = off_winter then Some uw else None),
     min_utc = -8334601228800 * 1000000000\<rparr>"

lemmas eastern_defs = eastern_offset_def dst_start_def dst_end_def off_summer_def off_winter_def

lemma eastern_mono_div:
  "u \<le> v \<Longrightarrow> (u + eastern_offset u) div day_ns \<le> (v + eastern_offset v) div day_ns"
proof (cases "u < dst_end \<and> dst_end \<le> v")
  case True
  have "(u + eastern_offset u) div day_ns \<le> (dst_end - 1 + off_summer) div day_ns"
    using True by (intro zdiv_mono1) (auto simp: eastern_defs day_ns_def)
  also have "\<dots> = (dst_end + off_winter) div day_ns" by (simp add: eastern_defs day_ns_def)
  also have "\<dots> \<le> (v + eastern_offset v) div day_ns"
    using True by (intro zdiv_mono1) (auto simp: eastern_defs day_ns_def)
  finally show ?thesis .
next
  case False
  assume "u \<le> v"
  with False have "u + eastern_offset u \<le> v + eastern_offset v" by (auto simp: eastern_defs)
  then show ?thesis by (intro zdiv_mono1) (auto simp: day_ns_def)
qed

interpretation eastern_laws: tz_laws eastern_2025 "hms 3 0 0"
proof
  fix d t u v :: int
  show "\<exists>v. tz_earliest eastern_2025 d t = Some v" if "hms 3 0 0 \<le> t" "t < day_ns"
  proof (rule ccontr)
    assume no: "\<not> ?thesis"
    define l where "l = d * day_ns + t"
    have t: "0 \<le> t" using that by (simp add: hms_def ns_per_sec_def)
    have "eastern_offset (l - off_summer) \<noteq> off_summer" "eastern_offset (l - off_winter) \<noteq> off_winter"
      using no t that by (auto simp: eastern_2025_def l_def Let_def split: if_splits)
    then have "20156 * 86400 * 1000000000 + 7200 * 1000000000 \<le> l" "l < 20156 * 86400 * 1000000000 + 10800 * 1000000000"
      by (auto simp: eastern_defs split: if_splits)
    then have "d < 20156" "20155 < d"
      using that by (simp_all add: l_def day_ns_def hms_def ns_per_sec_def)
    then show False by simp
  qed
  show "tz_local eastern_2025 v = (d, t)" if "tz_earliest eastern_2025 d t = Some v"
  proof -
    from that have "0 \<le> t" "t < day_ns" "v + eastern_offset v = d * day_ns + t"
      by (auto simp: eastern_2025_def Let_def split: if_splits)
    then show ?thesis by (simp add: eastern_2025_def day_ns_def)
  qed
  show "fst (tz_local eastern_2025 u) \<le> fst (tz_local eastern_2025 v)" if "u \<le> v"
    using eastern_mono_div [OF that] by (simp add: eastern_2025_def)
  show "snd (tz_local eastern_2025 u) \<le> snd (tz_local eastern_2025 v)"
    if uv: "u \<le> v" "fst (tz_local eastern_2025 u) = fst (tz_local eastern_2025 v)" "hms 3 0 0 \<le> snd (tz_local eastern_2025 u)"
  proof (rule ccontr)
    define U V where "U = u + eastern_offset u" and "V = v + eastern_offset v"
    have e: "U div day_ns = V div day_ns" and m: "hms 3 0 0 \<le> U mod day_ns" "0 \<le> V mod day_ns"
      using uv by (auto simp: eastern_2025_def U_def V_def day_ns_def)
    have U: "U = day_ns * (U div day_ns) + U mod day_ns" "V = day_ns * (U div day_ns) + V mod day_ns"
      using mult_div_mod_eq [of day_ns U] mult_div_mod_eq [of day_ns V] by (simp_all only: e)
    assume "\<not> ?thesis"
    then have "V mod day_ns < U mod day_ns"
      by (simp add: eastern_2025_def U_def [symmetric] V_def [symmetric])
    moreover have "V mod day_ns < day_ns" by (simp add: day_ns_def)
    ultimately obtain q rU rV where r: "U = day_ns * q + rU" "V = day_ns * q + rV" "rV < rU"
      "hms 3 0 0 \<le> rU" "0 \<le> rV" "rV < day_ns" using U m by blast
    then have "20394 * 86400 * 1000000000 + 3600 * 1000000000 \<le> V" "U < 20394 * 86400 * 1000000000 + 7200 * 1000000000"
      using uv(1) by (auto simp: U_def V_def eastern_defs split: if_splits)
    then have "q < 20394" "20393 < q"
      using r by (simp_all add: day_ns_def hms_def ns_per_sec_def)
    then show False by simp
  qed
  show "fst (tz_local eastern_2025 u) < fst (tz_local eastern_2025 (u + day_ns))"
    if "hms 3 0 0 \<le> snd (tz_local eastern_2025 u)"
  proof -
    define U V where "U = u + eastern_offset u" and "V = u + day_ns + eastern_offset (u + day_ns)"
    have "U div day_ns * day_ns + hms 3 0 0 \<le> U"
    proof -
      have "hms 3 0 0 \<le> U mod day_ns" using that by (simp add: eastern_2025_def U_def)
      then show ?thesis using div_mult_mod_eq [of U day_ns] by linarith
    qed
    moreover have "U + day_ns - hms 1 0 0 \<le> V"
      by (simp add: U_def V_def eastern_defs hms_def ns_per_sec_def)
    ultimately have "(U div day_ns + 1) * day_ns \<le> V" by (simp add: hms_def ns_per_sec_def algebra_simps)
    then have "U div day_ns + 1 \<le> V div day_ns"
      using zdiv_mono1 [of "(U div day_ns + 1) * day_ns" V day_ns] by (simp add: day_ns_def)
    then show ?thesis by (simp add: eastern_2025_def U_def V_def)
  qed
qed

section \<open>Steady days\<close>

text \<open>
  A zone whose clock runs evenly once the changes of the day are over: from \<open>safe\<close> on a local time
  is that of one instant, and local times differ as their instants do.
\<close>

locale tz_steady = tz_laws +
  assumes local_earliest: "tz_local Z u = (d, t) \<Longrightarrow> safe \<le> t \<Longrightarrow> tz_earliest Z d t = Some u"
    and steady: "tz_earliest Z d t = Some u \<Longrightarrow> tz_earliest Z d t' = Some v \<Longrightarrow> safe \<le> t \<Longrightarrow> safe \<le> t' \<Longrightarrow> v - u = t' - t"
begin

lemma same_instant:
  assumes "tz_local Z u = tz_local Z v" and "safe \<le> snd (tz_local Z u)"
  shows "u = v"
  using local_earliest [of u] local_earliest [of v] assms by (metis option.inject prod.collapse)

text \<open>
  An instant close before a local time \<open>t\<close> of the date \<open>d\<close>, closer than \<open>t\<close> is to \<open>safe\<close>, has that
  date, and its clock shows the time that is left.
\<close>

lemma close_before:
  assumes "tz_earliest Z d t = Some n" and "safe \<le> t" and "safe < day_ns" and "n - u < t - safe"
    and "fst (tz_local Z u) \<le> d" and "safe \<le> snd (tz_local Z u)"
  shows "fst (tz_local Z u) = d" and "snd (tz_local Z u) = t - (n - u)"
proof -
  obtain s where s: "tz_earliest Z d safe = Some s" using earliest_ex [of safe d] assms(3) by auto
  have "n - s = t - safe" using steady [OF s assms(1)] assms(2) by simp
  then have "s \<le> u" using assms(4) by simp
  from date_mono [OF this] show d: "fst (tz_local Z u) = d" using earliest_local [OF s] assms(5) by simp
  have "tz_earliest Z d (snd (tz_local Z u)) = Some u" using d assms(6) by (intro local_earliest) (auto simp: prod_eq_iff)
  from steady [OF this assms(1,6,2)] show "snd (tz_local Z u) = t - (n - u)" by simp
qed

end

lemma eastern_parts:
  assumes "tz_earliest eastern_2025 d t = Some u"
  shows "u + eastern_offset u = d * day_ns + t" and "0 \<le> t" and "t < day_ns"
  using assms by (auto simp: eastern_2025_def Let_def split: if_splits)

lemma eastern_day_split:
  assumes "u + eastern_offset u = d * day_ns + t" and "hms 3 0 0 \<le> t" and "t < day_ns"
  shows "dst_start \<le> u \<longleftrightarrow> 20156 \<le> d" and "dst_end \<le> u \<longleftrightarrow> 20394 \<le> d"
proof -
  have t: "10800000000000 \<le> t" "t < 86400000000000" using assms(2,3) by (simp_all add: hms_def ns_per_sec_def day_ns_def)
  have d: "d * day_ns = 86400000000000 * d" by (simp add: day_ns_def)
  have off: "eastern_offset u = -14400000000000 \<or> eastern_offset u = -18000000000000"
    by (simp add: eastern_defs)
  have e: "u + eastern_offset u = 86400000000000 * d + t" using assms(1) d by simp
  have before: "d < 20156" if "u < 1741503600000000000"
  proof -
    have "eastern_offset u = -18000000000000" using that by (simp add: eastern_defs)
    with that e t show ?thesis by linarith
  qed
  have after: "20156 \<le> d" if "1741503600000000000 \<le> u" using that e t off by linarith
  have before_end: "d < 20394" if "u < 1762063200000000000"
  proof (cases "1741503600000000000 \<le> u")
    case True
    with that have "eastern_offset u = -14400000000000" by (simp add: eastern_defs)
    with that e t show ?thesis by linarith
  next
    case False
    with before show ?thesis by simp
  qed
  have after_end: "20394 \<le> d" if "1762063200000000000 \<le> u" using that e t off by linarith
  show "dst_start \<le> u \<longleftrightarrow> 20156 \<le> d" using before after by (auto simp: dst_start_def not_le [symmetric])
  show "dst_end \<le> u \<longleftrightarrow> 20394 \<le> d" using before_end after_end by (auto simp: dst_end_def not_le [symmetric])
qed

interpretation eastern_steady: tz_steady eastern_2025 "hms 3 0 0"
proof
  fix u d t
  assume l: "tz_local eastern_2025 u = (d, t)" and t: "hms 3 0 0 \<le> t"
  have e: "u + eastern_offset u = d * day_ns + t"
    using l mult_div_mod_eq [of day_ns "u + eastern_offset u"] by (auto simp: eastern_2025_def)
  have b: "0 \<le> t" "t < day_ns" using l by (auto simp: eastern_2025_def day_ns_def)
  show "tz_earliest eastern_2025 d t = Some u"
  proof (cases "eastern_offset u = off_summer")
    case True
    then have "d * day_ns + t - off_summer = u" using e by simp
    with True b show ?thesis by (simp add: eastern_2025_def Let_def)
  next
    case False
    then have w: "eastern_offset u = off_winter" by (auto simp: eastern_offset_def split: if_splits)
    then have uw: "d * day_ns + t - off_winter = u" using e by simp
    have "eastern_offset (d * day_ns + t - off_summer) \<noteq> off_summer"
    proof
      assume s: "eastern_offset (d * day_ns + t - off_summer) = off_summer"
      have sw: "off_winter = -18000000000000" "off_summer = -14400000000000" by (simp_all add: off_winter_def off_summer_def)
      have us: "d * day_ns + t - off_summer = u - 3600000000000" using uw sw by linarith
      have r: "dst_start \<le> u - 3600000000000" "u - 3600000000000 < dst_end"
        using s us sw by (auto simp: eastern_offset_def split: if_splits)
      have "\<not> (dst_start \<le> u \<and> u < dst_end)" using w sw by (auto simp: eastern_offset_def)
      then have "dst_end \<le> u" using r by linarith
      then have "20394 \<le> d" using eastern_day_split(2) [OF e t b(2)] by simp
      moreover have "d * day_ns = 86400000000000 * d" by (simp add: day_ns_def)
      moreover have "10800000000000 \<le> t" using t by (simp add: hms_def ns_per_sec_def)
      moreover have "u < 1762066800000000000" using r(2) by (simp add: dst_end_def)
      ultimately show False using uw sw by linarith
    qed
    with b w uw show ?thesis by (simp add: eastern_2025_def Let_def)
  qed
next
  fix d t u t' v
  assume e: "tz_earliest eastern_2025 d t = Some u" "tz_earliest eastern_2025 d t' = Some v"
    and t: "hms 3 0 0 \<le> t" "hms 3 0 0 \<le> t'"
  note u = eastern_parts [OF e(1)] and v = eastern_parts [OF e(2)]
  have "eastern_offset u = eastern_offset v"
    using eastern_day_split [OF u(1) t(1) u(3)] eastern_day_split [OF v(1) t(2) v(3)]
    unfolding eastern_offset_def not_le [symmetric] by simp
  with u(1) v(1) show "v - u = t' - t" by simp
qed

section \<open>The long day\<close>

text \<open>
  The comment on \<open>localtimeonly2future_datetime_tz\<close> promises an instant in the future. On the day
  of 25 hours it can be in the past: at half past midnight on 2025-11-02 the target ten past midnight is over, but one
  day of 24 hours later it is still the same date. The program's targets are far from midnight.
\<close>

lemma future_target_in_the_past:
  "localtimeonly2future_datetime_tz eastern_2025 (20394 * day_ns + hms 4 30 0) (hms 0 10 0) = 20394 * day_ns + hms 4 10 0"
  by (simp add: localtimeonly2future_datetime_tz_def eastern_2025_def eastern_defs day_ns_def hms_def ns_per_sec_def Let_def)

end
