(* ===== verification/MarkValueCache.thy ===== *)
theory MarkValueCache
  imports Calendar
begin

text \<open>
  \<open>common/memdb/src/mark_value_cache.rs\<close>: the cache of mark values with its time stamps, and the
  quote stream that fills it, shared by its users through a saturating 16-bit count. A spawned
  stream task is an identifier; \<open>live_tasks\<close> are the ones still running, so that a dropped
  handle of a running task would show. The streaming crate is a parameter: whether \<open>start()\<close>
  succeeds, and the updates it delivers.
\<close>

section \<open>State\<close>

type_synonym u16 = "16 word"

definition sat_add_u16 :: "u16 \<Rightarrow> u16 \<Rightarrow> u16" where
  "sat_add_u16 a b = (if unat a + unat b < 2 ^ 16 then a + b else word_of_nat (2 ^ 16 - 1))"

definition sat_sub_u16 :: "u16 \<Rightarrow> u16 \<Rightarrow> u16" where
  "sat_sub_u16 a b = (if unat b \<le> unat a then a - b else 0)"

record mark_value_cache =
  ticker_universe_csv :: string
  mark_timevalues :: "string \<rightharpoonup> f64 \<times> instant"
  quote_stream_task :: "nat option"
  quote_stream_users :: u16
  live_tasks :: "nat set"
  next_task :: nat

definition unix_epoch :: instant where "unix_epoch = 0"

definition mvc_new :: "string \<Rightarrow> mark_value_cache" where
  "mvc_new csv = \<lparr>ticker_universe_csv = csv, mark_timevalues = Map.empty, quote_stream_task = None,
     quote_stream_users = 0, live_tasks = {}, next_task = 0\<rparr>"

section \<open>Operations\<close>

definition csv_tickers :: "string \<Rightarrow> string list" where
  "csv_tickers csv = filter (\<lambda>t. t \<noteq> []) (map trim (split_char CHR '','' csv))"

definition mvc_init :: "mark_value_cache \<Rightarrow> mark_value_cache" where
  "mvc_init c = c\<lparr>mark_timevalues :=
     insert_all (map (\<lambda>t. (t, (F64_NaN, unix_epoch))) (csv_tickers (ticker_universe_csv c))) Map.empty\<rparr>"

definition is_finished :: "mark_value_cache \<Rightarrow> nat \<Rightarrow> bool" where
  "is_finished c t \<longleftrightarrow> t \<notin> live_tasks c"

definition start_quote_stream :: "bool \<Rightarrow> mark_value_cache \<Rightarrow> mark_value_cache" where
  "start_quote_stream start_ok c0 =
     (let c = c0\<lparr>quote_stream_users := sat_add_u16 (quote_stream_users c0) 1\<rparr>
      in if (case quote_stream_task c of Some t \<Rightarrow> \<not> is_finished c t | None \<Rightarrow> False) then c
         else
           (let c = c\<lparr>quote_stream_task := None\<rparr>
            in if csv_tickers (ticker_universe_csv c) = []
               then c\<lparr>quote_stream_users := sat_sub_u16 (quote_stream_users c) 1\<rparr>
               else if \<not> start_ok
               then c\<lparr>quote_stream_users := sat_sub_u16 (quote_stream_users c) 1\<rparr>
               else c\<lparr>quote_stream_task := Some (next_task c),
                      live_tasks := insert (next_task c) (live_tasks c),
                      next_task := Suc (next_task c)\<rparr>))"

definition stop_quote_stream :: "mark_value_cache \<Rightarrow> mark_value_cache" where
  "stop_quote_stream c0 =
     (if quote_stream_users c0 = 0 then c0
      else
        (let c = c0\<lparr>quote_stream_users := quote_stream_users c0 - 1\<rparr>
         in if 0 < quote_stream_users c then c
            else case quote_stream_task c of None \<Rightarrow> c
              | Some t \<Rightarrow> c\<lparr>quote_stream_task := None, live_tasks := live_tasks c - {t}\<rparr>))"

definition is_quote_stream_running :: "mark_value_cache \<Rightarrow> bool" where
  "is_quote_stream_running c \<longleftrightarrow>
     (case quote_stream_task c of Some t \<Rightarrow> \<not> is_finished c t | None \<Rightarrow> False)"

text \<open>
  The body of the stream task: an update without a price counts as NaN and is skipped; where the
  cache's mutex is poisoned, the update is dropped.
\<close>

definition stream_update :: "bool \<Rightarrow> string \<Rightarrow> f64 option \<Rightarrow> instant \<Rightarrow> mark_value_cache \<Rightarrow> mark_value_cache" where
  "stream_update poisoned symbol price ts c =
     (let mark_value = (case price of Some v \<Rightarrow> v | None \<Rightarrow> F64_NaN)
      in if f64_is_nan mark_value then c
         else if poisoned then c
         else c\<lparr>mark_timevalues := (mark_timevalues c)(symbol \<mapsto> (mark_value, ts))\<rparr>)"

text \<open>The receiver of the stream ends: the task has finished, its handle stays.\<close>

definition stream_ends :: "nat \<Rightarrow> mark_value_cache \<Rightarrow> mark_value_cache" where
  "stream_ends t c = c\<lparr>live_tasks := live_tasks c - {t}\<rparr>"

definition get_mark_value :: "mark_value_cache \<Rightarrow> string \<Rightarrow> f64" where
  "get_mark_value c ticker = (case mark_timevalues c ticker of Some (v, _) \<Rightarrow> v | None \<Rightarrow> F64_NaN)"

definition get_mark_timevalue :: "mark_value_cache \<Rightarrow> string \<Rightarrow> f64 \<times> instant" where
  "get_mark_timevalue c ticker =
     (case mark_timevalues c ticker of Some (v, t) \<Rightarrow> (v, t) | None \<Rightarrow> (F64_NaN, unix_epoch))"

definition get_mark_values :: "mark_value_cache \<Rightarrow> string list \<Rightarrow> (string \<times> f64) list" where
  "get_mark_values c tickers = map (\<lambda>t. (t, get_mark_value c t)) tickers"

definition get_mark_timevalues :: "mark_value_cache \<Rightarrow> string list \<Rightarrow> (string \<times> f64 \<times> instant) list" where
  "get_mark_timevalues c tickers =
     map (\<lambda>t. let (v, ts) = get_mark_timevalue c t in (t, v, ts)) tickers"

section \<open>The cache as a store of quotes\<close>

text \<open>
  What a reader of prices relies on: a quote that is put is read back with its time, other
  tickers keep theirs, a missing or NaN price changes nothing.
\<close>

locale quote_store =
  fixes get :: "'s \<Rightarrow> string \<Rightarrow> f64 \<times> instant"
    and put :: "string \<Rightarrow> f64 option \<Rightarrow> instant \<Rightarrow> 's \<Rightarrow> 's"
  assumes put_same: "\<not> f64_is_nan v \<Longrightarrow> get (put k (Some v) ts s) k = (v, ts)"
    and put_other: "k \<noteq> k' \<Longrightarrow> get (put k p ts s) k' = get s k'"
    and put_nan: "f64_is_nan v \<Longrightarrow> put k (Some v) ts s = s"
    and put_none: "put k None ts s = s"
begin

abbreviation puts :: "(string \<times> f64 option \<times> instant) list \<Rightarrow> 's \<Rightarrow> 's" where
  "puts us s \<equiv> fold (\<lambda>(k, p, ts) s. put k p ts s) us s"

lemma get_put:
  "get (put k p ts s) k' =
     (case p of Some v \<Rightarrow> if k = k' \<and> \<not> f64_is_nan v then (v, ts) else get s k' | None \<Rightarrow> get s k')"
  by (cases "k = k'") (auto simp: put_same put_other put_nan put_none split: option.splits)

lemma get_puts:
  "get (puts us s) k =
     (case filter (\<lambda>(k', p, _). k' = k \<and> (\<exists>v. p = Some v \<and> \<not> f64_is_nan v)) (rev us) of
        [] \<Rightarrow> get s k | (_, p, ts) # _ \<Rightarrow> (the p, ts))"
proof (induction us rule: rev_induct)
  case Nil
  then show ?case by simp
next
  case (snoc u us)
  obtain k' p ts where u: "u = (k', p, ts)" by (cases u)
  show ?case
    by (cases p) (auto simp: u get_put snoc.IH)
qed

lemma puts_never_nan:
  assumes "\<not> f64_is_nan (fst (get s k))" shows "\<not> f64_is_nan (fst (get (puts us s) k))"
  using assms
proof (induction us rule: rev_induct)
  case (snoc u us)
  then show ?case by (cases u) (auto simp: get_put split: option.splits)
qed simp

end

interpretation mvc_store: quote_store get_mark_timevalue "stream_update False"
  by unfold_locales (auto simp: get_mark_timevalue_def stream_update_def Let_def)

lemma get_mark_value_fst: "get_mark_value c t = fst (get_mark_timevalue c t)"
  by (auto simp: get_mark_value_def get_mark_timevalue_def split: option.splits)

section \<open>The stream and its users\<close>

text \<open>
  The count may be positive with no task (a start that failed after another user's stream ended),
  but a zero count never leaves a task behind, and a running task is always the stored one.
\<close>

definition mvc_inv :: "mark_value_cache \<Rightarrow> bool" where
  "mvc_inv c \<longleftrightarrow>
     (quote_stream_users c = 0 \<longrightarrow> quote_stream_task c = None) \<and>
     live_tasks c \<subseteq> set_option (quote_stream_task c)"

lemma mvc_inv_new [simp]: "mvc_inv (mvc_new csv)"
  by (simp add: mvc_inv_def mvc_new_def)

lemma unat_sat_add_u16: "unat (sat_add_u16 a 1) = min 65535 (unat a + 1)"
proof -
  have "unat a < 65536" using unsigned_less [of a, where ?'a = nat] by simp
  then show ?thesis by (auto simp: sat_add_u16_def unat_word_ariths)
qed

lemma sat_add_u16_nonzero [simp]: "sat_add_u16 a 1 \<noteq> 0"
  using unat_sat_add_u16 [of a] by auto

lemma unat_sat_sub_u16: "unat (sat_sub_u16 a 1) = unat a - 1"
  by (auto simp: sat_sub_u16_def unat_sub word_le_nat_alt)

lemma mvc_inv_start: "mvc_inv c \<Longrightarrow> mvc_inv (start_quote_stream ok c)"
  by (auto simp: mvc_inv_def start_quote_stream_def Let_def is_finished_def split: option.splits)

lemma mvc_inv_stop: "mvc_inv c \<Longrightarrow> mvc_inv (stop_quote_stream c)"
  by (auto simp: mvc_inv_def stop_quote_stream_def Let_def word_gt_0 split: option.splits)

lemma mvc_inv_update: "mvc_inv c \<Longrightarrow> mvc_inv (stream_update p k v ts c)"
  by (auto simp: mvc_inv_def stream_update_def Let_def)

lemma mvc_inv_ends: "mvc_inv c \<Longrightarrow> mvc_inv (stream_ends t c)"
  by (auto simp: mvc_inv_def stream_ends_def)

lemma mvc_inv_init: "mvc_inv c \<Longrightarrow> mvc_inv (mvc_init c)"
  by (auto simp: mvc_inv_def mvc_init_def)

lemmas mvc_inv_ops = mvc_inv_start mvc_inv_stop mvc_inv_update mvc_inv_ends mvc_inv_init

lemma start_users:
  "unat (quote_stream_users (start_quote_stream ok c)) \<le> min 65535 (unat (quote_stream_users c) + 1)"
  "ok \<Longrightarrow> csv_tickers (ticker_universe_csv c) \<noteq> [] \<Longrightarrow>
     unat (quote_stream_users (start_quote_stream ok c)) = min 65535 (unat (quote_stream_users c) + 1)"
  by (auto simp: start_quote_stream_def Let_def unat_sat_add_u16 unat_sat_sub_u16 split: option.splits)

lemma start_running:
  "ok \<Longrightarrow> csv_tickers (ticker_universe_csv c) \<noteq> [] \<Longrightarrow> is_quote_stream_running (start_quote_stream ok c)"
  by (auto simp: start_quote_stream_def Let_def is_quote_stream_running_def is_finished_def split: option.splits)

lemma stop_users: "unat (quote_stream_users (stop_quote_stream c)) = unat (quote_stream_users c) - 1"
proof -
  have "unat (u - 1) = unat u - 1" if "u \<noteq> (0::u16)" for u
    using that by (simp add: unat_sub word_le_nat_alt unat_gt_0 Suc_le_eq)
  then show ?thesis by (auto simp: stop_quote_stream_def Let_def split: option.splits)
qed

lemma stop_keeps_task:
  "1 < unat (quote_stream_users c) \<Longrightarrow> quote_stream_task (stop_quote_stream c) = quote_stream_task c"
  "1 < unat (quote_stream_users c) \<Longrightarrow> live_tasks (stop_quote_stream c) = live_tasks c"
proof -
  assume "1 < unat (quote_stream_users c)"
  then have "quote_stream_users c \<noteq> 0" "0 < unat (quote_stream_users (stop_quote_stream c))"
    by (auto simp: stop_users)
  then have "0 < quote_stream_users c - 1"
    by (auto simp: stop_quote_stream_def Let_def word_gt_0 split: if_splits option.splits)
  then show "quote_stream_task (stop_quote_stream c) = quote_stream_task c"
    "live_tasks (stop_quote_stream c) = live_tasks c"
    using \<open>quote_stream_users c \<noteq> 0\<close> by (auto simp: stop_quote_stream_def Let_def)
qed

lemma mvc_ops_csv [simp]:
  "ticker_universe_csv (start_quote_stream ok c) = ticker_universe_csv c"
  "ticker_universe_csv (stop_quote_stream c) = ticker_universe_csv c"
  "ticker_universe_csv (stream_update p k v ts c) = ticker_universe_csv c"
  "ticker_universe_csv (stream_ends t c) = ticker_universe_csv c"
  "ticker_universe_csv (mvc_init c) = ticker_universe_csv c"
  by (auto simp: start_quote_stream_def stop_quote_stream_def stream_update_def stream_ends_def
      mvc_init_def Let_def split: option.splits)

lemma mvc_ops_users [simp]:
  "quote_stream_users (stream_update p k v ts c) = quote_stream_users c"
  "quote_stream_users (stream_ends t c) = quote_stream_users c"
  "quote_stream_users (mvc_init c) = quote_stream_users c"
  by (auto simp: stream_update_def stream_ends_def mvc_init_def Let_def)

lemma mvc_ops_task [simp]:
  "quote_stream_task (stream_update p k v ts c) = quote_stream_task c"
  "quote_stream_task (stream_ends t c) = quote_stream_task c"
  "quote_stream_task (mvc_init c) = quote_stream_task c"
  by (auto simp: stream_update_def stream_ends_def mvc_init_def Let_def)

subsection \<open>Interleaved users\<close>

text \<open>
  The tasks that call \<open>start_quote_stream\<close> and later \<open>stop_quote_stream\<close> run concurrently, each
  call under the cache's mutex, so a run is a sequence of whole calls. \<open>inside\<close> are the tasks
  between their start and their stop, numbered below \<open>n\<close>; \<open>fails\<close> allows a start to fail.
\<close>

record mvc_sys =
  shared_cache :: mark_value_cache
  inside :: "nat set"

inductive mvc_step :: "bool \<Rightarrow> nat \<Rightarrow> mvc_sys \<Rightarrow> mvc_sys \<Rightarrow> bool" for fails n where
  start: "i < n \<Longrightarrow> i \<notin> inside s \<Longrightarrow> ok \<or> fails \<Longrightarrow>
    mvc_step fails n s (s\<lparr>shared_cache := start_quote_stream ok (shared_cache s), inside := insert i (inside s)\<rparr>)"
| stop: "i \<in> inside s \<Longrightarrow>
    mvc_step fails n s (s\<lparr>shared_cache := stop_quote_stream (shared_cache s), inside := inside s - {i}\<rparr>)"
| update: "mvc_step fails n s (s\<lparr>shared_cache := stream_update p k v ts (shared_cache s)\<rparr>)"
| ends: "t \<in> live_tasks (shared_cache s) \<Longrightarrow> mvc_step fails n s (s\<lparr>shared_cache := stream_ends t (shared_cache s)\<rparr>)"

inductive mvc_reach :: "bool \<Rightarrow> nat \<Rightarrow> string \<Rightarrow> mvc_sys \<Rightarrow> bool" for fails n csv where
  init: "mvc_reach fails n csv \<lparr>shared_cache = mvc_init (mvc_new csv), inside = {}\<rparr>"
| step: "mvc_reach fails n csv s \<Longrightarrow> mvc_step fails n s s' \<Longrightarrow> mvc_reach fails n csv s'"

inductive_cases mvc_stepE: "mvc_step fails n s s'"

definition mvc_sys_inv :: "nat \<Rightarrow> string \<Rightarrow> mvc_sys \<Rightarrow> bool" where
  "mvc_sys_inv n csv s \<longleftrightarrow>
     mvc_inv (shared_cache s) \<and> inside s \<subseteq> {..<n} \<and> ticker_universe_csv (shared_cache s) = csv \<and>
     unat (quote_stream_users (shared_cache s)) \<le> card (inside s)"

lemma mvc_sys_inv_step: "mvc_step fails n s s' \<Longrightarrow> mvc_sys_inv n csv s \<Longrightarrow> mvc_sys_inv n csv s'"
proof (induction rule: mvc_step.induct)
  case (start i s ok)
  then have "finite (inside s)" by (auto simp: mvc_sys_inv_def intro: finite_subset)
  with start start_users(1) [of ok "shared_cache s"] show ?case
    by (auto simp: mvc_sys_inv_def mvc_inv_ops)
next
  case (stop i s)
  then have "finite (inside s)" by (auto simp: mvc_sys_inv_def intro: finite_subset)
  with stop show ?case
    by (auto simp: mvc_sys_inv_def mvc_inv_ops stop_users)
qed (auto simp: mvc_sys_inv_def mvc_inv_ops)

lemma mvc_reach_inv: "mvc_reach fails n csv s \<Longrightarrow> mvc_sys_inv n csv s"
proof (induction rule: mvc_reach.induct)
  case init
  show ?case by (simp add: mvc_sys_inv_def mvc_inv_ops) (simp add: mvc_init_def mvc_new_def)
qed (rule mvc_sys_inv_step)

text \<open>Without failing starts and below saturation the count is exact.\<close>

definition mvc_exact :: "mvc_sys \<Rightarrow> bool" where
  "mvc_exact s \<longleftrightarrow> unat (quote_stream_users (shared_cache s)) = card (inside s) \<and>
     (inside s \<noteq> {} \<longrightarrow> quote_stream_task (shared_cache s) \<noteq> None)"

lemma mvc_exact_step:
  assumes "mvc_step False n s s'" and "mvc_sys_inv n csv s" and "mvc_exact s"
    and "n \<le> 65535" and "csv_tickers csv \<noteq> []"
  shows "mvc_exact s'"
  using assms
proof (induction rule: mvc_step.induct)
  case (start i s ok)
  then have fin: "finite (inside s)" by (auto simp: mvc_sys_inv_def intro: finite_subset)
  have "insert i (inside s) \<subseteq> {..<n}" using start by (auto simp: mvc_sys_inv_def)
  then have "card (insert i (inside s)) \<le> 65535"
    using card_mono [of "{..<n}" "insert i (inside s)"] start by simp
  moreover have "is_quote_stream_running (start_quote_stream ok (shared_cache s))"
    using start by (intro start_running) (auto simp: mvc_sys_inv_def)
  then have "quote_stream_task (start_quote_stream ok (shared_cache s)) \<noteq> None"
    by (auto simp: is_quote_stream_running_def split: option.splits)
  ultimately show ?case
    using start fin start_users(2) [of ok "shared_cache s"] by (auto simp: mvc_exact_def mvc_sys_inv_def)
next
  case (stop i s)
  then have fin: "finite (inside s)" by (auto simp: mvc_sys_inv_def intro: finite_subset)
  have "1 < unat (quote_stream_users (shared_cache s))" if "inside s - {i} \<noteq> {}"
  proof -
    have "0 < card (inside s - {i})" using that fin by (simp add: card_gt_0_iff)
    then show ?thesis using stop fin by (simp add: mvc_exact_def)
  qed
  with stop fin show ?case by (auto simp: mvc_exact_def stop_users stop_keeps_task)
qed (auto simp: mvc_exact_def)

lemma mvc_reach_exact:
  assumes "n \<le> 65535" and "csv_tickers csv \<noteq> []"
  shows "mvc_reach False n csv s \<Longrightarrow> mvc_exact s"
proof (induction rule: mvc_reach.induct)
  case init
  show ?case by (simp add: mvc_exact_def) (simp add: mvc_init_def mvc_new_def)
next
  case (step s s')
  then show ?case using mvc_exact_step mvc_reach_inv assms by blast
qed

section \<open>Properties\<close>

text \<open>C17: However the users of the quote stream interleave, and whichever of
  their starts fail, the user count never exceeds the number of users inside, at most the stored
  task is running, and with no user left no stream is running.\<close>

theorem mvc_stream_safety:
  assumes "mvc_reach fails n csv s"
  shows "unat (quote_stream_users (shared_cache s)) \<le> card (inside s) \<and>
    live_tasks (shared_cache s) \<subseteq> set_option (quote_stream_task (shared_cache s)) \<and>
    (inside s = {} \<longrightarrow> live_tasks (shared_cache s) = {})"
proof -
  have "mvc_sys_inv n csv s" using assms by (rule mvc_reach_inv)
  then show ?thesis by (auto simp: mvc_sys_inv_def mvc_inv_def unat_eq_0)
qed

theorem mvc_stream_safety_witness:
  "\<exists>s. mvc_reach True 2 ''A'' s \<and> inside s = {0} \<and>
    unat (quote_stream_users (shared_cache s)) \<le> card (inside s)"
proof -
  let ?i = "\<lparr>shared_cache = mvc_init (mvc_new ''A''), inside = {}\<rparr>"
  let ?s = "?i\<lparr>shared_cache := start_quote_stream True (shared_cache ?i), inside := insert 0 (inside ?i)\<rparr>"
  have "mvc_step True 2 ?i ?s" by (rule mvc_step.start) auto
  then have "mvc_reach True 2 ''A'' ?s" by (rule mvc_reach.step [OF mvc_reach.init])
  moreover from mvc_stream_safety [OF this] have "unat (quote_stream_users (shared_cache ?s)) \<le> card (inside ?s)" by simp
  ultimately show ?thesis by (intro exI [of _ ?s]) auto
qed

text \<open>C18: Where every start delivers a stream and at most 65535 users can be
  inside, the count is exactly the number of users inside, and the stream's task is stored exactly
  while somebody is inside: one user's stop never takes the stream from another.\<close>

theorem mvc_refcount_exact:
  assumes "mvc_reach False n csv s" and "n \<le> 65535" and "csv_tickers csv \<noteq> []"
  shows "unat (quote_stream_users (shared_cache s)) = card (inside s) \<and>
    (quote_stream_task (shared_cache s) = None \<longleftrightarrow> inside s = {})"
proof -
  have "mvc_exact s" using mvc_reach_exact assms by blast
  moreover have "mvc_sys_inv n csv s" using assms(1) by (rule mvc_reach_inv)
  ultimately show ?thesis by (auto simp: mvc_exact_def mvc_sys_inv_def mvc_inv_def unat_eq_0)
qed

theorem mvc_refcount_exact_witness:
  "\<exists>s. mvc_reach False 2 ''A'' s \<and> inside s = {0} \<and> quote_stream_task (shared_cache s) \<noteq> None"
proof -
  let ?i = "\<lparr>shared_cache = mvc_init (mvc_new ''A''), inside = {}\<rparr>"
  let ?s = "?i\<lparr>shared_cache := start_quote_stream True (shared_cache ?i), inside := insert 0 (inside ?i)\<rparr>"
  have "csv_tickers ''A'' \<noteq> []"
    by (simp add: csv_tickers_def trim_id is_ws1_def)
  moreover have "mvc_step False 2 ?i ?s" by (rule mvc_step.start) auto
  then have "mvc_reach False 2 ''A'' ?s" by (rule mvc_reach.step [OF mvc_reach.init])
  ultimately have "quote_stream_task (shared_cache ?s) = None \<longleftrightarrow> inside ?s = {}"
    using mvc_refcount_exact [of 2 "''A''" ?s] by simp
  with \<open>mvc_reach False 2 ''A'' ?s\<close> show ?thesis by (intro exI [of _ ?s]) auto
qed

text \<open>A start that fails still ends in a stop: its user releases a
  count it never got, so a later stop can abort the running stream of a user that is still inside.\<close>

theorem mvc_failed_start_steals:
  "\<exists>s s' i. mvc_reach True 3 ''A'' s \<and> mvc_step True 3 s s' \<and> i \<in> inside s \<and>
    is_quote_stream_running (shared_cache s) \<and> inside s' = inside s - {i} \<and> inside s' \<noteq> {} \<and>
    \<not> is_quote_stream_running (shared_cache s')"
proof -
  have csv: "csv_tickers ''A'' = [''A'']" by (simp add: csv_tickers_def trim_id is_ws1_def)
  let ?start = "\<lambda>ok i s. s\<lparr>shared_cache := start_quote_stream ok (shared_cache s), inside := insert i (inside s)\<rparr>"
  let ?stop = "\<lambda>i s. s\<lparr>shared_cache := stop_quote_stream (shared_cache s), inside := inside s - {i}\<rparr>"
  define s0 where "s0 = \<lparr>shared_cache = mvc_init (mvc_new ''A''), inside = {}\<rparr>"
  define s1 where "s1 = ?start True 0 s0"
  define s2 where "s2 = s1\<lparr>shared_cache := stream_ends 0 (shared_cache s1)\<rparr>"
  define s3 where "s3 = ?start False 1 s2"
  define s4 where "s4 = ?start True 2 s3"
  define s5 where "s5 = ?stop 1 s4"
  note d = start_quote_stream_def stop_quote_stream_def stream_ends_def is_finished_def mvc_init_def mvc_new_def
    sat_add_u16_def sat_sub_u16_def csv
  have 1: "s1 = \<lparr>shared_cache = (mvc_init (mvc_new ''A''))\<lparr>quote_stream_task := Some 0, quote_stream_users := 1,
      live_tasks := {0}, next_task := 1\<rparr>, inside = {0}\<rparr>" by (simp add: s1_def s0_def d)
  have 2: "s2 = \<lparr>shared_cache = (mvc_init (mvc_new ''A''))\<lparr>quote_stream_task := Some 0, quote_stream_users := 1,
      live_tasks := {}, next_task := 1\<rparr>, inside = {0}\<rparr>" by (simp add: s2_def 1 d)
  have 3: "s3 = \<lparr>shared_cache = (mvc_init (mvc_new ''A''))\<lparr>quote_stream_task := None, quote_stream_users := 1,
      live_tasks := {}, next_task := 1\<rparr>, inside = {0, 1}\<rparr>" by (auto simp add: s3_def 2 d)
  have 4: "s4 = \<lparr>shared_cache = (mvc_init (mvc_new ''A''))\<lparr>quote_stream_task := Some 1, quote_stream_users := 2,
      live_tasks := {1}, next_task := 2\<rparr>, inside = {0, 1, 2}\<rparr>" by (auto simp add: s4_def 3 d)
  have 5: "s5 = \<lparr>shared_cache = (mvc_init (mvc_new ''A''))\<lparr>quote_stream_task := Some 1, quote_stream_users := 1,
      live_tasks := {1}, next_task := 2\<rparr>, inside = {0, 2}\<rparr>" by (auto simp add: s5_def 4 d)
  have "mvc_step True 3 s0 s1" unfolding s1_def by (rule mvc_step.start) (simp_all add: s0_def)
  moreover have "mvc_step True 3 s1 s2" unfolding s2_def by (rule mvc_step.ends) (simp add: 1)
  moreover have "mvc_step True 3 s2 s3" unfolding s3_def by (rule mvc_step.start) (simp_all add: 2)
  moreover have "mvc_step True 3 s3 s4" unfolding s4_def by (rule mvc_step.start) (simp_all add: 3)
  moreover have "mvc_step True 3 s4 s5" unfolding s5_def by (rule mvc_step.stop) (simp add: 4)
  moreover have "mvc_reach True 3 ''A'' s0" unfolding s0_def by (rule mvc_reach.init)
  ultimately have "mvc_reach True 3 ''A'' s5" by (meson mvc_reach.step)
  moreover have "mvc_step True 3 s5 (?stop 0 s5)" by (rule mvc_step.stop) (simp add: 5)
  moreover have "is_quote_stream_running (shared_cache s5)" "\<not> is_quote_stream_running (shared_cache (?stop 0 s5))"
    by (simp_all add: 5 is_quote_stream_running_def d)
  ultimately show ?thesis by (intro exI [of _ s5] exI [of _ "?stop 0 s5"] exI [of _ 0]) (auto simp: 5)
qed

end
