(* ===== verification/ServerIp.thy ===== *)
theory ServerIp
  imports RustStr
begin

text \<open>
  \<open>rqcommon/src/utils/server_ip.rs\<close>: the addresses and ports of the servers. The brokers' watcher uses the public
  address and the three ports; the others have no caller yet. \<open>os\<close> is \<open>env::consts::OS\<close>.
\<close>

definition localhost_loopback_with_ip :: string where
  "localhost_loopback_with_ip = ''127.0.0.1''"

definition localhost_meta_all_private_ip_with_ip :: string where
  "localhost_meta_all_private_ip_with_ip = ''0.0.0.0''"

definition sq_core_server_public_ip_for_clients :: string where
  "sq_core_server_public_ip_for_clients = ''34.251.1.119''"

definition health_monitor_public_ip :: "string \<Rightarrow> string" where
  "health_monitor_public_ip os = (if os = ''windows'' then ''23.20.243.199'' else ''23.20.243.199'')"

definition health_monitor_public_ipv6 :: "string \<Rightarrow> string" where
  "health_monitor_public_ipv6 os = ''::ffff:'' @ health_monitor_public_ip os"

definition default_health_monitor_server_port :: nat where "default_health_monitor_server_port = 52100"

definition ib_server_port_gyantal :: nat where "ib_server_port_gyantal = 7301"
definition ib_server_port_dcmain :: nat where "ib_server_port_dcmain = 7303"
definition ib_server_port_dcblanzac :: nat where "ib_server_port_dcblanzac = 7308"

lemmas ib_server_ports = ib_server_port_gyantal_def ib_server_port_dcmain_def ib_server_port_dcblanzac_def

text \<open>The choice by operating system makes no difference.\<close>

lemma health_monitor_everywhere: "health_monitor_public_ipv6 os = ''::ffff:23.20.243.199''"
  by (simp add: health_monitor_public_ipv6_def health_monitor_public_ip_def)

end
