(* ===== verification/Brokers.thy ===== *)
theory Brokers
  imports MarkValueCache ServerIp "HOL-Library.Multiset"
begin

text \<open>
  \<open>common/broker-common/src/\<close>: the gateways (\<open>gateway.rs\<close>) and the brokers' watcher
  (\<open>brokers_watcher.rs\<close>) that turns orders into submissions to the broker. The broker's API
  crate is a parameter: \<open>ib_api\<close> answers a submission (given all the earlier ones), a request for
  one real-time bar and a request for executions; a client handle is a value of the type \<open>'c\<close>.
  \<open>submissions\<close> is what was handed to \<open>submit()\<close>, acknowledged or not. The user log is the list of
  its lines, one constructor for each \<open>writeln!\<close> of the program.
\<close>

section \<open>Data\<close>

datatype broker_client = DcMain | DcBlanzac | Gyantal

datatype rq_order_type = Buy | Sell

fun show_order_type :: "rq_order_type \<Rightarrow> string" where
  "show_order_type Buy = ''BUY''"
| "show_order_type Sell = ''SELL''"

record rq_order =
  order_type :: rq_order_type
  ticker :: string
  company_name :: string
  pos_market_value :: f64
  known_last_price :: "f64 option"

datatype log_line =
    LogDates date date bool date date bool f64 f64 f64
  | LogNoPermission
  | LogCaptcha
  | LogFound nat nat
  | LogNoEvents string
  | LogTooManyEvents string nat
  | LogTaskStarted string string bool
  | LogMarkCache string f64 instant
  | LogNoPrice rq_order_type string string
  | LogZeroSize rq_order_type string string f64 i32
  | LogBeforeOrder rq_order_type string string f64 i32

record 'c submission =
  sub_client :: 'c
  sub_type :: rq_order_type
  sub_ticker :: string
  sub_shares :: i32
  sub_limit :: f64

text \<open>One request for a real-time bar: it fails, delivers nothing for ever, ends, errs, or closes.\<close>

datatype bar_outcome = BarRequestFailed | BarNever | BarEnd | BarError | BarClose f64

datatype ('e, 'r) exec_item = ExecutionData 'e | CommissionReport 'r | Notice | EndOfStream | StreamError

record ('c, 'e, 'r) ib_api =
  ib_connect :: "string \<Rightarrow> int \<Rightarrow> 'c option"
  ib_submit :: "'c submission list \<Rightarrow> 'c submission \<Rightarrow> int option"
  ib_realtime_bar :: "'c \<Rightarrow> string \<Rightarrow> bar_outcome"
  ib_executions :: "'c \<Rightarrow> ('e, 'r) exec_item list option"

record 'c trade_io =
  submissions :: "'c submission list"
  user_log :: "log_line list"

definition log_io :: "log_line \<Rightarrow> 'c trade_io \<Rightarrow> 'c trade_io" where
  "log_io l io = io\<lparr>user_log := user_log io @ [l]\<rparr>"

section \<open>Gateways\<close>

record 'c gateway =
  connection_url :: string
  client_id :: int
  ib_client :: "'c option"

definition gateway_new :: "string \<Rightarrow> int \<Rightarrow> 'c gateway" where
  "gateway_new url cid = \<lparr>connection_url = url, client_id = cid, ib_client = None\<rparr>"

definition gateway_init :: "('c, 'e, 'r) ib_api \<Rightarrow> 'c gateway \<Rightarrow> 'c gateway" where
  "gateway_init api g =
     (case ib_connect api (connection_url g) (client_id g) of
        Some client \<Rightarrow> g\<lparr>ib_client := Some client\<rparr>
      | None \<Rightarrow> g)"

definition gateway_exit :: "'c gateway \<Rightarrow> 'c gateway" where
  "gateway_exit g = g\<lparr>ib_client := None\<rparr>"

type_synonym 'c gateways = "broker_client \<rightharpoonup> 'c gateway"

text \<open>\<open>env::consts::OS == "windows"\<close> and the variable \<open>USERDOMAIN\<close>.\<close>

definition gateway_client_id :: "bool \<Rightarrow> string option \<Rightarrow> int outcome" where
  "gateway_client_id windows userdomain =
     (if windows then
        bind_out (expect userdomain ''Failed to get USERDOMAIN environment variable'') (\<lambda>u.
          if u = ''GYANTAL-PC'' then Inr 210
          else if u = ''GYANTAL-LAPTOP'' then Inr 211
          else if u = ''BALAZS-PC'' then Inr 212
          else if u = ''BALAZS-LAPTOP'' then Inr 213
          else if u = ''DAYA-DESKTOP'' then Inr 214
          else if u = ''DAYA-LAPTOP'' then Inr 215
          else if u = ''DRCHARMAT-LAPTOP'' then Inr 216
          else Inl (Panic ''Windows user name is not recognized. Add your username and folder here!''))
      else Inr 200)"

definition ib_server_port :: "broker_client \<Rightarrow> nat" where
  "ib_server_port b = (case b of Gyantal \<Rightarrow> ib_server_port_gyantal | DcMain \<Rightarrow> ib_server_port_dcmain
     | DcBlanzac \<Rightarrow> ib_server_port_dcblanzac)"

definition connection_url_of :: "broker_client \<Rightarrow> string" where
  "connection_url_of b = sq_core_server_public_ip_for_clients @ '':'' @ show_nat (ib_server_port b)"

definition brokers_init ::
  "('c, 'e, 'r) ib_api \<Rightarrow> bool \<Rightarrow> string option \<Rightarrow> mark_value_cache \<Rightarrow> 'c gateways
    \<Rightarrow> unit outcome \<times> mark_value_cache \<times> 'c gateways" where
  "brokers_init api windows userdomain cache gws =
     (let cache = mvc_init cache
      in case gateway_client_id windows userdomain of
           Inl e \<Rightarrow> (Inl e, cache, gws)
         | Inr cid \<Rightarrow>
             (let gw = (\<lambda>b. gateway_init api (gateway_new (connection_url_of b) cid))
              in (Inr (), cache,
                  gws(DcMain \<mapsto> gw DcMain, DcBlanzac \<mapsto> gw DcBlanzac, Gyantal \<mapsto> gw Gyantal))))"

text \<open>\<open>exit\<close> exits the gateways one by one (the handles that are left unconnected) and clears the map.\<close>

definition exit_gateways :: "'c gateways \<Rightarrow> 'c gateways" where
  "exit_gateways gws = (\<lambda>b. map_option gateway_exit (gws b))"

definition brokers_exit :: "'c gateways \<Rightarrow> 'c gateways \<times> 'c gateways" where
  "brokers_exit gws = (exit_gateways gws, Map.empty)"

section \<open>Executions\<close>

fun read_executions :: "('e, 'r) exec_item list \<Rightarrow> 'e list \<Rightarrow> 'r list \<Rightarrow> 'e list \<times> 'r list" where
  "read_executions [] es rs = (es, rs)"
| "read_executions (ExecutionData e # items) es rs = read_executions items (es @ [e]) rs"
| "read_executions (CommissionReport r # items) es rs = read_executions items es (rs @ [r])"
| "read_executions (Notice # items) es rs = read_executions items es rs"
| "read_executions (EndOfStream # items) es rs = (es, rs)"
| "read_executions (StreamError # items) es rs = (es, rs)"

definition get_order_executions ::
  "('c, 'e, 'r) ib_api \<Rightarrow> 'c gateways \<Rightarrow> broker_client \<Rightarrow> 'e list \<times> 'r list" where
  "get_order_executions api gws b =
     (case gws b of None \<Rightarrow> ([], [])
      | Some gateway \<Rightarrow> (case ib_client gateway of None \<Rightarrow> ([], [])
        | Some client \<Rightarrow> (case ib_executions api client of None \<Rightarrow> ([], [])
          | Some items \<Rightarrow> read_executions items [] [])))"

section \<open>Orders\<close>

text \<open>The close of the first real-time bar; a NaN if the subscription ends or errs first.\<close>

definition first_bar_price :: "('c, 'e, 'r) ib_api \<Rightarrow> 'c \<Rightarrow> string \<Rightarrow> f64 outcome" where
  "first_bar_price api dcmain tick =
     (case ib_realtime_bar api dcmain tick of
        BarRequestFailed \<Rightarrow> Inl (Panic ''realtime bars request failed!'')
      | BarNever \<Rightarrow> Inl Hang
      | BarEnd \<Rightarrow> Inr F64_NaN
      | BarError \<Rightarrow> Inr F64_NaN
      | BarClose c \<Rightarrow> Inr c)"

definition get_knownlast_or_ib_price ::
  "('c, 'e, 'r) ib_api \<Rightarrow> 'c \<Rightarrow> string \<Rightarrow> f64 option \<Rightarrow> f64 outcome" where
  "get_knownlast_or_ib_price api dcmain tick known =
     (case known of
        Some price \<Rightarrow> if \<not> f64_is_nan price then Inr price else first_bar_price api dcmain tick
      | None \<Rightarrow> first_bar_price api dcmain tick)"

text \<open>\<open>(price * factor * 100.0).round() / 100.0\<close>\<close>

definition limit_price :: "f64 \<Rightarrow> f64 \<Rightarrow> f64" where
  "limit_price factor price =
     f64_round_half_away (price * factor * F64_Fin 100) / F64_Fin 100"

definition order_limit :: "rq_order_type \<Rightarrow> f64 \<Rightarrow> f64" where
  "order_limit ty price =
     (case ty of Buy \<Rightarrow> limit_price (f64_lit (1021/1000)) price
      | Sell \<Rightarrow> limit_price (f64_lit (979/1000)) price)"

definition place_order ::
  "('c, 'e, 'r) ib_api \<Rightarrow> bool \<Rightarrow> 'c \<Rightarrow> 'c \<Rightarrow> rq_order \<Rightarrow> f64 \<Rightarrow> 'c trade_io \<Rightarrow> unit outcome \<times> 'c trade_io" where
  "place_order api is_simulation gyantal dcmain order price io =
     (if f64_is_nan price then
        (Inr (), log_io (LogNoPrice (order_type order) (ticker order) (company_name order)) io)
      else
        (let num_shares = floor_quot_i32 (pos_market_value order) price
         in if sint num_shares \<le> 0 then
              (Inr (), log_io (LogZeroSize (order_type order) (ticker order) (company_name order) price num_shares) io)
            else
              (let io = log_io (LogBeforeOrder (order_type order) (ticker order) (company_name order) price num_shares) io
               in if is_simulation then (Inr (), io)
                  else
                    (let sub = \<lparr>sub_client = gyantal, sub_type = order_type order, sub_ticker = ticker order,
                          sub_shares = num_shares, sub_limit = order_limit (order_type order) price\<rparr>;
                         io' = io\<lparr>submissions := submissions io @ [sub]\<rparr>
                     in case ib_submit api (submissions io) sub of
                          None \<Rightarrow> (Inl (Panic ''order submission failed!''), io')
                        | Some order_id \<Rightarrow> (Inr (), io')))))"

text \<open>The prices of the cache that are no NaN, by ticker, with a log line for each order.\<close>

fun cached_prices ::
  "(string \<times> f64 \<times> instant) list \<Rightarrow> (string \<rightharpoonup> f64) \<Rightarrow> 'c trade_io \<Rightarrow> (string \<rightharpoonup> f64) \<times> 'c trade_io" where
  "cached_prices [] m io = (m, io)"
| "cached_prices ((t, v, ts) # qs) m io =
     (let io = log_io (LogMarkCache t v ts) io
      in cached_prices qs (if f64_is_nan v then m else m(t \<mapsto> v)) io)"

text \<open>The first loop trades at the cached prices and collects the other orders.\<close>

fun place_known ::
  "('c, 'e, 'r) ib_api \<Rightarrow> bool \<Rightarrow> 'c \<Rightarrow> 'c \<Rightarrow> (string \<rightharpoonup> f64) \<Rightarrow> rq_order list \<Rightarrow> rq_order list
    \<Rightarrow> 'c trade_io \<Rightarrow> rq_order list outcome \<times> 'c trade_io" where
  "place_known api sim gy dc prices [] unknown io = (Inr unknown, io)"
| "place_known api sim gy dc prices (order # orders) unknown io =
     (case prices (ticker order) of
        Some price \<Rightarrow>
          (case place_order api sim gy dc order price io of
             (Inl e, io) \<Rightarrow> (Inl e, io)
           | (Inr _, io) \<Rightarrow> place_known api sim gy dc prices orders unknown io)
      | None \<Rightarrow> place_known api sim gy dc prices orders (unknown @ [order]) io)"

fun place_unknown ::
  "('c, 'e, 'r) ib_api \<Rightarrow> bool \<Rightarrow> 'c \<Rightarrow> 'c \<Rightarrow> rq_order list \<Rightarrow> 'c trade_io \<Rightarrow> unit outcome \<times> 'c trade_io" where
  "place_unknown api sim gy dc [] io = (Inr (), io)"
| "place_unknown api sim gy dc (order # orders) io =
     (case get_knownlast_or_ib_price api dc (ticker order) (known_last_price order) of
        Inl e \<Rightarrow> (Inl e, io)
      | Inr price \<Rightarrow>
          (case place_order api sim gy dc order price io of
             (Inl e, io) \<Rightarrow> (Inl e, io)
           | (Inr _, io) \<Rightarrow> place_unknown api sim gy dc orders io))"

definition gateway_client :: "'c gateways \<Rightarrow> broker_client \<Rightarrow> 'c option" where
  "gateway_client gws b = Option.bind (gws b) ib_client"

definition place_orders ::
  "('c, 'e, 'r) ib_api \<Rightarrow> 'c gateways \<Rightarrow> mark_value_cache \<Rightarrow> rq_order list \<Rightarrow> bool \<Rightarrow> 'c trade_io
    \<Rightarrow> unit outcome \<times> 'c trade_io" where
  "place_orders api gws cache orders is_simulation io =
     (if orders = [] then (Inr (), io)
      else
        (let (prices, io) = cached_prices (get_mark_timevalues cache (map ticker orders)) Map.empty io
         in case gateway_client gws Gyantal of
              None \<Rightarrow> (Inr (), io)
            | Some gy \<Rightarrow>
                (case gateway_client gws DcMain of
                   None \<Rightarrow> (Inr (), io)
                 | Some dc \<Rightarrow>
                     (case place_known api is_simulation gy dc prices orders [] io of
                        (Inl e, io) \<Rightarrow> (Inl e, io)
                      | (Inr unknown, io) \<Rightarrow> place_unknown api is_simulation gy dc unknown io))))"

section \<open>A broker that answers\<close>

text \<open>Every request for a real-time bar fails, ends, errs or delivers one: then a placement ends.\<close>

definition answering_api :: "('c, 'e, 'r) ib_api \<Rightarrow> bool" where
  "answering_api api \<longleftrightarrow> (\<forall>dc tick. ib_realtime_bar api dc tick \<noteq> BarNever)"

lemma first_bar_ends [ends_intros]: "answering_api api \<Longrightarrow> ends (first_bar_price api dc tick)"
  by (auto simp: first_bar_price_def answering_api_def split: bar_outcome.split)

lemma place_order_ends: "ends (fst (place_order api sim gy dc od price io))"
  by (simp add: place_order_def Let_def split: option.split)

lemma place_known_ends: "ends (fst (place_known api sim gy dc prices ods unknown io))"
proof (induction ods arbitrary: unknown io)
  case (Cons od ods)
  then show ?case using place_order_ends [of api sim gy dc od _ io]
    by (simp split: prod.split sum.split option.split) (metis ends_InlD fst_conv)
qed simp

lemma place_unknown_ends:
  assumes "answering_api api" shows "ends (fst (place_unknown api sim gy dc ods io))"
proof (induction ods arbitrary: io)
  case (Cons od ods)
  have "ends (get_knownlast_or_ib_price api dc (ticker od) (known_last_price od))"
    using first_bar_ends [OF assms] by (simp add: get_knownlast_or_ib_price_def split: option.split)
  with Cons.IH place_order_ends [of api sim gy dc od _ io] show ?case
    by (simp split: prod.split sum.split) (metis ends_InlD fst_conv)
qed simp

lemma place_orders_ends:
  assumes "answering_api api" shows "ends (fst (place_orders api gws cache ods sim io))"
proof -
  have "ends (fst (case place_known api sim gy dc prices ods [] io1 of (Inl e, io) \<Rightarrow> (Inl e, io)
      | (Inr unknown, io) \<Rightarrow> place_unknown api sim gy dc unknown io))" for gy dc prices io1
    using place_known_ends [of api sim gy dc prices ods "[]" io1] place_unknown_ends [OF assms]
    by (auto split: prod.split sum.split)
  then show ?thesis by (simp add: place_orders_def Let_def split: prod.split option.split)
qed

section \<open>Limit prices\<close>

lemma rnd_close_step:
  assumes "rnd_close x y" and "L \<le> x" and "x \<le> U"
  shows "L * (1 - eps64) \<le> y" and "y \<le> U * (1 + eps64)"
proof -
  have "L * (1 - eps64) \<le> x * (1 - eps64)" using assms eps64_bounds by (intro mult_right_mono) auto
  then show "L * (1 - eps64) \<le> y" using assms(1) by (simp add: rnd_close_def)
  have "x * (1 + eps64) \<le> U * (1 + eps64)" using assms eps64_bounds by (intro mult_right_mono) auto
  then show "y \<le> U * (1 + eps64)" using assms(1) by (simp add: rnd_close_def)
qed

text \<open>A crude consequence for the range conditions.\<close>

lemma rnd_close_half_double:
  assumes "rnd_close x y" and "0 < x" shows "x / 2 \<le> y" and "y \<le> 2 * x"
proof -
  have "x * (1/2) \<le> x * (1 - eps64)" "x * (1 + eps64) \<le> x * 2"
    using assms(2) eps64_bounds by (auto intro!: mult_left_mono)
  then show "x / 2 \<le> y" "y \<le> 2 * x" using assms(1) by (auto simp: rnd_close_def)
qed

text \<open>The four roundings of a limit price against the exact value \<open>P\<close>.\<close>

lemma limit_chain:
  assumes "0 \<le> P" and "rnd_close c c'" and "P = p * c" and "0 < p"
    and "rnd_close (p * c') x" and "rnd_close (x * 100) y"
    and "y - 1/2 \<le> k" and "k \<le> y + 1/2" and "rnd_close (k / 100) l"
  shows "l \<le> P * (1 + eps64) ^ 4 + (1 + eps64) / 200"
    and "P * (1 - eps64) ^ 4 - (1 + eps64) / 200 \<le> l"
proof -
  have "P * (1 - eps64) \<le> p * c'" "p * c' \<le> P * (1 + eps64)"
    using assms(2-4) by (auto simp: rnd_close_def mult.assoc intro!: mult_left_mono)
  note 1 = rnd_close_step [OF assms(5) this]
  then have "P * (1 - eps64) ^ 2 \<le> x" "x \<le> P * (1 + eps64) ^ 2"
    by (simp_all add: power2_eq_square mult.assoc)
  then have "P * (1 - eps64) ^ 2 * 100 \<le> x * 100" "x * 100 \<le> P * (1 + eps64) ^ 2 * 100"
    by (auto intro: mult_right_mono)
  note 2 = rnd_close_step [OF assms(6) this]
  then have "P * (1 - eps64) ^ 3 - 1/200 \<le> k / 100" "k / 100 \<le> P * (1 + eps64) ^ 3 + 1/200"
    using assms(7,8) by (simp_all add: power3_eq_cube power2_eq_square)
  note 3 = rnd_close_step [OF assms(9) this]
  have "(P * (1 + eps64) ^ 3 + 1/200) * (1 + eps64) = P * (1 + eps64) ^ 4 + (1 + eps64) / 200"
    by (simp add: power_numeral_reduce algebra_simps)
  with 3 show "l \<le> P * (1 + eps64) ^ 4 + (1 + eps64) / 200" by linarith
  have "(P * (1 - eps64) ^ 3 - 1/200) * (1 - eps64) = P * (1 - eps64) ^ 4 - (1 - eps64) / 200"
    by (simp add: power_numeral_reduce algebra_simps)
  with 3 have "P * (1 - eps64) ^ 4 - (1 - eps64) / 200 \<le> l" by simp
  moreover have "(1 - eps64) / 200 \<le> (1 + eps64) / 200" using eps64_bounds by simp
  ultimately show "P * (1 - eps64) ^ 4 - (1 + eps64) / 200 \<le> l"
    by (rule order_trans [OF diff_left_mono, rotated])
qed

definition limit_tol :: rat where "limit_tol = 1 / 1000000000"

lemma eps64_pow4: "(1 + eps64) ^ 4 \<le> 1 + limit_tol" "1 - limit_tol \<le> (1 - eps64) ^ 4"
  by (simp_all add: eps64_def limit_tol_def power_divide)

lemma limit_price_bounds:
  fixes c p :: rat
  assumes c: "1/2 \<le> c" "c \<le> 2" and p: "1 \<le> p" "p \<le> 10 ^ 12"
  shows "\<exists>l. limit_price (f64_lit c) (F64_Fin p) = F64_Fin l \<and>
    l \<le> p * c * (1 + limit_tol) + 51/10000 \<and> p * c * (1 - limit_tol) - 51/10000 \<le> l"
proof -
  define B :: rat where "B = 2 ^ 200"
  have B: "100000000000000000000 \<le> B" by (simp add: B_def)
  note normal = f64_round_normal [folded B_def]
  define P where "P = p * c"
  have P: "1 / 2 \<le> P" "P \<le> 2000000000000"
    using mult_mono [OF p(1) c(1)] mult_mono [OF p(2) c(2)] p c by (auto simp: P_def)
  define c' where "c' = rnd c"
  have c': "f64_lit c = F64_Fin c'" "0 < c'" and cc: "rnd_close c c'"
    using c B normal [of c] rnd_close_rnd [of c] by (auto simp: f64_lit_def c'_def)
  define a where "a = p * c'"
  have "p * (c / 2) \<le> a" "a \<le> p * (2 * c)"
    unfolding a_def using rnd_close_half_double [OF cc] c p by (auto intro!: mult_left_mono)
  then have a: "P / 2 \<le> a" "a \<le> 2 * P" by (simp_all add: P_def)
  then have a': "1 / 1024 \<le> a" "a \<le> B" using P B by linarith+
  define x where "x = rnd a"
  have ax: "rnd_close a x" "f64_mul (F64_Fin p) (F64_Fin c') = F64_Fin x" "0 < x"
    using rnd_close_rnd [OF a'(1)] normal [OF a'] p c' by (auto simp: x_def a_def f64_mul_Fin)
  have x: "P / 4 \<le> x" "x \<le> 4 * P" using rnd_close_half_double [OF ax(1)] a P by auto
  then have x': "1 / 1024 \<le> x * 100" "x * 100 \<le> B" using P B by linarith+
  define y where "y = rnd (x * 100)"
  have xy: "rnd_close (x * 100) y" "f64_mul (F64_Fin x) (F64_Fin 100) = F64_Fin y" "0 < y"
    using rnd_close_rnd [OF x'(1)] normal [OF x'] ax by (auto simp: y_def f64_mul_Fin)
  have y: "12 * P \<le> y" "y \<le> 800 * P" using rnd_close_half_double [OF xy(1)] x P by auto
  define k where "k = round_away y"
  have k: "y - 1/2 \<le> of_int k" "of_int k \<le> y + 1/2"
    using round_away_bounds [of y] xy(3) by (auto simp: k_def)
  have k': "1 / 1024 \<le> of_int k / (100::rat)" "of_int k / (100::rat) \<le> B"
    using k y P B by linarith+
  then have kp: "0 < k" by (simp add: field_simps)
  define l where "l = rnd (of_int k / 100)"
  have kl: "rnd_close (of_int k / 100) l" "f64_div (F64_Fin (of_int k)) (F64_Fin 100) = F64_Fin l"
    using rnd_close_rnd [OF k'(1)] normal [OF k'] kp by (auto simp: l_def f64_div_Fin)
  have "limit_price (f64_lit c) (F64_Fin p) = F64_Fin l"
    using kp by (simp add: limit_price_def c' ax(2) xy(2) k_def [symmetric] kl(2))
  moreover have "0 \<le> P" "0 < p" using P p by auto
  note limit_chain [OF this(1) cc P_def this(2) ax(1) [unfolded a_def] xy(1) k kl(1)]
  moreover have "P * (1 + eps64) ^ 4 \<le> P * (1 + limit_tol)" "P * (1 - limit_tol) \<le> P * (1 - eps64) ^ 4"
    using P eps64_pow4 by (auto intro!: mult_left_mono)
  moreover have "(1 + eps64) / 200 \<le> 51/10000" using eps64_bounds by simp
  ultimately show ?thesis unfolding P_def by (intro exI [of _ l]) linarith
qed

text \<open>A limit is infinite or the double nearest to a whole number of cents.\<close>

definition whole_cents :: "f64 \<Rightarrow> bool" where
  "whole_cents l \<longleftrightarrow> (\<exists>s. l = F64_Inf s) \<or> (\<exists>s k. l = f64_round s (of_int k / 100))"

lemma f64_mul_number:
  assumes "\<not> f64_is_nan a" and "b \<noteq> 0"
  shows "\<not> f64_is_nan (a * F64_Fin b)"
proof -
  have "\<not> f64_is_nan (f64_round s x)" for s x by (simp add: f64_round_def f64_zero_def Let_def)
  with assms show ?thesis by (cases a) (simp_all add: f64_mul_def Let_def)
qed

lemma f64_lit_factor: "1/2 \<le> c \<Longrightarrow> c \<le> 2 \<Longrightarrow> \<exists>x > 0. f64_lit c = F64_Fin x"
proof -
  assume c: "1/2 \<le> c" "c \<le> 2"
  have "(2::rat) \<le> 2 ^ 200" by simp
  then have "c \<le> 2 ^ 200" using c(2) by linarith
  then have "f64_lit c = F64_Fin (rnd c) \<and> 0 < rnd c" using c(1) f64_round_normal [of c] by (simp add: f64_lit_def)
  then show ?thesis by blast
qed

lemma order_limit_type:
  assumes "\<not> f64_is_nan p"
  shows "f64_wf (order_limit ty p)" and "whole_cents (order_limit ty p)"
proof -
  have "f64_wf (limit_price c p)" for c unfolding limit_price_def by (rule f64_wf_div)
  then show "f64_wf (order_limit ty p)" by (simp add: order_limit_def split: rq_order_type.split)
  have "whole_cents (limit_price (f64_lit c) p)" if c: "1/2 \<le> c" "c \<le> 2" for c
  proof -
    obtain x where x: "0 < x" "f64_lit c = F64_Fin x" using f64_lit_factor [OF c] by blast
    let ?v = "p * F64_Fin x * F64_Fin 100"
    have "\<not> f64_is_nan ?v" using assms x(1) by (intro f64_mul_number) simp_all
    then have "whole_cents (f64_round_half_away ?v / F64_Fin 100)"
    proof (cases ?v)
      case F64_NegZero
      then show ?thesis by (auto simp: whole_cents_def f64_div_def intro!: exI [of _ 0])
    next
      case (F64_Fin y)
      then have "f64_round_half_away ?v / F64_Fin 100 =
          f64_round (if round_away y = 0 then y < 0 else round_away y < 0) (of_int (round_away y) / 100)"
        by (simp add: f64_div_def f64_zero_def Let_def)
      then show ?thesis unfolding whole_cents_def by blast
    qed (auto simp: whole_cents_def f64_div_def)
    then show ?thesis by (simp add: limit_price_def x(2))
  qed
  then show "whole_cents (order_limit ty p)" by (simp add: order_limit_def split: rq_order_type.split)
qed

section \<open>What a placement submits\<close>

text \<open>
  The specification: the submission of one priced order, and the plan of a placement, the orders
  with a cached price first, then the others with their last known or streamed price.
\<close>

definition order_submission :: "'c \<Rightarrow> rq_order \<Rightarrow> f64 \<Rightarrow> 'c submission option" where
  "order_submission gy od p =
     (if f64_is_nan p \<or> sint (floor_quot_i32 (pos_market_value od) p) \<le> 0 then None
      else Some \<lparr>sub_client = gy, sub_type = order_type od, sub_ticker = ticker od,
        sub_shares = floor_quot_i32 (pos_market_value od) p, sub_limit = order_limit (order_type od) p\<rparr>)"

definition order_plan ::
  "('c, 'e, 'r) ib_api \<Rightarrow> 'c \<Rightarrow> (string \<rightharpoonup> f64) \<Rightarrow> rq_order list \<Rightarrow> (rq_order \<times> f64 outcome) list" where
  "order_plan api dc prices orders =
     map (\<lambda>od. (od, Inr (the (prices (ticker od))))) (filter (\<lambda>od. prices (ticker od) \<noteq> None) orders) @
     map (\<lambda>od. (od, get_knownlast_or_ib_price api dc (ticker od) (known_last_price od)))
       (filter (\<lambda>od. prices (ticker od) = None) orders)"

definition plan_submissions :: "'c \<Rightarrow> (rq_order \<times> f64 outcome) list \<Rightarrow> 'c submission list" where
  "plan_submissions gy plan =
     List.map_filter (\<lambda>(od, r). case r of Inl _ \<Rightarrow> None | Inr p \<Rightarrow> order_submission gy od p) plan"

fun run_plan ::
  "('c, 'e, 'r) ib_api \<Rightarrow> bool \<Rightarrow> 'c \<Rightarrow> 'c \<Rightarrow> (rq_order \<times> f64 outcome) list \<Rightarrow> 'c trade_io
    \<Rightarrow> unit outcome \<times> 'c trade_io" where
  "run_plan api sim gy dc [] io = (Inr (), io)"
| "run_plan api sim gy dc ((od, Inl e) # plan) io = (Inl e, io)"
| "run_plan api sim gy dc ((od, Inr p) # plan) io =
     (case place_order api sim gy dc od p io of
        (Inl e, io) \<Rightarrow> (Inl e, io)
      | (Inr _, io) \<Rightarrow> run_plan api sim gy dc plan io)"

lemma log_io_submissions [simp]: "submissions (log_io l io) = submissions io"
  by (simp add: log_io_def)

lemma submissions_log_upd [simp]: "submissions (io\<lparr>user_log := l\<rparr>) = submissions io"
  by simp

lemma place_order_submissions:
  assumes "place_order api sim gy dc od p io = (r, io')"
  shows "submissions io' = submissions io @
    (if sim then [] else case order_submission gy od p of None \<Rightarrow> [] | Some s \<Rightarrow> [s])"
  using assms
  by (auto simp: place_order_def order_submission_def Let_def split: if_splits option.splits)

lemma place_order_Inr:
  "fst (place_order api sim gy dc od p io) = Inr () \<longleftrightarrow>
     (sim \<or> (case order_submission gy od p of None \<Rightarrow> True
        | Some s \<Rightarrow> ib_submit api (submissions io) s \<noteq> None))"
  by (auto simp: place_order_def order_submission_def Let_def split: option.splits)

lemma place_unknown_plan:
  "place_unknown api sim gy dc orders io =
     run_plan api sim gy dc
       (map (\<lambda>od. (od, get_knownlast_or_ib_price api dc (ticker od) (known_last_price od))) orders) io"
proof (induction orders arbitrary: io)
  case (Cons od orders)
  then show ?case
    by (cases "get_knownlast_or_ib_price api dc (ticker od) (known_last_price od)")
      (auto split: prod.splits sum.splits)
qed simp

lemma run_plan_append:
  "run_plan api sim gy dc (ps @ qs) io =
     (case run_plan api sim gy dc ps io of
        (Inl e, io) \<Rightarrow> (Inl e, io) | (Inr _, io) \<Rightarrow> run_plan api sim gy dc qs io)"
proof (induction ps arbitrary: io)
  case (Cons q ps)
  obtain od r where "q = (od, r)" by fastforce
  with Cons show ?case by (cases r) (auto split: prod.splits sum.splits)
qed simp

lemma place_known_plan:
  "place_known api sim gy dc prices orders unknown io =
     (case run_plan api sim gy dc (map (\<lambda>od. (od, Inr (the (prices (ticker od)))))
         (filter (\<lambda>od. prices (ticker od) \<noteq> None) orders)) io of
        (Inl e, io) \<Rightarrow> (Inl e, io)
      | (Inr _, io) \<Rightarrow> (Inr (unknown @ filter (\<lambda>od. prices (ticker od) = None) orders), io))"
proof (induction orders arbitrary: unknown io)
  case (Cons od orders)
  then show ?case by (cases "prices (ticker od)") (auto split: prod.splits sum.splits)
qed simp

lemma place_loops_plan:
  "(case place_known api sim gy dc prices orders [] io of
      (Inl e, io) \<Rightarrow> (Inl e, io)
    | (Inr unknown, io) \<Rightarrow> place_unknown api sim gy dc unknown io) =
   run_plan api sim gy dc (order_plan api dc prices orders) io"
  by (auto simp: place_known_plan place_unknown_plan order_plan_def run_plan_append
      split: prod.splits sum.splits)

lemma run_plan_submissions:
  assumes "run_plan api sim gy dc plan io = (r, io')"
  shows "\<exists>k \<le> length plan.
    submissions io' = submissions io @ (if sim then [] else plan_submissions gy (take k plan)) \<and>
    (r = Inr () \<longrightarrow> k = length plan \<and> (\<forall>(od, q) \<in> set plan. \<not> isl q))"
  using assms
proof (induction plan arbitrary: io)
  case Nil
  then show ?case by (auto simp: plan_submissions_def)
next
  case (Cons q plan)
  obtain od s where q: "q = (od, s)" by fastforce
  show ?case
  proof (cases s)
    case (Inl e)
    with Cons.prems q show ?thesis by (intro exI [of _ 0]) (auto simp: plan_submissions_def)
  next
    case (Inr p)
    obtain r1 io1 where 1: "place_order api sim gy dc od p io = (r1, io1)" by fastforce
    note sub1 = place_order_submissions [OF 1]
    show ?thesis
    proof (cases r1)
      case (Inl e)
      with Cons.prems q Inr 1 sub1 show ?thesis
        by (intro exI [of _ 1]) (auto simp: plan_submissions_def List.map_filter_def split: option.splits)
    next
      case r1: (Inr u)
      with Cons.prems q Inr 1 have "run_plan api sim gy dc plan io1 = (r, io')" by simp
      from Cons.IH [OF this] obtain k where k: "k \<le> length plan"
        "submissions io' = submissions io1 @ (if sim then [] else plan_submissions gy (take k plan))"
        "r = Inr () \<Longrightarrow> k = length plan \<and> (\<forall>(od, q) \<in> set plan. \<not> isl q)" by blast
      then show ?thesis
        using sub1 q Inr
        by (intro exI [of _ "Suc k"]) (auto simp: plan_submissions_def List.map_filter_def split: option.splits)
    qed
  qed
qed

lemma cached_prices_submissions:
  "cached_prices qs m io = (m', io') \<Longrightarrow> submissions io' = submissions io"
proof (induction qs arbitrary: m io)
  case (Cons q qs)
  obtain t v ts where "q = (t, v, ts)" by (cases q)
  with Cons.prems Cons.IH [of _ "log_io (LogMarkCache t v ts) io"] show ?case
    by (auto simp: Let_def)
qed simp

lemma cached_prices_map:
  "fst (cached_prices qs m io) =
     insert_all (List.map_filter (\<lambda>(t, v, _). if f64_is_nan v then None else Some (t, v)) qs) m"
proof (induction qs arbitrary: m io)
  case (Cons q qs)
  obtain t v ts where "q = (t, v, ts)" by (cases q)
  with Cons.IH show ?case by (auto simp: List.map_filter_def Let_def)
qed (simp add: List.map_filter_def)

text \<open>The price map of a placement: the cache's valid quotes of the ordered tickers.\<close>

definition order_prices :: "mark_value_cache \<Rightarrow> rq_order list \<Rightarrow> string \<rightharpoonup> f64" where
  "order_prices cache orders t =
     (if t \<in> ticker ` set orders \<and> \<not> f64_is_nan (get_mark_value cache t)
      then Some (get_mark_value cache t) else None)"

lemma cached_prices_orders:
  "fst (cached_prices (get_mark_timevalues cache (map ticker orders)) Map.empty io) =
     order_prices cache orders"
proof -
  have "insert_all (List.map_filter (\<lambda>(t, v, _). if f64_is_nan v then None else Some (t, v))
      (get_mark_timevalues cache ts)) m =
    (\<lambda>t. if t \<in> set ts \<and> \<not> f64_is_nan (get_mark_value cache t) then Some (get_mark_value cache t) else m t)"
    for ts m
    by (induction ts arbitrary: m)
      (auto simp: get_mark_timevalues_def List.map_filter_def get_mark_value_fst fun_eq_iff split: prod.splits)
  then show ?thesis by (auto simp: cached_prices_map order_prices_def fun_eq_iff)
qed

text \<open>A placement is the run of its plan, after the log lines of the cache.\<close>

lemma place_orders_run:
  assumes "orders \<noteq> []" and "gateway_client gws Gyantal = Some gy" and "gateway_client gws DcMain = Some dc"
  shows "\<exists>io0. submissions io0 = submissions io \<and>
    place_orders api gws cache orders sim io =
      run_plan api sim gy dc (order_plan api dc (order_prices cache orders) orders) io0"
proof -
  obtain m io0 where 0: "cached_prices (get_mark_timevalues cache (map ticker orders)) Map.empty io = (m, io0)"
    by fastforce
  then have "m = order_prices cache orders" using cached_prices_orders [of cache orders io] by simp
  with 0 assms show ?thesis
    by (intro exI [of _ io0])
      (auto simp: place_orders_def place_loops_plan [symmetric] dest: cached_prices_submissions)
qed

lemma place_orders_no_client:
  assumes "orders = [] \<or> gateway_client gws Gyantal = None \<or> gateway_client gws DcMain = None"
  shows "fst (place_orders api gws cache orders sim io) = Inr ()"
    and "submissions (snd (place_orders api gws cache orders sim io)) = submissions io"
  using assms
  by (auto simp: place_orders_def split: prod.splits option.splits dest: cached_prices_submissions)

lemma order_plan_fst: "mset (map fst (order_plan api dc prices orders)) = mset orders"
proof -
  have "mset (filter P xs) + mset (filter (\<lambda>x. \<not> P x) xs) = mset xs" for P and xs :: "rq_order list"
    by (induction xs) auto
  from this [of "\<lambda>od. prices (ticker od) \<noteq> None" orders] show ?thesis
    by (simp add: order_plan_def o_def)
qed

section \<open>Sizes and costs\<close>

text \<open>What a buy may cost at most: its shares at its limit price.\<close>

definition buy_cost :: "'c submission \<Rightarrow> rat" where
  "buy_cost s = of_int (sint (sub_shares s)) * f64_rat (sub_limit s)"

lemma buy_limit_upper:
  assumes "1 \<le> p" and "p \<le> 10 ^ 12"
  shows "\<exists>l. order_limit Buy (F64_Fin p) = F64_Fin l \<and> p \<le> l \<and> l \<le> p * (10262/10000)"
proof -
  obtain l where l: "order_limit Buy (F64_Fin p) = F64_Fin l"
    "l \<le> p * (1021/1000) * (1 + limit_tol) + 51/10000" "p * (1021/1000) * (1 - limit_tol) - 51/10000 \<le> l"
    using limit_price_bounds [of "1021/1000" p] assms by (auto simp: order_limit_def)
  then show ?thesis using assms by (intro exI [of _ l]) (simp add: limit_tol_def)
qed

lemma sell_limit_lower:
  assumes "1 \<le> p" and "p \<le> 10 ^ 12"
  shows "\<exists>l. order_limit Sell (F64_Fin p) = F64_Fin l \<and> p * (9738/10000) \<le> l \<and> l \<le> p"
proof -
  obtain l where l: "order_limit Sell (F64_Fin p) = F64_Fin l"
    "l \<le> p * (979/1000) * (1 + limit_tol) + 51/10000" "p * (979/1000) * (1 - limit_tol) - 51/10000 \<le> l"
    using limit_price_bounds [of "979/1000" p] assms by (auto simp: order_limit_def)
  then show ?thesis using assms by (intro exI [of _ l]) (simp add: limit_tol_def)
qed

lemma order_submission_SomeD:
  assumes "order_submission gy od q = Some s"
  shows "\<not> f64_is_nan q" "sub_client s = gy" "sub_type s = order_type od" "sub_ticker s = ticker od"
    "sub_shares s = floor_quot_i32 (pos_market_value od) q" "0 < sint (sub_shares s)"
    "sub_limit s = order_limit (order_type od) q"
  using assms by (auto simp: order_submission_def split: if_splits)

lemma order_submission_cost:
  assumes "order_submission gy od (F64_Fin p) = Some s" and "order_type od = Buy"
    and "pos_market_value od = F64_Fin v" and "0 \<le> v" and "1 \<le> p" and "p \<le> 10 ^ 12"
  shows "0 \<le> buy_cost s" and "buy_cost s \<le> v * (10263/10000)"
proof -
  note D = order_submission_SomeD [OF assms(1)]
  obtain l where l: "order_limit Buy (F64_Fin p) = F64_Fin l" "p \<le> l" "l \<le> p * (10262/10000)"
    using buy_limit_upper assms(5,6) by blast
  let ?n = "of_int (sint (sub_shares s)) :: rat"
  have n: "0 < ?n" using D(6) by (simp only: of_int_0_less_iff)
  have np: "?n * p \<le> v * (1 + eps64)"
    using floor_quot_upper [of v p] assms D(5,6) by simp
  have c: "buy_cost s = ?n * l" using D assms l by (simp add: buy_cost_def)
  then show "0 \<le> buy_cost s" using n l assms by simp
  have "?n * l \<le> ?n * (p * (10262/10000))" using l n by (intro mult_left_mono) auto
  also have "\<dots> = (?n * p) * (10262/10000)" by simp
  also have "\<dots> \<le> (v * (1 + eps64)) * (10262/10000)" using np by (intro mult_right_mono) auto
  also have "\<dots> = v * ((1 + eps64) * (10262/10000))" by simp
  also have "\<dots> \<le> v * (10263/10000)" using assms eps64_bounds by (intro mult_left_mono) auto
  finally show "buy_cost s \<le> v * (10263/10000)" by (simp add: c)
qed

definition usable_price :: "f64 \<Rightarrow> bool" where
  "usable_price q \<longleftrightarrow> f64_is_nan q \<or> (case q of F64_Fin p \<Rightarrow> 1 \<le> p \<and> p \<le> 10 ^ 12 | _ \<Rightarrow> False)"

definition order_value :: "rq_order \<Rightarrow> rat" where
  "order_value od = f64_rat (pos_market_value od)"

lemma plan_submissions_Cons:
  "plan_submissions gy ((od, r) # plan) =
     (case r of Inl _ \<Rightarrow> [] | Inr p \<Rightarrow> (case order_submission gy od p of None \<Rightarrow> [] | Some s \<Rightarrow> [s])) @
     plan_submissions gy plan"
  by (auto simp: plan_submissions_def List.map_filter_def split: sum.splits option.splits)

lemma plan_cost:
  assumes "\<And>od r. (od, r) \<in> set plan \<Longrightarrow> (\<exists>v. pos_market_value od = F64_Fin v \<and> 0 \<le> v) \<and>
      (\<forall>q. r = Inr q \<longrightarrow> usable_price q)"
  shows "sum_list (map buy_cost (filter (\<lambda>s. sub_type s = Buy) (plan_submissions gy plan))) \<le>
    10263/10000 * sum_list (map order_value (filter (\<lambda>od. order_type od = Buy) (map fst plan)))"
  using assms
proof (induction plan)
  case Nil
  then show ?case by (simp add: plan_submissions_def)
next
  case (Cons a plan)
  obtain od r where a: "a = (od, r)" by fastforce
  let ?S = "\<lambda>plan. sum_list (map buy_cost (filter (\<lambda>s. sub_type s = Buy) (plan_submissions gy plan)))"
  let ?V = "\<lambda>plan. sum_list (map order_value (filter (\<lambda>od. order_type od = Buy) (map fst plan)))"
  have IH: "?S plan \<le> 10263/10000 * ?V plan"
  proof (rule Cons.IH)
    fix od r assume "(od, r) \<in> set plan"
    then show "(\<exists>v. pos_market_value od = F64_Fin v \<and> 0 \<le> v) \<and> (\<forall>q. r = Inr q \<longrightarrow> usable_price q)"
      using Cons.prems [of od r] by simp
  qed
  obtain v where v: "pos_market_value od = F64_Fin v" "0 \<le> v" using Cons.prems [of od r] a by auto
  have ok: "r = Inr q \<Longrightarrow> usable_price q" for q using Cons.prems [of od r] a by auto
  have ov: "order_value od = v" by (simp add: order_value_def v)
  show ?case
  proof (cases "\<exists>q s. r = Inr q \<and> order_submission gy od q = Some s")
    case False
    then have "plan_submissions gy (a # plan) = plan_submissions gy plan"
      by (cases r) (auto simp: a plan_submissions_Cons split: option.splits)
    with IH v show ?thesis by (simp add: a ov)
  next
    case True
    then obtain q s where s: "r = Inr q" "order_submission gy od q = Some s" by blast
    then obtain p where p: "q = F64_Fin p" "1 \<le> p" "p \<le> 10 ^ 12"
      using ok [of q] order_submission_SomeD(1) [OF s(2)] by (cases q) (auto simp: usable_price_def)
    have ps: "plan_submissions gy (a # plan) = s # plan_submissions gy plan"
      by (simp add: a plan_submissions_Cons s)
    show ?thesis
    proof (cases "order_type od = Buy")
      case True
      with order_submission_cost(2) [of gy od p s v] s p v have "buy_cost s \<le> v * (10263/10000)" by simp
      with IH True order_submission_SomeD(3) [OF s(2)] show ?thesis
        by (subst ps) (simp add: a ov)
    next
      case False
      with IH order_submission_SomeD(3) [OF s(2)] show ?thesis by (subst ps) (simp add: a)
    qed
  qed
qed

lemma sum_order_value_mset:
  "mset xs = mset ys \<Longrightarrow> sum_list (map order_value (filter P xs)) = sum_list (map order_value (filter P ys))"
  by (metis mset_filter mset_map sum_mset_sum_list)

lemma sum_order_value_take:
  assumes "\<And>od. od \<in> set xs \<Longrightarrow> 0 \<le> order_value od"
  shows "sum_list (map order_value (filter P (take k xs))) \<le> sum_list (map order_value (filter P xs))"
proof -
  have "sum_list (map order_value (filter P xs)) =
      sum_list (map order_value (filter P (take k xs))) + sum_list (map order_value (filter P (drop k xs)))"
    by (metis append_take_drop_id filter_append map_append sum_list_append)
  moreover have "0 \<le> sum_list (map order_value (filter P (drop k xs)))"
    using assms by (intro sum_list_nonneg) (auto dest: in_set_dropD)
  ultimately show ?thesis by simp
qed

text \<open>The new submissions of a placement, live or simulated, are those of a part of its plan.\<close>

lemma place_orders_new:
  "\<exists>gy dc k. submissions (snd (place_orders api gws cache orders sim io)) = submissions io @
     (if sim then [] else plan_submissions gy (take k (order_plan api dc (order_prices cache orders) orders))) \<and>
     (k = 0 \<or> gateway_client gws Gyantal = Some gy \<and> gateway_client gws DcMain = Some dc)"
proof (cases "orders = [] \<or> gateway_client gws Gyantal = None \<or> gateway_client gws DcMain = None")
  case True
  then have "submissions (snd (place_orders api gws cache orders sim io)) = submissions io"
    by (rule place_orders_no_client)
  then show ?thesis
    by (intro exI [of _ undefined] exI [of _ undefined] exI [of _ 0]) (simp add: plan_submissions_def)
next
  case False
  then obtain gy dc where g: "orders \<noteq> []" "gateway_client gws Gyantal = Some gy" "gateway_client gws DcMain = Some dc"
    by auto
  from place_orders_run [OF g] obtain io0 where io0: "submissions io0 = submissions io"
    "place_orders api gws cache orders sim io =
      run_plan api sim gy dc (order_plan api dc (order_prices cache orders) orders) io0" by blast
  obtain r io' where r: "run_plan api sim gy dc (order_plan api dc (order_prices cache orders) orders) io0 = (r, io')"
    by fastforce
  from run_plan_submissions [OF this] obtain k where
    "submissions io' = submissions io0 @ (if sim then [] else
      plan_submissions gy (take k (order_plan api dc (order_prices cache orders) orders)))" by blast
  with g io0 r show ?thesis by (intro exI [of _ gy] exI [of _ dc] exI [of _ k]) simp
qed

section \<open>Properties\<close>

text \<open>A broker for the witnesses: it connects, acknowledges every order and quotes ten dollars.\<close>

definition paper_api :: "(unit, unit, unit) ib_api" where
  "paper_api = \<lparr>ib_connect = (\<lambda>_ _. Some ()), ib_submit = (\<lambda>subs _. Some (int (length subs))),
     ib_realtime_bar = (\<lambda>_ _. BarClose (F64_Fin 10)), ib_executions = (\<lambda>_. Some [])\<rparr>"

definition paper_gateways :: "unit gateways" where
  "paper_gateways = (\<lambda>b. Some \<lparr>connection_url = ''paper'', client_id = 200, ib_client = Some ()\<rparr>)"

definition paper_order :: "string \<Rightarrow> rq_order" where
  "paper_order t = \<lparr>order_type = Buy, ticker = t, company_name = t, pos_market_value = F64_Fin 1000,
     known_last_price = Some (F64_Fin 100)\<rparr>"

lemma paper_simps [simp]:
  "gateway_client paper_gateways b = Some ()" "ib_submit paper_api subs s = Some (int (length subs))"
  "ib_realtime_bar paper_api dc t = BarClose (F64_Fin 10)"
  "order_type (paper_order t) = Buy" "ticker (paper_order t) = t" "company_name (paper_order t) = t"
  "pos_market_value (paper_order t) = F64_Fin 1000" "known_last_price (paper_order t) = Some (F64_Fin 100)"
  by (simp_all add: gateway_client_def paper_gateways_def paper_api_def paper_order_def)

lemma paper_cache_prices [simp]: "order_prices (mvc_new csv) orders = Map.empty"
  by (simp add: order_prices_def fun_eq_iff get_mark_value_def get_mark_timevalue_def mvc_new_def)

lemma paper_shares [simp]: "floor_quot_i32 (F64_Fin 1000) (F64_Fin 100) = 10"
  using f64_round_of_int [of 10]
  by (simp add: floor_quot_i32_def f64_div_Fin rat_trunc_def i32_max_def i32_min_def)

lemma paper_submission [simp]:
  "order_submission gy (paper_order t) (F64_Fin 100) = Some \<lparr>sub_client = gy, sub_type = Buy,
     sub_ticker = t, sub_shares = 10, sub_limit = order_limit Buy (F64_Fin 100)\<rparr>"
  by (simp add: order_submission_def)

lemma paper_plan [simp]:
  "plan_submissions gy [(paper_order t, Inr (F64_Fin 100))] = [\<lparr>sub_client = gy, sub_type = Buy,
     sub_ticker = t, sub_shares = 10, sub_limit = order_limit Buy (F64_Fin 100)\<rparr>]"
  unfolding plan_submissions_Cons by (simp add: plan_submissions_def)

text \<open>A simulated placement hands nothing to the broker, whatever
  the orders, the gateways, the cache and the broker's answers.\<close>

theorem place_orders_simulation_safe:
  "submissions (snd (place_orders api gws cache orders True io)) = submissions io"
  using place_orders_new [of api gws cache orders True io] by auto

lemma order_plan_length [simp]: "length (order_plan api dc prices orders) = length orders"
  by (metis order_plan_fst size_mset length_map)

lemma place_orders_prefix:
  assumes "gateway_client gws Gyantal = Some gy" and "gateway_client gws DcMain = Some dc"
  shows "\<exists>k. submissions (snd (place_orders api gws cache orders False io)) = submissions io @
        plan_submissions gy (take k (order_plan api dc (order_prices cache orders) orders)) \<and>
      (fst (place_orders api gws cache orders False io) = Inr () \<longrightarrow> k = length orders)"
proof (cases "orders = []")
  case True
  then show ?thesis
    by (intro exI [of _ 0]) (simp add: order_plan_def place_orders_def plan_submissions_def)
next
  case False
  let ?plan = "order_plan api dc (order_prices cache orders) orders"
  from place_orders_run [OF False assms] obtain io0 where io0: "submissions io0 = submissions io"
    "place_orders api gws cache orders False io = run_plan api False gy dc ?plan io0" by blast
  obtain r io' where r: "run_plan api False gy dc ?plan io0 = (r, io')" by fastforce
  from run_plan_submissions [OF r] obtain k where "submissions io' = submissions io @ plan_submissions gy (take k ?plan)"
    "r = Inr () \<Longrightarrow> k = length orders" using io0 order_plan_length [of api dc _ orders] by auto
  then show ?thesis by (intro exI [of _ k]) (simp add: io0 r)
qed

lemma place_orders_returns:
  assumes "gateway_client gws Gyantal = Some gy" and "gateway_client gws DcMain = Some dc"
    and "\<And>subs s. ib_submit api subs s \<noteq> None"
    and "\<And>od. od \<in> set orders \<Longrightarrow> order_prices cache orders (ticker od) = None \<Longrightarrow>
      \<exists>p. get_knownlast_or_ib_price api dc (ticker od) (known_last_price od) = Inr p"
  shows "fst (place_orders api gws cache orders False io) = Inr ()"
proof -
  let ?plan = "order_plan api dc (order_prices cache orders) orders"
  have run: "fst (run_plan api False gy dc plan io) = Inr ()" if "\<forall>(od, q) \<in> set plan. \<exists>p. q = Inr p" for plan io
    using that
  proof (induction plan arbitrary: io)
    case (Cons a plan)
    then obtain od p where a: "a = (od, Inr p)" by auto
    have "fst (place_order api False gy dc od p io) = Inr ()"
      using assms(3) by (simp add: place_order_Inr split: option.split)
    with Cons a show ?case by (auto split: prod.splits sum.splits)
  qed simp
  have pr: "\<forall>(od, q) \<in> set ?plan. \<exists>p. q = Inr p" using assms(4) by (auto simp: order_plan_def)
  show ?thesis
  proof (cases "orders = []")
    case False
    from place_orders_run [OF this assms(1,2), of io api cache False] run [OF pr] show ?thesis by auto
  qed (simp add: place_orders_def)
qed



text \<open>When the broker acknowledges every submission and every order
  without a cached quote has a price to be found, a placement returns and has submitted the whole
  plan.\<close>

theorem place_orders_completes:
  assumes "gateway_client gws Gyantal = Some gy" and "gateway_client gws DcMain = Some dc"
    and "\<And>subs s. ib_submit api subs s \<noteq> None"
    and "\<And>od. od \<in> set orders \<Longrightarrow> order_prices cache orders (ticker od) = None \<Longrightarrow>
      \<exists>p. get_knownlast_or_ib_price api dc (ticker od) (known_last_price od) = Inr p"
  shows "fst (place_orders api gws cache orders False io) = Inr () \<and>
    submissions (snd (place_orders api gws cache orders False io)) = submissions io @
      plan_submissions gy (order_plan api dc (order_prices cache orders) orders)"
  using place_orders_returns [OF assms] place_orders_prefix [OF assms(1,2), of api cache orders io]
  by (metis order_plan_length take_all_iff order_refl)

theorem place_orders_completes_witness:
  "submissions (snd (place_orders paper_api paper_gateways (mvc_new ''A'') [paper_order ''A''] False
      \<lparr>submissions = [], user_log = []\<rparr>)) \<noteq> []"
proof -
  define io :: "unit trade_io" where "io = \<lparr>submissions = [], user_log = []\<rparr>"
  have plan: "order_plan paper_api () Map.empty [paper_order t] = [(paper_order t, Inr (F64_Fin 100))]" for t
    by (simp add: order_plan_def get_knownlast_or_ib_price_def)
  have "submissions (snd (place_orders paper_api paper_gateways (mvc_new ''A'') [paper_order ''A''] False io)) =
    submissions io @ plan_submissions () (order_plan paper_api () (order_prices (mvc_new ''A'') [paper_order ''A'']) [paper_order ''A''])"
    using place_orders_completes [of paper_gateways "()" "()" paper_api "[paper_order ''A'']" "mvc_new ''A''" io]
    by (simp add: get_knownlast_or_ib_price_def)
  then show ?thesis by (simp add: plan io_def)
qed

lemma map_filter_memD: "y \<in> set (List.map_filter f xs) \<Longrightarrow> \<exists>x \<in> set xs. f x = Some y"
  by (induction xs) (auto simp: List.map_filter_def split: if_splits)

lemma order_plan_orders: "(od, r) \<in> set (order_plan api dc prices orders) \<Longrightarrow> od \<in> set orders"
  by (auto simp: order_plan_def)

lemma plan_submissions_memD:
  "s \<in> set (plan_submissions gy plan) \<Longrightarrow> \<exists>od p. (od, Inr p) \<in> set plan \<and> order_submission gy od p = Some s"
  unfolding plan_submissions_def by (drule map_filter_memD) (fastforce split: sum.splits)

lemma plan_submissions_length: "length (plan_submissions gy plan) \<le> length plan"
  by (simp add: plan_submissions_def List.map_filter_def)

lemma place_orders_new_sound:
  assumes "submissions (snd (place_orders api gws cache orders sim io)) = submissions io @ new" and "s \<in> set new"
  shows "\<not> sim \<and> length new \<le> length orders \<and> gateway_client gws Gyantal = Some (sub_client s) \<and>
    0 < sint (sub_shares s) \<and>
    (\<exists>od \<in> set orders. \<exists>p. \<not> f64_is_nan p \<and> sub_type s = order_type od \<and> sub_ticker s = ticker od \<and>
       sub_shares s = floor_quot_i32 (pos_market_value od) p \<and> sub_limit s = order_limit (order_type od) p)"
proof -
  obtain gy dc k where n: "new = (if sim then [] else
      plan_submissions gy (take k (order_plan api dc (order_prices cache orders) orders)))"
    and k: "k = 0 \<or> gateway_client gws Gyantal = Some gy \<and> gateway_client gws DcMain = Some dc"
    using place_orders_new [of api gws cache orders sim io] assms(1) by auto
  from n assms(2) have ns: "\<not> sim" by (cases sim) auto
  then obtain od p where o: "(od, Inr p) \<in> set (take k (order_plan api dc (order_prices cache orders) orders))"
    "order_submission gy od p = Some s" using n assms(2) plan_submissions_memD by (metis (no_types, lifting))
  then have "od \<in> set orders" using order_plan_orders in_set_takeD by metis
  moreover have "length new \<le> length orders"
    using n ns plan_submissions_length [of gy "take k (order_plan api dc (order_prices cache orders) orders)"] by simp
  ultimately show ?thesis using o k ns order_submission_SomeD [OF o(2)] by auto
qed

text \<open>A well-formed submission: to the Gyantal client, of positive size, its limit a double and of whole cents.\<close>

definition well_formed :: "'c gateways \<Rightarrow> 'c submission \<Rightarrow> bool" where
  "well_formed gws s \<longleftrightarrow> gateway_client gws Gyantal = Some (sub_client s) \<and> 0 < sint (sub_shares s) \<and>
     f64_wf (sub_limit s) \<and> whole_cents (sub_limit s)"

lemma place_orders_well_formed:
  assumes "submissions (snd (place_orders api gws cache orders sim io)) = submissions io @ new" and "s \<in> set new"
  shows "well_formed gws s"
  using place_orders_new_sound [OF assms] order_limit_type unfolding well_formed_def by metis

text \<open>C35: Whatever a placement hands to the broker goes out live only,
  through the Gyantal client, with a positive number of shares, on the side and the ticker of one of
  the orders given, and with the share count and the limit of a price that is no NaN; the limit is a double, the one
  nearest to a whole number of cents unless it is infinite.\<close>

theorem place_orders_only_orders:
  assumes "submissions (snd (place_orders api gws cache orders sim io)) = submissions io @ new" and "s \<in> set new"
  shows "\<not> sim \<and> well_formed gws s \<and>
    (\<exists>od \<in> set orders. \<exists>p. \<not> f64_is_nan p \<and> sub_type s = order_type od \<and> sub_ticker s = ticker od \<and>
       sub_shares s = floor_quot_i32 (pos_market_value od) p \<and> sub_limit s = order_limit (order_type od) p)"
  using place_orders_new_sound [OF assms] place_orders_well_formed [OF assms] by blast

theorem place_orders_only_orders_witness:
  "\<exists>s. submissions (snd (place_orders paper_api paper_gateways (mvc_new ''A'') [paper_order ''A''] False
      \<lparr>submissions = [], user_log = []\<rparr>)) = [] @ [s] \<and> 0 < sint (sub_shares s) \<and> whole_cents (sub_limit s)"
proof -
  define io :: "unit trade_io" where "io = \<lparr>submissions = [], user_log = []\<rparr>"
  let ?P = "place_orders paper_api paper_gateways (mvc_new ''A'') [paper_order ''A''] False io"
  have r: "fst ?P = Inr ()"
    by (rule place_orders_returns [of _ "()" "()"]) (simp_all add: get_knownlast_or_ib_price_def)
  have plan: "order_plan paper_api () Map.empty [paper_order t] = [(paper_order t, Inr (F64_Fin 100))]" for t
    by (simp add: order_plan_def get_knownlast_or_ib_price_def)
  obtain s where s: "submissions (snd ?P) = submissions io @ [s]"
    using place_orders_prefix [of paper_gateways "()" "()" paper_api "mvc_new ''A''" "[paper_order ''A'']" io] r
    by (auto simp: plan)
  from place_orders_only_orders [OF this] have "0 < sint (sub_shares s)" "whole_cents (sub_limit s)"
    by (simp_all add: well_formed_def)
  with s show ?thesis by (auto simp: io_def)
qed

text \<open>C36: The number of shares of a placed order never spends more than
  the order's market value at the given price, up to one rounding, and short of the largest
  32-bit count it is the largest such number: one more share would exceed the value.\<close>

theorem place_order_share_bounds:
  assumes "submissions (snd (place_order api False gy dc od (F64_Fin p) io)) = submissions io @ [s]"
    and "pos_market_value od = F64_Fin v" and "0 \<le> v" and "0 < p"
  shows "of_int (sint (sub_shares s)) * p \<le> v * (1 + eps64) \<and>
    (sint (sub_shares s) < 2147483647 \<longrightarrow> v * (1 - eps64) < of_int (sint (sub_shares s) + 1) * p)"
proof -
  obtain r io' where "place_order api False gy dc od (F64_Fin p) io = (r, io')" by fastforce
  from place_order_submissions [OF this] assms(1) this
  have s: "order_submission gy od (F64_Fin p) = Some s" by (auto split: option.splits)
  note D = order_submission_SomeD [OF this]
  have "of_int (sint (sub_shares s)) * p \<le> v * (1 + eps64)"
    using floor_quot_upper [of v p] assms D(5,6) by (simp only:)
  moreover have "v * (1 - eps64) < of_int (sint (sub_shares s) + 1) * p" if "sint (sub_shares s) < 2147483647"
    using floor_quot_lower [of v p] assms D(5,6) that by (simp only: i32_max_def)
  ultimately show ?thesis by blast
qed

theorem place_order_share_bounds_witness:
  "\<exists>s. submissions (snd (place_order paper_api False () () (paper_order ''A'') (F64_Fin 100)
      \<lparr>submissions = [], user_log = []\<rparr>)) = [s] \<and> of_int (sint (sub_shares s)) * 100 \<le> 1000 * (1 + eps64)"
proof -
  define io :: "unit trade_io" where "io = \<lparr>submissions = [], user_log = []\<rparr>"
  obtain r io' where 1: "place_order paper_api False () () (paper_order ''A'') (F64_Fin 100) io = (r, io')"
    by fastforce
  obtain s where s: "submissions (snd (place_order paper_api False () () (paper_order ''A'') (F64_Fin 100) io)) =
      submissions io @ [s]" using place_order_submissions [OF 1] 1 by auto
  have "of_int (sint (sub_shares s)) * 100 \<le> 1000 * (1 + eps64)"
    using place_order_share_bounds [OF s, of 1000] by simp
  with s show ?thesis by (auto simp: io_def)
qed

text \<open>For a price between a dollar and a trillion dollars the limit of a buy
  is 2.1 percent above the price and that of a sell 2.1 percent below, to within half a cent and
  the four roundings of the expression; so a buy never bids below the price, nor a sell asks above.\<close>

theorem order_limit_band:
  assumes "1 \<le> p" and "p \<le> 10 ^ 12"
  shows "\<exists>b s. order_limit Buy (F64_Fin p) = F64_Fin b \<and> order_limit Sell (F64_Fin p) = F64_Fin s \<and>
    \<bar>b - p * (1021/1000)\<bar> \<le> 51/10000 + p / 10 ^ 8 \<and> \<bar>s - p * (979/1000)\<bar> \<le> 51/10000 + p / 10 ^ 8 \<and>
    s \<le> p \<and> p \<le> b"
proof -
  obtain b where b: "order_limit Buy (F64_Fin p) = F64_Fin b"
    "b \<le> p * (1021/1000) * (1 + limit_tol) + 51/10000" "p * (1021/1000) * (1 - limit_tol) - 51/10000 \<le> b"
    using limit_price_bounds [of "1021/1000" p] assms by (auto simp: order_limit_def)
  obtain s where s: "order_limit Sell (F64_Fin p) = F64_Fin s"
    "s \<le> p * (979/1000) * (1 + limit_tol) + 51/10000" "p * (979/1000) * (1 - limit_tol) - 51/10000 \<le> s"
    using limit_price_bounds [of "979/1000" p] assms by (auto simp: order_limit_def)
  from b s assms(1) show ?thesis
    by (intro exI [of _ b] exI [of _ s]) (auto simp: abs_le_iff limit_tol_def)
qed

theorem order_limit_band_witness:
  "\<exists>b s. order_limit Buy (F64_Fin 100) = F64_Fin b \<and> order_limit Sell (F64_Fin 100) = F64_Fin s \<and> s \<le> 100 \<and> 100 \<le> b"
  using order_limit_band [of 100] by auto

lemma plan_cost_orders:
  assumes "\<And>od. od \<in> set orders \<Longrightarrow> \<exists>v. pos_market_value od = F64_Fin v \<and> 0 \<le> v"
    and "\<And>od q. (od, Inr q) \<in> set plan \<Longrightarrow> usable_price q"
    and "mset (map fst plan) = mset orders"
  shows "sum_list (map buy_cost (filter (\<lambda>s. sub_type s = Buy) (plan_submissions gy (take k plan)))) \<le>
    10263/10000 * sum_list (map order_value (filter (\<lambda>od. order_type od = Buy) orders))"
proof -
  let ?V = "\<lambda>ods. sum_list (map order_value (filter (\<lambda>od. order_type od = Buy) ods))"
  have mem: "od \<in> set orders" if "(od, r) \<in> set plan" for od r
    using that assms(3) by (metis fst_conv image_eqI set_map set_mset_mset)
  have "sum_list (map buy_cost (filter (\<lambda>s. sub_type s = Buy) (plan_submissions gy (take k plan)))) \<le>
    10263/10000 * ?V (map fst (take k plan))"
    using assms(1,2) mem by (intro plan_cost) (blast dest: in_set_takeD)
  also have "?V (map fst (take k plan)) \<le> ?V (map fst plan)"
    unfolding take_map [symmetric]
    using assms(1) mem by (intro sum_order_value_take) (fastforce simp: order_value_def)
  also have "?V (map fst plan) = ?V orders" by (rule sum_order_value_mset [OF assms(3)])
  finally show ?thesis by simp
qed

text \<open>C14: If every price a placement may use, cached, known or streamed,
  is missing or between a dollar and a trillion dollars, then the buy orders it hands to the broker,
  at their limit prices, cost together at most 2.63 percent more than the market values asked for,
  wherever the placement stops.\<close>

theorem place_orders_total_buy_cost:
  assumes "\<And>od. od \<in> set orders \<Longrightarrow> \<exists>v. pos_market_value od = F64_Fin v \<and> 0 \<le> v"
    and "\<And>t q. order_prices cache orders t = Some q \<Longrightarrow> usable_price q"
    and "\<And>dc od q. od \<in> set orders \<Longrightarrow>
      get_knownlast_or_ib_price api dc (ticker od) (known_last_price od) = Inr q \<Longrightarrow> usable_price q"
    and "submissions (snd (place_orders api gws cache orders sim io)) = submissions io @ new"
  shows "sum_list (map buy_cost (filter (\<lambda>s. sub_type s = Buy) new)) \<le>
    10263/10000 * sum_list (map order_value (filter (\<lambda>od. order_type od = Buy) orders))"
proof -
  obtain gy dc k where n: "new = (if sim then [] else
      plan_submissions gy (take k (order_plan api dc (order_prices cache orders) orders)))"
    using place_orders_new [of api gws cache orders sim io] assms(4) by auto
  have "sum_list (map buy_cost (filter (\<lambda>s. sub_type s = Buy) (plan_submissions gy
      (take k (order_plan api dc (order_prices cache orders) orders))))) \<le>
    10263/10000 * sum_list (map order_value (filter (\<lambda>od. order_type od = Buy) orders))" for k
    using assms(1-3) order_plan_fst
    by (intro plan_cost_orders) (auto simp: order_plan_def)
  from this [of k] this [of 0] show ?thesis unfolding n by (cases sim) (simp_all add: plan_submissions_def)
qed

theorem place_orders_total_buy_cost_witness:
  "\<exists>new. submissions (snd (place_orders paper_api paper_gateways (mvc_new ''A'') [paper_order ''A''] False
      \<lparr>submissions = [], user_log = []\<rparr>)) = new \<and>
    sum_list (map buy_cost (filter (\<lambda>s. sub_type s = Buy) new)) \<le> 10263/10000 * 1000"
proof -
  define io :: "unit trade_io" where "io = \<lparr>submissions = [], user_log = []\<rparr>"
  let ?P = "place_orders paper_api paper_gateways (mvc_new ''A'') [paper_order ''A''] False io"
  obtain new where new: "submissions (snd ?P) = submissions io @ new"
    using place_orders_prefix [of paper_gateways "()" "()"] by (metis paper_simps(1))
  have "sum_list (map buy_cost (filter (\<lambda>s. sub_type s = Buy) new)) \<le>
    10263/10000 * sum_list (map order_value (filter (\<lambda>od. order_type od = Buy) [paper_order ''A'']))"
    by (rule place_orders_total_buy_cost [OF _ _ _ new])
      (auto simp: get_knownlast_or_ib_price_def usable_price_def)
  with new show ?thesis by (simp add: io_def order_value_def)
qed

text \<open>A price of zero is not refused: the quotient is infinite, the
  cast saturates, and the order goes out for 2147483647 shares at a limit of zero.\<close>

theorem place_order_zero_price:
  assumes "pos_market_value od = F64_Fin v" and "0 < v"
  shows "submissions (snd (place_order api False gy dc od (F64_Fin 0) io)) = submissions io @
    [\<lparr>sub_client = gy, sub_type = order_type od, sub_ticker = ticker od, sub_shares = 2147483647,
      sub_limit = F64_Fin 0\<rparr>]"
proof -
  have B: "(2::rat) \<le> 2 ^ 200" by simp
  have "limit_price (f64_lit c) (F64_Fin 0) = F64_Fin 0" if "1/2 \<le> c" "c \<le> 2" for c
  proof -
    have "f64_lit c = F64_Fin (rnd c)" "0 < rnd c"
      using f64_round_normal [of c] that B by (auto simp: f64_lit_def)
    moreover have "\<lfloor>1 / 2 :: rat\<rfloor> = 0" by (simp add: floor_eq_iff)
    ultimately show ?thesis
      by (simp add: limit_price_def f64_mul_Fin f64_div_Fin f64_round_def f64_zero_def round_away_def)
  qed
  then have l: "order_limit ty (F64_Fin 0) = F64_Fin 0" for ty by (cases ty) (simp_all add: order_limit_def)
  have sh: "floor_quot_i32 (F64_Fin v) (F64_Fin 0) = 2147483647"
    using floor_quot_zero_price [OF assms(2)] by (simp add: i32_max_def)
  obtain r io' where 1: "place_order api False gy dc od (F64_Fin 0) io = (r, io')" by fastforce
  from place_order_submissions [OF this] show ?thesis
    by (simp add: 1 order_submission_def assms sh l)
qed

theorem place_order_zero_price_witness:
  "sub_shares (last (submissions (snd (place_order paper_api False () () (paper_order ''A'') (F64_Fin 0)
     \<lparr>submissions = [], user_log = []\<rparr>)))) = 2147483647"
  by (subst place_order_zero_price [of _ 1000]) simp_all

lemma read_executions_acc:
  "read_executions items es rs =
     (es @ List.map_filter (\<lambda>x. case x of ExecutionData e \<Rightarrow> Some e | _ \<Rightarrow> None)
        (takeWhile (\<lambda>x. x \<noteq> EndOfStream \<and> x \<noteq> StreamError) items),
      rs @ List.map_filter (\<lambda>x. case x of CommissionReport r \<Rightarrow> Some r | _ \<Rightarrow> None)
        (takeWhile (\<lambda>x. x \<noteq> EndOfStream \<and> x \<noteq> StreamError) items))"
  by (induction items es rs rule: read_executions.induct) (simp_all add: List.map_filter_def)

text \<open>The executions and the commission reports are those of the
  stream before its end or its first error, each list in the stream's order; a missing gateway, an
  unconnected one and a refused request all give two empty lists.\<close>

theorem get_order_executions_spec:
  "get_order_executions api gws b =
     (let items = (case Option.bind (gateway_client gws b) (ib_executions api) of None \<Rightarrow> [] | Some items \<Rightarrow> items);
          live = takeWhile (\<lambda>x. x \<noteq> EndOfStream \<and> x \<noteq> StreamError) items
      in (List.map_filter (\<lambda>x. case x of ExecutionData e \<Rightarrow> Some e | _ \<Rightarrow> None) live,
          List.map_filter (\<lambda>x. case x of CommissionReport r \<Rightarrow> Some r | _ \<Rightarrow> None) live))"
  by (auto simp: get_order_executions_def gateway_client_def read_executions_acc Let_def List.map_filter_def
      split: option.splits)

text \<open>On the server every gateway ends with the client its connection
  attempt gave, each under its own address, with client id 200; a failed attempt leaves that gateway
  without a client and the other gateways as they are.\<close>

theorem brokers_init_connects:
  "\<exists>cache' gws'. brokers_init api False userdomain cache gws = (Inr (), cache', gws') \<and>
     gateway_client gws' b = ib_connect api (connection_url_of b) 200 \<and>
     inj connection_url_of"
proof -
  have "inj connection_url_of"
    by (rule injI) (auto simp: connection_url_of_def ib_server_port_def ib_server_ports dest!: arg_cong [where f = nat_of_digits]
        simp: nat_of_digits_show_nat split: broker_client.splits)
  then show ?thesis
    by (cases b) (auto simp: brokers_init_def gateway_client_id_def gateway_client_def gateway_init_def
      gateway_new_def Let_def split: option.split)
qed

text \<open>After the exit no gateway holds a client, in the map or in a
  handle taken from it before, and a placement submits nothing.\<close>

theorem brokers_exit_stops_trading:
  "gateway_client (fst (brokers_exit gws)) b = None \<and> gateway_client (snd (brokers_exit gws)) b = None \<and>
   submissions (snd (place_orders api (snd (brokers_exit gws)) cache orders sim io)) = submissions io"
proof -
  have "gateway_client (fst (brokers_exit gws)) b = None" for b
    by (cases "gws b") (simp_all add: brokers_exit_def exit_gateways_def gateway_client_def gateway_exit_def)
  moreover have "gateway_client (snd (brokers_exit gws)) b = None" for b
    by (simp add: brokers_exit_def gateway_client_def)
  ultimately show ?thesis by (simp add: place_orders_no_client)
qed

end
