(* ===== verification/SaData.thy ===== *)
theory SaData
  imports Brokers Calendar
begin

text \<open>
  The data of \<open>rqcoresrv/src/robotrader/fast_runner.rs\<close>: the structures decoded from the Seeking
  Alpha pages, the transaction events, and the outside world of a download. The JSON decoder, the
  HTTP client and the file system are parameters, the record \<open>sa_world\<close>; \<open>'v\<close> is the type of
  undecoded JSON values. Fields carry a prefix where the source reuses a name.
\<close>

section \<open>Structures of the pages\<close>

datatype weight = WeightNumber f64 | WeightString string

record transaction_attributes =
  ta_id :: int
  ta_action :: string
  ta_action_date :: string
  ta_starting_weight :: "weight option"
  ta_new_weight :: "weight option"
  ta_rule :: "string option"
  ta_status :: "string option"
  ta_price :: "string option"

record ticker_data =
  td_id :: string
  td_type :: string

record ticker_relationship =
  tickrel_data :: ticker_data

record transaction_relationships =
  rel_ticker :: ticker_relationship

record transaction =
  tr_id :: string
  tr_type :: string
  tr_attributes :: transaction_attributes
  tr_relationships :: transaction_relationships

record stock_attributes =
  stock_name :: string
  stock_company_name :: string

record stock =
  stock_id :: string
  stock_type :: string
  stock_attributes :: stock_attributes

record portfhist_response =
  ph_data :: "transaction list"
  ph_included :: "stock list"

record sa_screener_response =
  scr_data :: "stock list"

record pqp_position =
  pos_id :: string
  pos_type :: string
  pos_relationships :: transaction_relationships

record pqp_included_attributes =
  pia_name :: "string option"
  pia_company_name :: "string option"

record pqp_included_item =
  pii_id :: string
  pii_type :: string
  pii_attributes :: "pqp_included_attributes option"

record pqp_positions_response =
  pp_data :: "pqp_position list"
  pp_included :: "pqp_included_item list"

text \<open>\<open>pos_weight\<close> is an \<open>f32\<close> in the code and only ever zero, which both widths represent.\<close>

record transaction_event =
  transaction_id :: string
  ev_order_type :: rq_order_type
  action_date :: string
  ev_ticker :: string
  ev_company_name :: string
  starting_weight :: "weight option"
  new_weight :: "weight option"
  ev_price :: "string option"
  ev_pos_weight :: f64
  ev_pos_market_value :: f64

record relationship_data =
  rd_id :: string
  rd_type :: string

record relationship_array =
  ra_data :: "relationship_data list"

record article_relationships =
  primary_tickers :: "relationship_array option"

record article_attributes =
  publish_on :: string
  title :: string

record article =
  art_id :: string
  art_type :: string
  art_attributes :: article_attributes
  art_relationships :: article_relationships

record 'v included_item =
  inc_id :: string
  inc_type :: string
  inc_attributes :: 'v

record 'v analysis_response =
  an_data :: "article list"
  an_included :: "'v included_item list"

record tag_attributes =
  tag_slug :: "string option"
  tag_name :: "string option"
  tag_company :: "string option"

section \<open>The world of a download\<close>

text \<open>
  A request fails to be built or sent, never answers (the client sets no timeout), answers with a
  body that cannot be read, or delivers a body. \<open>cookies_modtime\<close> is \<open>None\<close> when the metadata
  of the cookies file cannot be had.
\<close>

datatype http_reply = BuildFailed | SendFailed | NoReply | BodyFailed | Body string

record 'v sa_world =
  http_get :: "string \<Rightarrow> string \<Rightarrow> http_reply"
  http_post :: "string \<Rightarrow> string \<Rightarrow> string \<Rightarrow> http_reply"
  write_file_ok :: "string \<Rightarrow> string \<Rightarrow> bool"
  cookies_modtime :: "instant option"
  cookies_content :: "string option"
  decode_portfhist :: "string \<Rightarrow> portfhist_response option"
  decode_analysis :: "string \<Rightarrow> 'v analysis_response option"
  decode_screener :: "string \<Rightarrow> sa_screener_response option"
  decode_positions :: "string \<Rightarrow> pqp_positions_response option"
  decode_tag :: "'v \<Rightarrow> tag_attributes option"

definition url_pqp_portfolio_history :: string where
  "url_pqp_portfolio_history = ''https://seekingalpha.com/api/v3/quant_pro_portfolio/transactions?include=ticker.slug%2Cticker.name%2Cticker.companyName&page[size]=1000&page[number]=1''"

definition url_ap_analysis :: string where
  "url_ap_analysis = ''https://seekingalpha.com/api/v3/service_plans/458/marketplace/articles?include=primaryTickers%2CsecondaryTickers%2CservicePlans%2CservicePlanArticles%2Cauthor%2CsecondaryAuthor''"

definition url_pqp_analysis :: string where
  "url_pqp_analysis = ''https://seekingalpha.com/api/v3/quant_pro_portfolio/articles?include=primaryTickers%2CsecondaryTickers%2Cauthor%2CsecondaryAuthor&lang=en''"

text \<open>The download of a page's text, in which every failure is an \<open>expect\<close>.\<close>

definition download :: "'v sa_world \<Rightarrow> string \<Rightarrow> string \<Rightarrow> string outcome" where
  "download w url ck =
     (case http_get w url ck of
        BuildFailed \<Rightarrow> Inl (Panic ''Client::builder() failed!'')
      | SendFailed \<Rightarrow> Inl (Panic ''reqwest client.get() failed!'')
      | NoReply \<Rightarrow> Inl Hang
      | BodyFailed \<Rightarrow> Inl (Panic ''resp.text() failed!'')
      | Body body_text \<Rightarrow> Inr body_text)"

definition save_response_file :: "'v sa_world \<Rightarrow> string \<Rightarrow> string \<Rightarrow> unit outcome" where
  "save_response_file w file_prefix body_text =
     (if write_file_ok w file_prefix body_text then Inr () else Inl (Panic ''fs::write() failed!''))"

section \<open>Events of the portfolio history\<close>

definition order_type_of_action :: "string \<Rightarrow> rq_order_type option" where
  "order_type_of_action action =
     (if action = ''buy'' then Some Buy else if action = ''sell'' then Some Sell else None)"

definition stocks_of :: "stock list \<Rightarrow> string \<rightharpoonup> stock" where
  "stocks_of included = insert_all (map (\<lambda>s. (stock_id s, s)) included) Map.empty"

definition event_of_transaction :: "(string \<rightharpoonup> stock) \<Rightarrow> string \<Rightarrow> transaction \<Rightarrow> transaction_event option" where
  "event_of_transaction stocks target tr =
     (if ta_action_date (tr_attributes tr) \<noteq> target then None
      else if ta_rule (tr_attributes tr) = Some ''rebalance'' then None
      else
        (case (stocks (td_id (tickrel_data (rel_ticker (tr_relationships tr)))),
               order_type_of_action (ta_action (tr_attributes tr))) of
           (Some st, Some ty) \<Rightarrow> Some \<lparr>transaction_id = tr_id tr, ev_order_type = ty,
             action_date = ta_action_date (tr_attributes tr), ev_ticker = stock_name (stock_attributes st),
             ev_company_name = stock_company_name (stock_attributes st),
             starting_weight = ta_starting_weight (tr_attributes tr), new_weight = ta_new_weight (tr_attributes tr),
             ev_price = ta_price (tr_attributes tr), ev_pos_weight = F64_Fin 0, ev_pos_market_value = F64_Fin 0\<rparr>
         | _ \<Rightarrow> None))"

fun portfhist_events ::
  "(string \<rightharpoonup> stock) \<Rightarrow> string \<Rightarrow> transaction list \<Rightarrow> transaction_event list \<Rightarrow> transaction_event list" where
  "portfhist_events stocks target [] events = events"
| "portfhist_events stocks target (tr # trs) events =
     portfhist_events stocks target trs
       (case event_of_transaction stocks target tr of None \<Rightarrow> events | Some ev \<Rightarrow> events @ [ev])"

section \<open>Events of the articles\<close>

text \<open>The included tags by id: name and company, empty where the tag has none; both article pages.\<close>

definition tag_entries_of :: "('v \<Rightarrow> tag_attributes option) \<Rightarrow> 'v included_item list \<Rightarrow> (string \<times> string \<times> string) list" where
  "tag_entries_of from_value included =
     List.map_filter (\<lambda>inc.
         if inc_type inc = ''tag'' then
           map_option (\<lambda>tag. (inc_id inc, (case tag_name tag of None \<Rightarrow> [] | Some n \<Rightarrow> n,
             case tag_company tag of None \<Rightarrow> [] | Some c \<Rightarrow> c))) (from_value (inc_attributes inc))
         else None) included"

definition tag_lookup_of :: "('v \<Rightarrow> tag_attributes option) \<Rightarrow> 'v included_item list \<Rightarrow> string \<rightharpoonup> string \<times> string" where
  "tag_lookup_of from_value included = insert_all (tag_entries_of from_value included) Map.empty"

definition event_of_ticker ::
  "(string \<rightharpoonup> string \<times> string) \<Rightarrow> article \<Rightarrow> string \<Rightarrow> relationship_data \<Rightarrow> transaction_event option" where
  "event_of_ticker tag_lookup art dateonly d =
     (if rd_type d \<noteq> ''tag'' then None
      else (case tag_lookup (rd_id d) of
          None \<Rightarrow> None
        | Some (name, company) \<Rightarrow>
            if CHR '':'' \<in> set name then None
            else Some \<lparr>transaction_id = art_id art, ev_order_type = Buy, action_date = dateonly,
              ev_ticker = name, ev_company_name = company, starting_weight = None, new_weight = None,
              ev_price = None, ev_pos_weight = F64_Fin 0, ev_pos_market_value = F64_Fin 0\<rparr>))"

fun article_events ::
  "(string \<rightharpoonup> string \<times> string) \<Rightarrow> string \<Rightarrow> article list \<Rightarrow> transaction_event list
    \<Rightarrow> transaction_event list outcome" where
  "article_events tag_lookup target [] events = Inr events"
| "article_events tag_lookup target (art # arts) events =
     bind_out (str_slice_to 10 (publish_on (art_attributes art))) (\<lambda>dateonly.
       if dateonly \<noteq> target then article_events tag_lookup target arts events
       else case primary_tickers (art_relationships art) of
           None \<Rightarrow> article_events tag_lookup target arts events
         | Some rel \<Rightarrow> article_events tag_lookup target arts
             (events @ List.map_filter (event_of_ticker tag_lookup art dateonly) (ra_data rel)))"

text \<open>The check that the page is not behind the paywall, \<open>"isPaywalled":false\<close>.\<close>

definition not_paywalled :: string where
  "not_paywalled = [char_of (34::nat)] @ ''isPaywalled'' @ [char_of (34::nat)] @ '':false''"

definition get_new_transactions_from_analysis_pqp ::
  "'v sa_world \<Rightarrow> string \<Rightarrow> string \<Rightarrow> (string \<times> transaction_event list) outcome" where
  "get_new_transactions_from_analysis_pqp w ck target =
     bind_out (download w url_pqp_analysis ck) (\<lambda>body_text.
     bind_out (save_response_file w ''fast_run_pqp_analysis_src'' body_text) (\<lambda>_.
       if \<not> str_contains not_paywalled body_text then Inr (target, [])
       else if str_contains ''captcha.js'' body_text then Inr (target, [])
       else bind_out (expect (decode_analysis w body_text) ''serde_json::from_str() failed for AnalysisResponse!'')
         (\<lambda>resp. bind_out (article_events (tag_lookup_of (decode_tag w) (an_included resp)) target (an_data resp) [])
           (\<lambda>events. Inr (target, events)))))"

section \<open>The candidates' pages\<close>

text \<open>Here no failure is a panic: the text is empty instead, the list of tickers is empty.\<close>

definition get_sa_url_json :: "'v sa_world \<Rightarrow> string \<Rightarrow> bool \<Rightarrow> string \<Rightarrow> string outcome" where
  "get_sa_url_json w url is_post post_payload_body =
     (case cookies_content w of
        None \<Rightarrow> Inr []
      | Some content \<Rightarrow>
          (case (if is_post then http_post w url (trim content) post_payload_body
                 else http_get w url (trim content)) of
             BuildFailed \<Rightarrow> Inr []
           | SendFailed \<Rightarrow> Inr []
           | NoReply \<Rightarrow> Inl Hang
           | BodyFailed \<Rightarrow> Inr []
           | Body text \<Rightarrow> Inr text))"

definition url_screener_results :: string where
  "url_screener_results = ''https://seekingalpha.com/api/v3/screener_results''"

definition url_pqp_positions :: string where
  "url_pqp_positions = ''https://seekingalpha.com/api/v3/quant_pro_portfolio/positions?filter_by%5Bclosed%5D=false&include=ticker%2Cticker.sector%2Cticker.tickerMetrics%2Cticker.tickerMetrics.metricType&page%5Bsize%5D=1000&page%5Bnumber%5D=1&sort=undefined''"

definition get_sa_screener_result_tickers :: "'v sa_world \<Rightarrow> string \<Rightarrow> string list outcome" where
  "get_sa_screener_result_tickers w screener_request_body =
     bind_out (get_sa_url_json w url_screener_results True screener_request_body) (\<lambda>body_text.
       if body_text = [] then Inr []
       else case decode_screener w body_text of
           None \<Rightarrow> Inr []
         | Some resp \<Rightarrow> Inr (filter (\<lambda>t. t \<noteq> []) (map (\<lambda>s. stock_name (stock_attributes s)) (scr_data resp))))"

definition ticker_lookup_of :: "pqp_included_item list \<Rightarrow> string \<rightharpoonup> string" where
  "ticker_lookup_of included =
     insert_all (List.map_filter (\<lambda>item.
         if pii_type item \<noteq> ''ticker'' then None
         else case Option.bind (pii_attributes item) pia_name of
             None \<Rightarrow> None
           | Some name \<Rightarrow> if name = [] then None else Some (pii_id item, name)) included) Map.empty"

definition get_pqp_positions_tickers :: "'v sa_world \<Rightarrow> string list outcome" where
  "get_pqp_positions_tickers w =
     bind_out (get_sa_url_json w url_pqp_positions False []) (\<lambda>body_text.
       if body_text = [] then Inr []
       else case decode_positions w body_text of
           None \<Rightarrow> Inr []
         | Some resp \<Rightarrow> Inr (List.map_filter
             (\<lambda>pos. ticker_lookup_of (pp_included resp) (td_id (tickrel_data (rel_ticker (pos_relationships pos)))))
             (pp_data resp)))"

definition screener_payload :: string where
  "screener_payload = map (\<lambda>c. if c = CHR ''@'' then char_of (34::nat) else c)
     (concat [''{@filter@:{@quant_rating@:{@in@:[@strong_buy@]},@quant_rating_days@:{@in@:[{@gte@:25}]}},'',
       ''@page@:1,@per_page@:200,@sort@:null,@total_count@:true,@type@:@stock@}''])"

definition get_sa_candidate_tickers :: "'v sa_world \<Rightarrow> (string list \<times> string list) outcome" where
  "get_sa_candidate_tickers w =
     bind_out (get_sa_screener_result_tickers w screener_payload) (\<lambda>sa_screener_tickers_all.
       let top_half = take (length sa_screener_tickers_all div 2) sa_screener_tickers_all
       in bind_out (get_pqp_positions_tickers w) (\<lambda>pqp_positions_tickers.
            Inr (filter (\<lambda>t. t \<notin> set pqp_positions_tickers) top_half, [])))"

section \<open>What the events are\<close>

lemma portfhist_events_acc:
  "portfhist_events stocks target trs events =
     events @ List.map_filter (event_of_transaction stocks target) trs"
  by (induction trs arbitrary: events) (auto simp: List.map_filter_def split: option.splits)

lemma event_of_transaction_fields:
  assumes "event_of_transaction stocks target tr = Some ev"
  shows "transaction_id ev = tr_id tr" "action_date ev = target" "ta_action_date (tr_attributes tr) = target"
    "ta_rule (tr_attributes tr) \<noteq> Some ''rebalance''"
    "order_type_of_action (ta_action (tr_attributes tr)) = Some (ev_order_type ev)"
    "\<exists>st. stocks (td_id (tickrel_data (rel_ticker (tr_relationships tr)))) = Some st \<and>
       ev_ticker ev = stock_name (stock_attributes st)"
    "ev_price ev = ta_price (tr_attributes tr)" "ev_pos_market_value ev = F64_Fin 0"
  using assms by (auto simp: event_of_transaction_def split: if_splits option.splits)

lemma event_of_ticker_fields:
  assumes "event_of_ticker tags art dateonly d = Some ev"
  shows "transaction_id ev = art_id art" "action_date ev = dateonly" "ev_order_type ev = Buy" "rd_type d = ''tag''"
    "tags (rd_id d) = Some (ev_ticker ev, ev_company_name ev)" "CHR '':'' \<notin> set (ev_ticker ev)"
    "ev_price ev = None" "ev_pos_market_value ev = F64_Fin 0"
  using assms by (auto simp: event_of_ticker_def split: if_splits option.splits)

text \<open>The events of one article, and the test that its date can be cut out.\<close>

definition article_dated :: "article \<Rightarrow> bool" where
  "article_dated art \<longleftrightarrow> \<not> isl (str_slice_to 10 (publish_on (art_attributes art)))"

definition events_of_article :: "(string \<rightharpoonup> string \<times> string) \<Rightarrow> string \<Rightarrow> article \<Rightarrow> transaction_event list" where
  "events_of_article tags target art =
     (if take 10 (publish_on (art_attributes art)) = target
      then case primary_tickers (art_relationships art) of None \<Rightarrow> []
        | Some rel \<Rightarrow> List.map_filter (event_of_ticker tags art target) (ra_data rel)
      else [])"

lemma article_events_acc:
  "article_events tags target arts events =
     (case find (\<lambda>art. \<not> article_dated art) arts of
        None \<Rightarrow> Inr (events @ concat (map (events_of_article tags target) arts))
      | Some art \<Rightarrow> (case str_slice_to 10 (publish_on (art_attributes art)) of Inl e \<Rightarrow> Inl e | Inr _ \<Rightarrow> Inr []))"
proof (induction arts arbitrary: events)
  case (Cons art arts)
  show ?case
  proof (cases "str_slice_to 10 (publish_on (art_attributes art))")
    case (Inl e)
    then show ?thesis by (simp add: article_dated_def)
  next
    case (Inr d)
    then have "article_dated art" "d = take 10 (publish_on (art_attributes art))"
      by (auto simp: article_dated_def dest: str_slice_to_Inr)
    moreover have "events_of_article tags target art =
      (if d = target then case primary_tickers (art_relationships art) of None \<Rightarrow> []
        | Some rel \<Rightarrow> List.map_filter (event_of_ticker tags art d) (ra_data rel) else [])"
      using calculation(2) by (cases "d = target") (auto simp: events_of_article_def)
    ultimately show ?thesis
      using Inr Cons.IH by (simp split: option.split)
  qed
qed simp

lemma article_events_Inr:
  "article_events tags target arts [] = Inr evs \<longleftrightarrow>
     (\<forall>art \<in> set arts. article_dated art) \<and> evs = concat (map (events_of_article tags target) arts)"
proof (cases "find (\<lambda>art. \<not> article_dated art) arts")
  case None
  then have "\<forall>art \<in> set arts. article_dated art" by (simp add: find_None_iff)
  with None show ?thesis by (auto simp: article_events_acc)
next
  case (Some art)
  then have "\<not> article_dated art" "art \<in> set arts" by (auto simp: find_Some_iff)
  with Some show ?thesis by (auto simp: article_events_acc article_dated_def split: sum.splits)
qed

lemma article_events_never_hangs: "article_events tags target arts events \<noteq> Inl Hang"
  by (auto simp: article_events_acc str_slice_to_def split: option.splits sum.splits if_splits)

section \<open>Sites that answer\<close>

text \<open>A world in which every request is answered, or fails.\<close>

definition answering_world :: "'v sa_world \<Rightarrow> bool" where
  "answering_world w \<longleftrightarrow> (\<forall>url ck. http_get w url ck \<noteq> NoReply) \<and> (\<forall>url ck body. http_post w url ck body \<noteq> NoReply)"

lemma download_ends [ends_intros]: "answering_world w \<Longrightarrow> ends (download w url ck)"
  by (auto simp: download_def answering_world_def split: http_reply.split)

lemma save_ends [ends_intros]: "ends (save_response_file w f body)"
  by (simp add: save_response_file_def)

lemma sa_url_json_ends [ends_intros]: "answering_world w \<Longrightarrow> ends (get_sa_url_json w url post body)"
  by (auto simp: get_sa_url_json_def answering_world_def split: option.split http_reply.split)

lemma screener_ends [ends_intros]: "answering_world w \<Longrightarrow> ends (get_sa_screener_result_tickers w body)"
  by (auto simp: get_sa_screener_result_tickers_def intro!: ends_intros split: option.split)

lemma positions_end [ends_intros]: "answering_world w \<Longrightarrow> ends (get_pqp_positions_tickers w)"
  by (auto simp: get_pqp_positions_tickers_def intro!: ends_intros split: option.split)

lemma candidates_end [ends_intros]: "answering_world w \<Longrightarrow> ends (get_sa_candidate_tickers w)"
  by (auto simp: get_sa_candidate_tickers_def Let_def intro!: ends_intros)

lemma article_events_end [ends_intros]: "ends (article_events tags target arts events)"
  using article_events_never_hangs by (simp add: ends_def)

lemma analysis_ends [ends_intros]: "answering_world w \<Longrightarrow> ends (get_new_transactions_from_analysis_pqp w ck target)"
  by (auto simp: get_new_transactions_from_analysis_pqp_def intro!: ends_intros)

section \<open>Properties\<close>

text \<open>C38: The reading of an article page returns exactly when the first ten bytes of every article's date can be cut out
  (there are ten, and the cut is at a character), whether the article is of the target date or not. Then its events are, in the
  page's order, one buy for each primary ticker of each article of the target date that is a tag, is found in the lookup
  under a name and a company, and whose name has no colon, that is names no foreign listing.\<close>

theorem article_events_spec:
  "article_events tags target arts [] = Inr evs \<longleftrightarrow>
     list_all (\<lambda>art. let day = publish_on (art_attributes art)
       in 10 \<le> length day \<and> (length day = 10 \<or> \<not> is_utf8_cont (day ! 10))) arts \<and>
     evs = [\<lparr>transaction_id = art_id art, ev_order_type = Buy, action_date = target, ev_ticker = name,
         ev_company_name = company, starting_weight = None, new_weight = None, ev_price = None,
         ev_pos_weight = F64_Fin 0, ev_pos_market_value = F64_Fin 0\<rparr>.
       art \<leftarrow> arts, take 10 (publish_on (art_attributes art)) = target,
       Some rel \<leftarrow> [primary_tickers (art_relationships art)], d \<leftarrow> ra_data rel, rd_type d = ''tag'',
       Some (name, company) \<leftarrow> [tags (rd_id d)], CHR '':'' \<notin> set name]"
proof -
  have dated: "article_dated art \<longleftrightarrow> (let day = publish_on (art_attributes art)
      in 10 \<le> length day \<and> (length day = 10 \<or> \<not> is_utf8_cont (day ! 10)))" for art
    by (auto simp: article_dated_def str_slice_to_def Let_def)
  have ticker: "List.map_filter (event_of_ticker tags art target) ds =
      concat (map (\<lambda>d. if rd_type d = ''tag'' then concat (map (\<lambda>x. case x of None \<Rightarrow> [] | Some (name, company) \<Rightarrow>
        if CHR '':'' \<notin> set name then [\<lparr>transaction_id = art_id art, ev_order_type = Buy, action_date = target, ev_ticker = name,
         ev_company_name = company, starting_weight = None, new_weight = None, ev_price = None,
         ev_pos_weight = F64_Fin 0, ev_pos_market_value = F64_Fin 0\<rparr>] else []) [tags (rd_id d)]) else []) ds)" for art ds
    by (induction ds) (auto simp: event_of_ticker_def split: option.split)
  have "concat (map (events_of_article tags target) arts) = concat (map (\<lambda>art.
       if take 10 (publish_on (art_attributes art)) = target
       then concat (map (\<lambda>x. case x of None \<Rightarrow> [] | Some rel \<Rightarrow> List.map_filter (event_of_ticker tags art target) (ra_data rel))
         [primary_tickers (art_relationships art)]) else []) arts)"
    by (intro arg_cong [where f = concat] map_cong) (auto simp: events_of_article_def split: option.split)
  note flat = this [unfolded ticker]
  show ?thesis unfolding article_events_Inr flat list_all_iff dated [symmetric] by (rule refl)
qed


text \<open>Two tickers, the second listed in Toronto.\<close>

theorem article_events_spec_witness:
  "article_events [''9'' \<mapsto> (''A'', ''Agilent''), ''8'' \<mapsto> (''TSX:B'', ''Barrick'')] ''2025-06-16''
     [\<lparr>art_id = ''2'', art_type = ''article'', art_attributes = \<lparr>publish_on = ''2025-06-16T12:00'', title = ''Pick''\<rparr>,
       art_relationships = \<lparr>primary_tickers = Some \<lparr>ra_data = [\<lparr>rd_id = ''9'', rd_type = ''tag''\<rparr>, \<lparr>rd_id = ''8'', rd_type = ''tag''\<rparr>]\<rparr>\<rparr>\<rparr>] [] =
     Inr [\<lparr>transaction_id = ''2'', ev_order_type = Buy, action_date = ''2025-06-16'', ev_ticker = ''A'', ev_company_name = ''Agilent'',
       starting_weight = None, new_weight = None, ev_price = None, ev_pos_weight = F64_Fin 0, ev_pos_market_value = F64_Fin 0\<rparr>]"
  unfolding article_events_spec by (simp add: is_utf8_cont_def)

text \<open>The buy candidates are the upper half of the screener's tickers,
  in the screener's order, without those already held; a failed, empty or undecodable page counts as
  an empty list, and there are never any sell candidates.\<close>

theorem candidate_tickers_spec:
  "get_sa_candidate_tickers w = Inr (buys, sells) \<longleftrightarrow>
     sells = [] \<and> (\<exists>all held. get_sa_screener_result_tickers w screener_payload = Inr all \<and>
       get_pqp_positions_tickers w = Inr held \<and>
       buys = filter (\<lambda>t. t \<notin> set held) (take (length all div 2) all))"
  by (auto simp: get_sa_candidate_tickers_def outcome_simps Let_def)

lemma sa_url_json_no_panic: "get_sa_url_json w url post body \<noteq> Inl (Panic m)"
  by (auto simp: get_sa_url_json_def split: option.splits http_reply.splits)

lemma screener_no_panic: "get_sa_screener_result_tickers w body \<noteq> Inl (Panic m)"
  by (auto simp: get_sa_screener_result_tickers_def outcome_simps sa_url_json_no_panic split: option.splits)

lemma screener_nonempty:
  "get_sa_screener_result_tickers w body = Inr ts \<Longrightarrow> t \<in> set ts \<Longrightarrow> t \<noteq> []"
  by (auto simp: get_sa_screener_result_tickers_def outcome_simps split: if_splits option.splits)

lemma positions_no_panic: "get_pqp_positions_tickers w \<noteq> Inl (Panic m)"
  by (auto simp: get_pqp_positions_tickers_def outcome_simps sa_url_json_no_panic split: option.splits)

text \<open>The candidates' pages never panic: where the server answers at
  all, whatever it answers, the candidates are found, they are at most half the screener's tickers and
  none of them is empty or held.\<close>

theorem candidate_tickers_total:
  "(\<exists>all held. get_sa_screener_result_tickers w screener_payload = Inr all \<and> get_pqp_positions_tickers w = Inr held \<and>
     (\<exists>buys. get_sa_candidate_tickers w = Inr (buys, []) \<and> length buys \<le> length all div 2 \<and>
        set buys \<inter> set held = {} \<and> [] \<notin> set buys)) \<or>
   get_sa_candidate_tickers w = Inl Hang"
proof (cases "get_sa_candidate_tickers w")
  case (Inl e)
  then show ?thesis
    by (cases e) (auto simp: get_sa_candidate_tickers_def outcome_simps Let_def screener_no_panic positions_no_panic)
next
  case (Inr r)
  then obtain all held where h: "get_sa_screener_result_tickers w screener_payload = Inr all"
    "get_pqp_positions_tickers w = Inr held"
    "get_sa_candidate_tickers w = Inr (filter (\<lambda>t. t \<notin> set held) (take (length all div 2) all), [])"
    by (auto simp: get_sa_candidate_tickers_def outcome_simps Let_def)
  have "length (filter (\<lambda>t. t \<notin> set held) (take (length all div 2) all)) \<le> length all div 2"
    by (rule order_trans [OF length_filter_le]) simp
  with h screener_nonempty [OF h(1)] show ?thesis by (auto dest: in_set_takeD)
qed

end
