(* ===== verification/RoboTrader.thy ===== *)
theory RoboTrader
  imports Brokers
begin

text \<open>
  \<open>rqcoresrv/src/robotrader/robotrader.rs\<close>: the table of executions by broker client, and the
  placement of a strategy's orders through the brokers' watcher.
\<close>

type_synonym ('e, 'r) robo_trader = "broker_client \<rightharpoonup> 'e list \<times> 'r list"

definition robo_trader_new :: "('e, 'r) robo_trader" where
  "robo_trader_new = Map.empty"

definition refresh_executions ::
  "('c, 'e, 'r) ib_api \<Rightarrow> 'c gateways \<Rightarrow> ('e, 'r) robo_trader \<Rightarrow> ('e, 'r) robo_trader" where
  "refresh_executions api gws order_executions =
     (let order_executions = Map.empty;
          order_executions = order_executions(DcMain \<mapsto> get_order_executions api gws DcMain);
          order_executions = order_executions(DcBlanzac \<mapsto> get_order_executions api gws DcBlanzac)
      in order_executions(Gyantal \<mapsto> get_order_executions api gws Gyantal))"

definition robo_trader_init ::
  "('c, 'e, 'r) ib_api \<Rightarrow> 'c gateways \<Rightarrow> ('e, 'r) robo_trader \<Rightarrow> ('e, 'r) robo_trader" where
  "robo_trader_init api gws order_executions = refresh_executions api gws order_executions"

definition robo_place_orders ::
  "('c, 'e, 'r) ib_api \<Rightarrow> 'c gateways \<Rightarrow> mark_value_cache \<Rightarrow> string \<Rightarrow> rq_order list \<Rightarrow> bool \<Rightarrow> 'c trade_io
    \<Rightarrow> unit outcome \<times> 'c trade_io" where
  "robo_place_orders api gws cache strategy_name orders is_simulation io =
     (if orders = [] then (Inr (), io)
      else place_orders api gws cache orders is_simulation io)"

lemma robo_place_orders_eq [simp]:
  "robo_place_orders api gws cache name orders sim io = place_orders api gws cache orders sim io"
  by (simp add: robo_place_orders_def place_orders_def)

text \<open>A refresh forgets what the table held and leaves the current
  executions of every broker client in it, connected or not.\<close>

theorem refresh_executions_total:
  "robo_trader_init api gws m b = Some (get_order_executions api gws b)"
  by (cases b) (simp_all add: robo_trader_init_def refresh_executions_def Let_def)

end
