(* ===== verification/FastRunner.thy ===== *)
theory FastRunner
  imports SaData RoboTrader
begin

text \<open>
  \<open>rqcoresrv/src/robotrader/fast_runner.rs\<close>: the state of a FastRunner, its dates and portfolio
  values, the download of new transactions, the sizing of the positions and one iteration of the
  trading loop of each strategy. An operation that may panic is a pair of its outcome and the state
  it leaves.
\<close>

section \<open>State\<close>

record fast_runner =
  is_simulation :: bool
  loop_sleep_ms_simulation :: nat
  loop_sleep_ms_realtrading :: nat
  has_trading_ever_started :: bool
  cookies :: "string option"
  cookies_file_last_modtime :: "instant option"
  m_is_cookies_surely_working :: bool
  pqp_json_target_date_str :: string
  pqp_is_run_today :: bool
  ap_json_target_date_str :: string
  ap_is_run_today :: bool
  pqp_buy_pv :: f64
  pqp_sell_pv :: f64
  ap_buy_pv :: f64
  fr_user_log :: "log_line list"

definition fast_runner_new :: fast_runner where
  "fast_runner_new = \<lparr>is_simulation = True, loop_sleep_ms_simulation = 3750, loop_sleep_ms_realtrading = 0,
     has_trading_ever_started = False, cookies = None, cookies_file_last_modtime = None,
     m_is_cookies_surely_working = False, pqp_json_target_date_str = [], pqp_is_run_today = False,
     ap_json_target_date_str = [], ap_is_run_today = False, pqp_buy_pv = F64_Fin 50000,
     pqp_sell_pv = F64_Fin 30000, ap_buy_pv = F64_Fin 50000, fr_user_log = []\<rparr>"

definition fr_log :: "log_line \<Rightarrow> fast_runner \<Rightarrow> fast_runner" where
  "fr_log l fr = fr\<lparr>fr_user_log := fr_user_log fr @ [l]\<rparr>"

section \<open>Dates and portfolio values\<close>

definition ap_virtual_rebalance_date :: "chrono \<Rightarrow> date \<Rightarrow> date outcome" where
  "ap_virtual_rebalance_date C now_utc =
     (if day_of_month C now_utc \<ge> 15 then expect (with_day C now_utc 15) ''called Option::unwrap() on a None value''
      else expect (with_day C now_utc 1) ''called Option::unwrap() on a None value'')"

definition ap_real_rebalance_date :: "chrono \<Rightarrow> date \<Rightarrow> date" where
  "ap_real_rebalance_date C v =
     (if num_days_from_monday C v = 5 then v + 2
      else if num_days_from_monday C v = 6 then v + 1
      else v)"

definition set_pvs :: "f64 \<Rightarrow> f64 \<Rightarrow> f64 \<Rightarrow> fast_runner \<Rightarrow> fast_runner" where
  "set_pvs buy sell ap fr = fr\<lparr>pqp_buy_pv := buy, pqp_sell_pv := sell, ap_buy_pv := ap\<rparr>"

definition pqp_ap_calculate_dates_and_pv :: "chrono \<Rightarrow> date \<Rightarrow> fast_runner \<Rightarrow> unit outcome \<times> fast_runner" where
  "pqp_ap_calculate_dates_and_pv C now_utc fr =
     (let pqp_days_to_subtract = int (num_days_from_monday C now_utc);
          pqp_virtual = now_utc - pqp_days_to_subtract;
          pqp_real = pqp_virtual;
          fr = fr\<lparr>pqp_json_target_date_str := format_ymd C pqp_real\<rparr>;
          fr = fr\<lparr>pqp_is_run_today := (now_utc = pqp_real)\<rparr>
      in case ap_virtual_rebalance_date C now_utc of
           Inl e \<Rightarrow> (Inl e, fr)
         | Inr ap_virtual \<Rightarrow>
             (let ap_real = ap_real_rebalance_date C ap_virtual;
                  fr = fr\<lparr>ap_json_target_date_str := format_ymd C ap_real\<rparr>;
                  fr = fr\<lparr>ap_is_run_today := (now_utc = ap_real)\<rparr>;
                  fr = (if pqp_is_run_today fr \<and> ap_is_run_today fr then
                          set_pvs (F64_Fin 70000) (F64_Fin 60000) (F64_Fin 70000) fr
                        else if pqp_is_run_today fr then
                          set_pvs (F64_Fin 140000) (F64_Fin 60000) (F64_Fin 0) fr
                        else if ap_is_run_today fr then
                          set_pvs (F64_Fin 0) (F64_Fin 0) (F64_Fin 200000) fr
                        else set_pvs (F64_Fin 0) (F64_Fin 0) (F64_Fin 0) fr)
              in (Inr (), fr_log (LogDates pqp_virtual pqp_real (pqp_is_run_today fr) ap_virtual ap_real
                   (ap_is_run_today fr) (pqp_buy_pv fr) (pqp_sell_pv fr) (ap_buy_pv fr)) fr)))"

text \<open>\<open>dir_ok\<close>: the data directory exists or can be created.\<close>

definition fast_runner_init :: "chrono \<Rightarrow> date \<Rightarrow> bool \<Rightarrow> fast_runner \<Rightarrow> unit outcome \<times> fast_runner" where
  "fast_runner_init C now_utc dir_ok fr =
     (case pqp_ap_calculate_dates_and_pv C now_utc fr of
        (Inl e, fr) \<Rightarrow> (Inl e, fr)
      | (Inr _, fr) \<Rightarrow> (if dir_ok then Inr () else Inl (Panic ''create_dir_all() failed!''), fr))"

section \<open>Cookies\<close>

definition ensure_cookies_loaded :: "'v sa_world \<Rightarrow> fast_runner \<Rightarrow> unit outcome \<times> fast_runner" where
  "ensure_cookies_loaded w fr =
     (if m_is_cookies_surely_working fr then (Inr (), fr)
      else case cookies_modtime w of
          None \<Rightarrow> (Inl (Panic ''metadata() failed for cookies file''), fr)
        | Some file_modified_time \<Rightarrow>
            (let need_reload = (cookies fr = None \<or>
               (case cookies_file_last_modtime fr of Some t \<Rightarrow> t \<noteq> file_modified_time | None \<Rightarrow> True))
             in if need_reload then
                  (case cookies_content w of
                     None \<Rightarrow> (Inl (Panic ''read_to_string() failed!''), fr)
                   | Some content \<Rightarrow> (Inr (), fr\<lparr>cookies := Some (trim content),
                       cookies_file_last_modtime := Some file_modified_time\<rparr>))
                else (Inr (), fr)))"

section \<open>New transactions\<close>

text \<open>The part after the body of the history page is there; \<open>analysis\<close> is the joined task.\<close>

definition transactions_of_history ::
  "'v sa_world \<Rightarrow> (string \<times> transaction_event list) outcome \<Rightarrow> string \<Rightarrow> fast_runner
    \<Rightarrow> (string \<times> transaction_event list) outcome \<times> fast_runner" where
  "transactions_of_history w analysis body_text fr =
     (if length body_text < 1000 \<and> str_contains ''Subscription is required'' body_text then
        (Inr (pqp_json_target_date_str fr, []), fr_log LogNoPermission fr)
      else if length body_text < 1000 \<and> str_contains ''captcha.js'' body_text then
        (Inr (pqp_json_target_date_str fr, []), fr_log LogCaptcha fr)
      else case decode_portfhist w body_text of
          None \<Rightarrow> (Inl (Panic ''serde_json::from_str() failed!''), fr)
        | Some resp \<Rightarrow>
            (let transactions = ph_data resp;
                 fr = (if transactions \<noteq> [] then fr\<lparr>m_is_cookies_surely_working := True\<rparr> else fr);
                 stocks = stocks_of (ph_included resp);
                 fr = fr_log (LogFound (length transactions) (length (remdups (map stock_id (ph_included resp))))) fr;
                 events = portfhist_events stocks (pqp_json_target_date_str fr) transactions []
             in if events = [] then
                  (case analysis of
                     Inr result \<Rightarrow> (Inr result, fr)
                   | Inl Hang \<Rightarrow> (Inl Hang, fr)
                   | Inl (Panic _) \<Rightarrow> (Inr (pqp_json_target_date_str fr, events), fr))
                else (Inr (pqp_json_target_date_str fr, events), fr)))"

definition get_new_transactions_pqp ::
  "'v sa_world \<Rightarrow> fast_runner \<Rightarrow> (string \<times> transaction_event list) outcome \<times> fast_runner" where
  "get_new_transactions_pqp w fr =
     (case ensure_cookies_loaded w fr of
        (Inl e, fr) \<Rightarrow> (Inl e, fr)
      | (Inr _, fr) \<Rightarrow>
          (let fr = fr\<lparr>m_is_cookies_surely_working := False\<rparr>
           in case expect (cookies fr) ''cookies not initialized'' of
                Inl e \<Rightarrow> (Inl e, fr)
              | Inr ck \<Rightarrow>
                  (let analysis = get_new_transactions_from_analysis_pqp w ck (pqp_json_target_date_str fr)
                   in case bind_out (download w url_pqp_portfolio_history ck) (\<lambda>body_text.
                        bind_out (save_response_file w ''fast_run_pqp_portfhist_src'' body_text) (\<lambda>_. Inr body_text)) of
                        Inl e \<Rightarrow> (Inl e, fr)
                      | Inr body_text \<Rightarrow> transactions_of_history w analysis body_text fr)))"

definition transactions_of_articles ::
  "'v sa_world \<Rightarrow> string \<Rightarrow> fast_runner \<Rightarrow> (string \<times> transaction_event list) outcome \<times> fast_runner" where
  "transactions_of_articles w body_text fr =
     (if \<not> str_contains not_paywalled body_text then (Inr (ap_json_target_date_str fr, []), fr)
      else if str_contains ''captcha.js'' body_text then (Inr (ap_json_target_date_str fr, []), fr)
      else case decode_analysis w body_text of
          None \<Rightarrow> (Inl (Panic ''serde_json::from_str() failed for AnalysisResponse!''), fr)
        | Some resp \<Rightarrow>
            (let tag_lookup = tag_lookup_of (decode_tag w) (an_included resp);
                 fr = (if tag_entries_of (decode_tag w) (an_included resp) \<noteq> [] then fr\<lparr>m_is_cookies_surely_working := True\<rparr> else fr)
             in case article_events tag_lookup (ap_json_target_date_str fr) (an_data resp) [] of
                  Inl e \<Rightarrow> (Inl e, fr)
                | Inr events \<Rightarrow> (Inr (ap_json_target_date_str fr, events), fr)))"

definition get_new_transactions_ap ::
  "'v sa_world \<Rightarrow> fast_runner \<Rightarrow> (string \<times> transaction_event list) outcome \<times> fast_runner" where
  "get_new_transactions_ap w fr =
     (case ensure_cookies_loaded w fr of
        (Inl e, fr) \<Rightarrow> (Inl e, fr)
      | (Inr _, fr) \<Rightarrow>
          (let fr = fr\<lparr>m_is_cookies_surely_working := False\<rparr>
           in case bind_out (expect (cookies fr) ''cookies not initialized'') (\<lambda>ck.
                bind_out (download w url_ap_analysis ck) (\<lambda>body_text.
                bind_out (save_response_file w ''fast_run_ap_src'' body_text) (\<lambda>_. Inr body_text))) of
                Inl e \<Rightarrow> (Inl e, fr)
              | Inr body_text \<Rightarrow> transactions_of_articles w body_text fr))"

section \<open>Sizes\<close>

definition count_order_types :: "transaction_event list \<Rightarrow> nat \<times> nat" where
  "count_order_types events =
     (length (filter (\<lambda>ev. ev_order_type ev = Buy) events), length (filter (\<lambda>ev. ev_order_type ev = Sell) events))"

definition determine_position_market_values_pqp_gyantal ::
  "fast_runner \<Rightarrow> transaction_event list \<Rightarrow> transaction_event list" where
  "determine_position_market_values_pqp_gyantal fr events =
     (let (buy_count, sell_count) = count_order_types events;
          buy_value = (if buy_count > 0 then pqp_buy_pv fr / f64_of_nat buy_count else F64_Fin 0);
          sell_value = (if sell_count > 0 then pqp_sell_pv fr / f64_of_nat sell_count else F64_Fin 0)
      in map (\<lambda>ev. ev\<lparr>ev_pos_market_value :=
           (case ev_order_type ev of Buy \<Rightarrow> buy_value | Sell \<Rightarrow> sell_value)\<rparr>) events)"

definition determine_position_market_values_ap_gyantal ::
  "fast_runner \<Rightarrow> transaction_event list \<Rightarrow> transaction_event list" where
  "determine_position_market_values_ap_gyantal fr events =
     (let (buy_count, _) = count_order_types events;
          buy_value = (if buy_count > 0 then ap_buy_pv fr / f64_of_nat buy_count else F64_Fin 0)
      in map (\<lambda>ev. ev\<lparr>ev_pos_market_value :=
           (case ev_order_type ev of Buy \<Rightarrow> buy_value | Sell \<Rightarrow> F64_Fin 0)\<rparr>) events)"

definition build_rqorders :: "transaction_event list \<Rightarrow> rq_order list" where
  "build_rqorders events =
     map (\<lambda>ev. \<lparr>order_type = ev_order_type ev, ticker = ev_ticker ev, company_name = ev_company_name ev,
       pos_market_value = ev_pos_market_value ev, known_last_price = Option.bind (ev_price ev) parse_f64\<rparr>) events"

section \<open>One iteration of a trading loop\<close>

text \<open>The user log and the submissions so far go into the placement and come back out of it.\<close>

definition fr_place_orders ::
  "('c, 'e, 'r) ib_api \<Rightarrow> 'c gateways \<Rightarrow> mark_value_cache \<Rightarrow> string \<Rightarrow> rq_order list \<Rightarrow> fast_runner
    \<Rightarrow> 'c submission list \<Rightarrow> unit outcome \<times> fast_runner \<times> 'c submission list" where
  "fr_place_orders api gws cache strategy_name orders fr subs =
     (let (r, io) = robo_place_orders api gws cache strategy_name orders (is_simulation fr)
            \<lparr>submissions = subs, user_log = fr_user_log fr\<rparr>
      in (r, fr\<lparr>fr_user_log := user_log io\<rparr>, submissions io))"

definition fastrunning_loop_pqp_impl ::
  "('c, 'e, 'r) ib_api \<Rightarrow> 'c gateways \<Rightarrow> mark_value_cache \<Rightarrow> 'v sa_world \<Rightarrow> fast_runner
    \<Rightarrow> 'c submission list \<Rightarrow> unit outcome \<times> fast_runner \<times> 'c submission list" where
  "fastrunning_loop_pqp_impl api gws cache w fr subs =
     (case get_new_transactions_pqp w fr of
        (Inl e, fr) \<Rightarrow> (Inl e, fr, subs)
      | (Inr (target_action_date, events), fr) \<Rightarrow>
          (let num_new_events = length events
           in if num_new_events = 0 then (Inr (), fr_log (LogNoEvents target_action_date) fr, subs)
              else if num_new_events > 14 then (Inr (), fr_log (LogTooManyEvents ''14'' num_new_events) fr, subs)
              else
                (let events = determine_position_market_values_pqp_gyantal fr events;
                     rqorders = build_rqorders events
                 in if has_trading_ever_started fr then (Inr (), fr, subs)
                    else fr_place_orders api gws cache ''SA_PQP'' rqorders
                           (fr\<lparr>has_trading_ever_started := True\<rparr>) subs)))"

definition fastrunning_loop_ap_impl ::
  "('c, 'e, 'r) ib_api \<Rightarrow> 'c gateways \<Rightarrow> mark_value_cache \<Rightarrow> 'v sa_world \<Rightarrow> fast_runner
    \<Rightarrow> 'c submission list \<Rightarrow> unit outcome \<times> fast_runner \<times> 'c submission list" where
  "fastrunning_loop_ap_impl api gws cache w fr subs =
     (case get_new_transactions_ap w fr of
        (Inl e, fr) \<Rightarrow> (Inl e, fr, subs)
      | (Inr (target_action_date, events), fr) \<Rightarrow>
          (let num_new_events = length events
           in if num_new_events = 0 then (Inr (), fr_log (LogNoEvents target_action_date) fr, subs)
              else if num_new_events > 2 then (Inr (), fr_log (LogTooManyEvents ''1-2'' num_new_events) fr, subs)
              else
                (let events = determine_position_market_values_ap_gyantal fr events;
                     rqorders = build_rqorders events
                 in if has_trading_ever_started fr then (Inr (), fr, subs)
                    else fr_place_orders api gws cache ''SA_AP'' rqorders
                           (fr\<lparr>has_trading_ever_started := True\<rparr>) subs)))"

section \<open>Dates\<close>

context chrono_laws
begin

lemma ap_virtual_eq:
  "ap_virtual_rebalance_date C d =
     Inr (d - int (day_of_month C d) + (if 15 \<le> day_of_month C d then 15 else 1))"
  using with_day_back [of 15 d] with_day_back [of 1 d] day_pos [of d]
  by (simp add: ap_virtual_rebalance_date_def)

lemma dates_and_pv_eq:
  "pqp_ap_calculate_dates_and_pv C now fr =
     (let monday = now - int (num_days_from_monday C now);
          v = now - int (day_of_month C now) + (if 15 \<le> day_of_month C now then 15 else 1);
          ap = ap_real_rebalance_date C v;
          pv = (if now = monday \<and> now = ap then (70000, 60000, 70000)
                else if now = monday then (140000, 60000, 0)
                else if now = ap then (0, 0, 200000) else (0, 0, 0))
      in (Inr (), fr_log (LogDates monday monday (now = monday) v ap (now = ap)
             (F64_Fin (fst pv)) (F64_Fin (fst (snd pv))) (F64_Fin (snd (snd pv))))
           (fr\<lparr>pqp_json_target_date_str := format_ymd C monday, pqp_is_run_today := (now = monday),
             ap_json_target_date_str := format_ymd C ap, ap_is_run_today := (now = ap),
             pqp_buy_pv := F64_Fin (fst pv), pqp_sell_pv := F64_Fin (fst (snd pv)),
             ap_buy_pv := F64_Fin (snd (snd pv))\<rparr>)))"
  by (simp add: pqp_ap_calculate_dates_and_pv_def ap_virtual_eq set_pvs_def Let_def fr_log_def)

lemma ap_run_iff:
  assumes "v = d - int (day_of_month C d) + (if 15 \<le> day_of_month C d then 15 else 1)"
  shows "d = ap_real_rebalance_date C v \<longleftrightarrow>
     (num_days_from_monday C d < 5 \<and> day_of_month C d \<in> {1, 15}) \<or>
     (num_days_from_monday C d = 0 \<and> day_of_month C d \<in> {2, 3, 16, 17})"
proof -
  define k where "k = day_of_month C d - (if 15 \<le> day_of_month C d then 15 else 1)"
  have v: "v = d - int k" using day_pos [of d] by (auto simp: assms k_def)
  have w: "num_days_from_monday C d = (num_days_from_monday C v + k) mod 7"
    using weekday_back [of d k "num_days_from_monday C v"] by (simp add: v)
  have "d = ap_real_rebalance_date C v \<longleftrightarrow>
      (k = 0 \<and> num_days_from_monday C d < 5) \<or> (k \<in> {1, 2} \<and> num_days_from_monday C d = 0)"
  proof -
    define n where "n = num_days_from_monday C v"
    have "n = 0 \<or> n = 1 \<or> n = 2 \<or> n = 3 \<or> n = 4 \<or> n = 5 \<or> n = 6"
      using weekday_lt [of v] by (auto simp: n_def)
    moreover have "d = ap_real_rebalance_date C v \<longleftrightarrow> k = (if n = 5 then 2 else if n = 6 then 1 else 0)"
      unfolding ap_real_rebalance_date_def n_def v by auto
    ultimately show ?thesis unfolding w n_def [symmetric] by (elim disjE) (auto simp: dvd_eq_mod_eq_0)
  qed
  moreover have "k = 0 \<longleftrightarrow> day_of_month C d \<in> {1, 15}" "k \<in> {1, 2} \<longleftrightarrow> day_of_month C d \<in> {2, 3, 16, 17}"
    using day_pos [of d] by (auto simp: k_def)
  ultimately show ?thesis by auto
qed

end

text \<open>On every calendar day the dates are found without a panic; the PQP
  target date is the Monday on or last before today, at most six days back, and PQP runs today
  exactly when today is that Monday.\<close>

theorem pqp_dates_monday:
  assumes "chrono_laws C"
  shows "fst (pqp_ap_calculate_dates_and_pv C now fr) = Inr () \<and>
    (\<exists>d. num_days_from_monday C d = 0 \<and> d \<le> now \<and> now \<le> d + 6 \<and>
       pqp_json_target_date_str (snd (pqp_ap_calculate_dates_and_pv C now fr)) = format_ymd C d) \<and>
    (pqp_is_run_today (snd (pqp_ap_calculate_dates_and_pv C now fr)) \<longleftrightarrow> num_days_from_monday C now = 0)"
proof -
  let ?m = "now - int (num_days_from_monday C now)"
  have "num_days_from_monday C ?m = 0" "num_days_from_monday C now < 7"
    using chrono_laws.weekday_of_monday [OF assms] chrono_laws.weekday_lt [OF assms] by auto
  then show ?thesis
    by (auto simp: chrono_laws.dates_and_pv_eq [OF assms] Let_def fr_log_def intro!: exI [of _ ?m])
qed

theorem pqp_dates_monday_witness:
  "pqp_is_run_today (snd (pqp_ap_calculate_dates_and_pv gregorian 20241 fast_runner_new))"
  using pqp_dates_monday [OF gregorian_laws.chrono_laws_axioms, of 20241 fast_runner_new]
  by (simp add: gregorian_def)

text \<open>C37: AP runs today exactly on a weekday that is the 1st or the 15th, or on a
  Monday that is the 2nd, 3rd, 16th or 17th, that is on the first weekday from the 1st or 15th on.\<close>

theorem ap_run_days:
  assumes "chrono_laws C"
  shows "ap_is_run_today (snd (pqp_ap_calculate_dates_and_pv C now fr)) \<longleftrightarrow>
    (num_days_from_monday C now < 5 \<and> day_of_month C now \<in> {1, 15}) \<or>
    (num_days_from_monday C now = 0 \<and> day_of_month C now \<in> {2, 3, 16, 17})"
  using chrono_laws.ap_run_iff [OF assms refl, of now]
  by (simp add: chrono_laws.dates_and_pv_eq [OF assms] Let_def fr_log_def)

text \<open>2025-06-16 was a Monday.\<close>

theorem ap_run_days_witness:
  "ap_is_run_today (snd (pqp_ap_calculate_dates_and_pv gregorian 20255 fast_runner_new))"
proof -
  have "num_days_from_monday gregorian 20255 = 0" "day_of_month gregorian 20255 = 16" by code_simp+
  then show ?thesis using ap_run_days [OF gregorian_laws.chrono_laws_axioms, of 20255 fast_runner_new] by simp
qed

text \<open>Over the two strategies the portfolio values add up to 200000 dollars on a day
  on which one of them runs, and to nothing on the others; a strategy that does not run has none.\<close>

theorem pv_total:
  assumes "chrono_laws C" and "pqp_ap_calculate_dates_and_pv C now fr = (r, fr')"
  shows "\<exists>b s a. pqp_buy_pv fr' = F64_Fin b \<and> pqp_sell_pv fr' = F64_Fin s \<and> ap_buy_pv fr' = F64_Fin a \<and>
    0 \<le> b \<and> 0 \<le> s \<and> 0 \<le> a \<and>
    b + s + a = (if pqp_is_run_today fr' \<or> ap_is_run_today fr' then 200000 else 0) \<and>
    (\<not> pqp_is_run_today fr' \<longrightarrow> b = 0 \<and> s = 0) \<and> (\<not> ap_is_run_today fr' \<longrightarrow> a = 0)"
  using assms(2) by (auto simp: chrono_laws.dates_and_pv_eq [OF assms(1)] Let_def fr_log_def)

theorem pv_total_witness:
  "\<exists>b s a. pqp_buy_pv (snd (pqp_ap_calculate_dates_and_pv gregorian 20241 fast_runner_new)) = F64_Fin b \<and>
     pqp_sell_pv (snd (pqp_ap_calculate_dates_and_pv gregorian 20241 fast_runner_new)) = F64_Fin s \<and>
     ap_buy_pv (snd (pqp_ap_calculate_dates_and_pv gregorian 20241 fast_runner_new)) = F64_Fin a \<and> b + s + a \<le> 200000"
proof -
  obtain r fr' where e: "pqp_ap_calculate_dates_and_pv gregorian 20241 fast_runner_new = (r, fr')" by fastforce
  from pv_total [OF gregorian_laws.chrono_laws_axioms e] obtain b s a where
    "pqp_buy_pv fr' = F64_Fin b" "pqp_sell_pv fr' = F64_Fin s" "ap_buy_pv fr' = F64_Fin a"
    "b + s + a = (if pqp_is_run_today fr' \<or> ap_is_run_today fr' then 200000 else 0)" by blast
  then show ?thesis by (auto simp: e split: if_splits)
qed

section \<open>Cookies and downloads\<close>

text \<open>The cookies and their time are loaded together, and known to work only when loaded.\<close>

definition fr_inv :: "fast_runner \<Rightarrow> bool" where
  "fr_inv fr \<longleftrightarrow> (cookies fr = None \<longleftrightarrow> cookies_file_last_modtime fr = None) \<and>
     (m_is_cookies_surely_working fr \<longrightarrow> cookies fr \<noteq> None)"

lemma fr_inv_new: "fr_inv fast_runner_new"
  by (simp add: fr_inv_def fast_runner_new_def)

lemma fr_log_fields [simp]:
  "is_simulation (fr_log l fr) = is_simulation fr" "cookies (fr_log l fr) = cookies fr"
  "has_trading_ever_started (fr_log l fr) = has_trading_ever_started fr"
  "cookies_file_last_modtime (fr_log l fr) = cookies_file_last_modtime fr"
  "m_is_cookies_surely_working (fr_log l fr) = m_is_cookies_surely_working fr"
  "pqp_json_target_date_str (fr_log l fr) = pqp_json_target_date_str fr"
  "ap_json_target_date_str (fr_log l fr) = ap_json_target_date_str fr"
  "pqp_buy_pv (fr_log l fr) = pqp_buy_pv fr" "pqp_sell_pv (fr_log l fr) = pqp_sell_pv fr"
  "ap_buy_pv (fr_log l fr) = ap_buy_pv fr"
  by (simp_all add: fr_log_def)

text \<open>What a download leaves as it is: everything but the cookies and the log.\<close>

definition same_plan :: "fast_runner \<Rightarrow> fast_runner \<Rightarrow> bool" where
  "same_plan fr fr' \<longleftrightarrow> is_simulation fr' = is_simulation fr \<and>
     has_trading_ever_started fr' = has_trading_ever_started fr \<and>
     pqp_json_target_date_str fr' = pqp_json_target_date_str fr \<and>
     ap_json_target_date_str fr' = ap_json_target_date_str fr \<and>
     pqp_buy_pv fr' = pqp_buy_pv fr \<and> pqp_sell_pv fr' = pqp_sell_pv fr \<and> ap_buy_pv fr' = ap_buy_pv fr"

lemma same_plan_refl [simp]: "same_plan fr fr" by (simp add: same_plan_def)

lemma same_plan_trans: "same_plan a b \<Longrightarrow> same_plan b c \<Longrightarrow> same_plan a c"
  by (simp add: same_plan_def)

lemma ensure_cookies:
  assumes "ensure_cookies_loaded w fr = (r, fr')" and "fr_inv fr"
  shows "fr_inv fr' \<and> same_plan fr fr' \<and> (\<not> isl r \<longrightarrow> cookies fr' \<noteq> None)"
  using assms
  by (auto simp: ensure_cookies_loaded_def fr_inv_def same_plan_def Let_def split: if_splits option.splits)

lemma transactions_of_history_plan:
  assumes "transactions_of_history w an body fr = (r, fr')"
  shows "same_plan fr fr' \<and> cookies fr' = cookies fr \<and> cookies_file_last_modtime fr' = cookies_file_last_modtime fr"
  using assms
  by (auto simp: transactions_of_history_def same_plan_def Let_def
      split: if_splits option.splits sum.splits abnormal.splits)

lemma transactions_of_articles_plan:
  assumes "transactions_of_articles w body fr = (r, fr')"
  shows "same_plan fr fr' \<and> cookies fr' = cookies fr \<and> cookies_file_last_modtime fr' = cookies_file_last_modtime fr"
  using assms
  by (auto simp: transactions_of_articles_def same_plan_def Let_def split: if_splits option.splits sum.splits)

lemma same_plan_unsure_right: "same_plan fr fr1 \<Longrightarrow> same_plan fr (fr1\<lparr>m_is_cookies_surely_working := b\<rparr>)"
  by (simp add: same_plan_def)

abbreviation cookies_missing :: abnormal where
  "cookies_missing \<equiv> Panic ''cookies not initialized''"

lemma fetch_not_missing:
  "bind_out (download w url ck) (\<lambda>b. bind_out (save_response_file w f b) (\<lambda>_. Inr b)) \<noteq> Inl cookies_missing"
  by (auto simp: download_def save_response_file_def split: http_reply.splits)

lemma get_pqp_cases:
  assumes "get_new_transactions_pqp w fr = (r, fr')" and "fr_inv fr"
  obtains (failed) e fr1 where "r = Inl e" "e \<noteq> cookies_missing" "fr_inv fr1" "same_plan fr fr1"
        "fr' = fr1 \<or> fr' = fr1\<lparr>m_is_cookies_surely_working := False\<rparr>"
    | (body) fr1 ck body where "fr_inv fr1" "same_plan fr fr1" "cookies fr1 = Some ck"
        "transactions_of_history w (get_new_transactions_from_analysis_pqp w ck (pqp_json_target_date_str fr)) body
           (fr1\<lparr>m_is_cookies_surely_working := False\<rparr>) = (r, fr')"
proof -
  obtain r1 fr1 where e: "ensure_cookies_loaded w fr = (r1, fr1)" by fastforce
  note 1 = ensure_cookies [OF this assms(2)]
  show ?thesis
  proof (cases r1)
    case (Inl x)
    then show ?thesis using assms e 1
      by (intro failed [of x fr1])
        (auto simp: get_new_transactions_pqp_def ensure_cookies_loaded_def Let_def split: if_splits option.splits)
  next
    case (Inr u)
    then obtain ck where ck: "cookies fr1 = Some ck" using 1 by auto
    have t: "pqp_json_target_date_str fr1 = pqp_json_target_date_str fr" using 1 by (simp add: same_plan_def)
    let ?f = "bind_out (download w url_pqp_portfolio_history ck) (\<lambda>b.
        bind_out (save_response_file w ''fast_run_pqp_portfhist_src'' b) (\<lambda>_. Inr b))"
    show ?thesis
    proof (cases ?f)
      case (Inl x)
      then show ?thesis using assms(1) e 1 Inr ck fetch_not_missing [of w url_pqp_portfolio_history ck]
        by (intro failed [of x fr1]) (auto simp: get_new_transactions_pqp_def Let_def)
    next
      case (Inr b)
      then show ?thesis using assms(1) e 1 \<open>r1 = Inr u\<close> ck t
        by (intro body [of fr1 ck b]) (simp_all add: get_new_transactions_pqp_def Let_def)
    qed
  qed
qed

lemma get_ap_cases:
  assumes "get_new_transactions_ap w fr = (r, fr')" and "fr_inv fr"
  obtains (failed) e fr1 where "r = Inl e" "e \<noteq> cookies_missing" "fr_inv fr1" "same_plan fr fr1"
        "fr' = fr1 \<or> fr' = fr1\<lparr>m_is_cookies_surely_working := False\<rparr>"
    | (body) fr1 ck body where "fr_inv fr1" "same_plan fr fr1" "cookies fr1 = Some ck"
        "transactions_of_articles w body (fr1\<lparr>m_is_cookies_surely_working := False\<rparr>) = (r, fr')"
proof -
  obtain r1 fr1 where e: "ensure_cookies_loaded w fr = (r1, fr1)" by fastforce
  note 1 = ensure_cookies [OF this assms(2)]
  show ?thesis
  proof (cases r1)
    case (Inl x)
    then show ?thesis using assms e 1
      by (intro failed [of x fr1])
        (auto simp: get_new_transactions_ap_def ensure_cookies_loaded_def Let_def split: if_splits option.splits)
  next
    case (Inr u)
    then obtain ck where ck: "cookies fr1 = Some ck" using 1 by auto
    let ?f = "bind_out (download w url_ap_analysis ck) (\<lambda>b.
        bind_out (save_response_file w ''fast_run_ap_src'' b) (\<lambda>_. Inr b))"
    show ?thesis
    proof (cases ?f)
      case (Inl x)
      then show ?thesis using assms(1) e 1 Inr ck fetch_not_missing [of w url_ap_analysis ck]
        by (intro failed [of x fr1]) (auto simp: get_new_transactions_ap_def Let_def)
    next
      case (Inr b)
      then show ?thesis using assms(1) e 1 \<open>r1 = Inr u\<close> ck
        by (intro body [of fr1 ck b]) (simp_all add: get_new_transactions_ap_def Let_def)
    qed
  qed
qed

lemma fr_inv_unsure: "fr_inv fr \<Longrightarrow> fr_inv (fr\<lparr>m_is_cookies_surely_working := False\<rparr>)"
  by (simp add: fr_inv_def)

lemma same_plan_unsure [simp]: "same_plan fr (fr\<lparr>m_is_cookies_surely_working := b\<rparr>)"
  by (simp add: same_plan_def)

lemma transactions_of_history_not_missing:
  assumes "transactions_of_history w an body fr = (r, fr')" shows "r \<noteq> Inl cookies_missing"
  using assms by (auto simp: transactions_of_history_def Let_def
      split: if_splits option.splits sum.splits abnormal.splits)

lemma transactions_of_articles_not_missing:
  assumes "transactions_of_articles w body fr = (r, fr')" shows "r \<noteq> Inl cookies_missing"
  using assms by (auto simp: transactions_of_articles_def article_events_acc str_slice_to_def Let_def
      split: if_splits option.splits sum.splits)

lemma get_pqp_plan:
  assumes "get_new_transactions_pqp w fr = (r, fr')" and "fr_inv fr"
  shows "fr_inv fr' \<and> same_plan fr fr' \<and> r \<noteq> Inl cookies_missing"
  using assms
proof (cases rule: get_pqp_cases)
  case (failed e fr1)
  then show ?thesis using fr_inv_unsure [of fr1] same_plan_unsure_right [of fr fr1] by auto
next
  case (body fr1 ck body)
  note 1 = body(1-3) and 2 = transactions_of_history_plan [OF body(4)]
  have "fr_inv fr'" using 1 2 by (auto simp: fr_inv_def)
  moreover have "same_plan fr fr'" using same_plan_trans [OF same_plan_unsure_right [OF 1(2)]] 2 by blast
  ultimately show ?thesis using transactions_of_history_not_missing [OF body(4)] by blast
qed

lemma get_ap_plan:
  assumes "get_new_transactions_ap w fr = (r, fr')" and "fr_inv fr"
  shows "fr_inv fr' \<and> same_plan fr fr' \<and> r \<noteq> Inl cookies_missing"
  using assms
proof (cases rule: get_ap_cases)
  case (failed e fr1)
  then show ?thesis using fr_inv_unsure [of fr1] same_plan_unsure_right [of fr fr1] by auto
next
  case (body fr1 ck body)
  note 1 = body(1-3) and 2 = transactions_of_articles_plan [OF body(4)]
  have "fr_inv fr'" using 1 2 by (auto simp: fr_inv_def)
  moreover have "same_plan fr fr'" using same_plan_trans [OF same_plan_unsure_right [OF 1(2)]] 2 by blast
  ultimately show ?thesis using transactions_of_articles_not_missing [OF body(4)] by blast
qed

section \<open>One iteration\<close>

lemma fr_place_orders_eq:
  "fr_place_orders api gws cache name orders fr subs =
     (let p = place_orders api gws cache orders (is_simulation fr) \<lparr>submissions = subs, user_log = fr_user_log fr\<rparr>
      in (fst p, fr\<lparr>fr_user_log := user_log (snd p)\<rparr>, submissions (snd p)))"
  by (simp add: fr_place_orders_def split_def)

text \<open>What an iteration does: nothing to the broker, or the first placement of its runner.\<close>

definition idle_iteration :: "fast_runner \<Rightarrow> 'c submission list \<Rightarrow> fast_runner \<Rightarrow> 'c submission list \<Rightarrow> bool" where
  "idle_iteration fr subs fr' subs' \<longleftrightarrow> fr_inv fr' \<and> same_plan fr fr' \<and> subs' = subs"

definition trading_iteration ::
  "('c, 'e, 'r) ib_api \<Rightarrow> 'c gateways \<Rightarrow> mark_value_cache \<Rightarrow> rq_order list \<Rightarrow> fast_runner \<Rightarrow> 'c submission list
    \<Rightarrow> unit outcome \<Rightarrow> fast_runner \<Rightarrow> 'c submission list \<Rightarrow> bool" where
  "trading_iteration api gws cache orders fr subs r fr' subs' \<longleftrightarrow>
     \<not> has_trading_ever_started fr \<and> fr_inv fr' \<and> has_trading_ever_started fr' \<and>
     same_plan fr (fr'\<lparr>has_trading_ever_started := False\<rparr>) \<and>
     (\<exists>io. submissions io = subs \<and> r = fst (place_orders api gws cache orders (is_simulation fr) io) \<and>
        subs' = submissions (snd (place_orders api gws cache orders (is_simulation fr) io)))"

lemma fr_place_orders_trading:
  assumes "fr_place_orders api gws cache name orders (fr1\<lparr>has_trading_ever_started := True\<rparr>) subs = (r, fr', subs')"
    and "fr_inv fr1" and "same_plan fr fr1" and "\<not> has_trading_ever_started fr1"
  shows "trading_iteration api gws cache orders fr subs r fr' subs'"
  using assms
  by (auto simp: trading_iteration_def fr_place_orders_eq Let_def same_plan_def fr_inv_def
      intro!: exI [of _ "\<lparr>submissions = subs, user_log = fr_user_log fr1\<rparr>"])

lemma sizes_same_plan:
  assumes "same_plan fr fr1"
  shows "determine_position_market_values_pqp_gyantal fr1 evs = determine_position_market_values_pqp_gyantal fr evs"
    and "determine_position_market_values_ap_gyantal fr1 evs = determine_position_market_values_ap_gyantal fr evs"
proof -
  have e: "pqp_buy_pv fr1 = pqp_buy_pv fr" "pqp_sell_pv fr1 = pqp_sell_pv fr" "ap_buy_pv fr1 = ap_buy_pv fr"
    using assms by (simp_all add: same_plan_def)
  show "determine_position_market_values_pqp_gyantal fr1 evs = determine_position_market_values_pqp_gyantal fr evs"
    unfolding determine_position_market_values_pqp_gyantal_def e by (rule refl)
  show "determine_position_market_values_ap_gyantal fr1 evs = determine_position_market_values_ap_gyantal fr evs"
    unfolding determine_position_market_values_ap_gyantal_def e by (rule refl)
qed

lemma loop_pqp_cases:
  assumes "fastrunning_loop_pqp_impl api gws cache w fr subs = (r, fr', subs')" and "fr_inv fr"
  obtains (idle) "idle_iteration fr subs fr' subs'"
    | (trade) tgt evs fr1 where "get_new_transactions_pqp w fr = (Inr (tgt, evs), fr1)"
        "evs \<noteq> []" "length evs \<le> 14"
        "trading_iteration api gws cache (build_rqorders (determine_position_market_values_pqp_gyantal fr evs))
           fr subs r fr' subs'"
proof -
  obtain q fr1 where q: "get_new_transactions_pqp w fr = (q, fr1)" by fastforce
  note 1 = get_pqp_plan [OF this assms(2)]
  show ?thesis
  proof (cases "\<exists>tgt evs. q = Inr (tgt, evs) \<and> evs \<noteq> [] \<and> length evs \<le> 14 \<and> \<not> has_trading_ever_started fr1")
    case True
    then obtain tgt evs where t: "q = Inr (tgt, evs)" "evs \<noteq> []" "length evs \<le> 14" "\<not> has_trading_ever_started fr1"
      by blast
    then have "fr_place_orders api gws cache ''SA_PQP''
        (build_rqorders (determine_position_market_values_pqp_gyantal fr evs))
        (fr1\<lparr>has_trading_ever_started := True\<rparr>) subs = (r, fr', subs')"
      using assms(1) q 1 sizes_same_plan(1) [of fr fr1 evs] by (simp add: fastrunning_loop_pqp_impl_def Let_def)
    from fr_place_orders_trading [OF this] 1 t q show ?thesis by (intro trade) auto
  next
    case False
    then have "subs' = subs \<and> (fr' = fr1 \<or> (\<exists>l. fr' = fr_log l fr1))"
      using assms(1) q by (auto simp: fastrunning_loop_pqp_impl_def Let_def split: sum.splits if_splits)
    with 1 have "idle_iteration fr subs fr' subs'"
      by (auto simp: idle_iteration_def same_plan_def fr_inv_def)
    then show ?thesis by (rule idle)
  qed
qed

lemma loop_ap_cases:
  assumes "fastrunning_loop_ap_impl api gws cache w fr subs = (r, fr', subs')" and "fr_inv fr"
  obtains (idle) "idle_iteration fr subs fr' subs'"
    | (trade) tgt evs fr1 where "get_new_transactions_ap w fr = (Inr (tgt, evs), fr1)"
        "evs \<noteq> []" "length evs \<le> 2"
        "trading_iteration api gws cache (build_rqorders (determine_position_market_values_ap_gyantal fr evs))
           fr subs r fr' subs'"
proof -
  obtain q fr1 where q: "get_new_transactions_ap w fr = (q, fr1)" by fastforce
  note 1 = get_ap_plan [OF this assms(2)]
  show ?thesis
  proof (cases "\<exists>tgt evs. q = Inr (tgt, evs) \<and> evs \<noteq> [] \<and> length evs \<le> 2 \<and> \<not> has_trading_ever_started fr1")
    case True
    then obtain tgt evs where t: "q = Inr (tgt, evs)" "evs \<noteq> []" "length evs \<le> 2" "\<not> has_trading_ever_started fr1"
      by blast
    then have "fr_place_orders api gws cache ''SA_AP''
        (build_rqorders (determine_position_market_values_ap_gyantal fr evs))
        (fr1\<lparr>has_trading_ever_started := True\<rparr>) subs = (r, fr', subs')"
      using assms(1) q 1 sizes_same_plan(2) [of fr fr1 evs] by (simp add: fastrunning_loop_ap_impl_def Let_def)
    from fr_place_orders_trading [OF this] 1 t q show ?thesis by (intro trade) auto
  next
    case False
    then have "subs' = subs \<and> (fr' = fr1 \<or> (\<exists>l. fr' = fr_log l fr1))"
      using assms(1) q by (auto simp: fastrunning_loop_ap_impl_def Let_def split: sum.splits if_splits)
    with 1 have "idle_iteration fr subs fr' subs'"
      by (auto simp: idle_iteration_def same_plan_def fr_inv_def)
    then show ?thesis by (rule idle)
  qed
qed

section \<open>Sizes\<close>

definition pv_ok :: "f64 \<Rightarrow> bool" where
  "pv_ok q \<longleftrightarrow> (case q of F64_Fin v \<Rightarrow> v = 0 \<or> 1 \<le> v \<and> v \<le> 10 ^ 9 | _ \<Rightarrow> False)"

lemma share_value:
  assumes "pv_ok (F64_Fin v)" and "0 < n" and "n \<le> 1000"
  shows "\<exists>x. f64_div (F64_Fin v) (f64_of_nat n) = F64_Fin x \<and> 0 \<le> x \<and> of_nat n * x \<le> v * (1 + eps64)"
proof -
  have n: "f64_of_nat n = F64_Fin (of_nat n)" using assms(3) by (intro f64_of_nat_exact) simp
  show ?thesis
  proof (cases "v = 0")
    case True
    then show ?thesis using assms(2) by (simp add: n f64_div_Fin f64_round_def f64_zero_def)
  next
    case False
    then have v: "1 \<le> v" "v \<le> 10 ^ 9" using assms(1) by (auto simp: pv_ok_def)
    have "1 / 1000 \<le> v / of_nat n" using v assms by (intro frac_le) auto
    then have lo: "1 / 1024 \<le> v / of_nat n" by simp
    have "v / of_nat n \<le> v / 1" using v assms by (intro divide_left_mono) auto
    then have hi: "v / of_nat n \<le> 2 ^ 200" using v by (simp add: order_trans)
    have "of_nat n * rnd (v / of_nat n) \<le> of_nat n * (v / of_nat n * (1 + eps64))"
      using rnd_close_rnd [OF lo] by (intro mult_left_mono) (auto simp: rnd_close_def)
    also have "\<dots> = v * (1 + eps64)" using assms(2) by simp
    finally show ?thesis
      using f64_round_normal(1) [OF lo hi, of False] f64_round_normal(2) [OF lo hi] v assms(2)
      by (simp add: n f64_div_Fin)
  qed
qed

text \<open>\<open>sized b s evs\<close>: the events with the buys sized \<open>b\<close> and the sells sized \<open>s\<close>.\<close>

definition sized :: "f64 \<Rightarrow> f64 \<Rightarrow> transaction_event list \<Rightarrow> transaction_event list" where
  "sized b s evs = map (\<lambda>ev. ev\<lparr>ev_pos_market_value := (case ev_order_type ev of Buy \<Rightarrow> b | Sell \<Rightarrow> s)\<rparr>) evs"

lemma sized_orders:
  "od \<in> set (build_rqorders (sized b s evs)) \<Longrightarrow>
     \<exists>ev \<in> set evs. order_type od = ev_order_type ev \<and> ticker od = ev_ticker ev \<and>
       known_last_price od = Option.bind (ev_price ev) parse_f64 \<and>
       pos_market_value od = (case ev_order_type ev of Buy \<Rightarrow> b | Sell \<Rightarrow> s)"
  by (auto simp: build_rqorders_def sized_def)

lemma sized_buy_total:
  "sum_list (map order_value (filter (\<lambda>od. order_type od = Buy) (build_rqorders (sized b s evs)))) =
     of_nat (fst (count_order_types evs)) * f64_rat b"
  by (induction evs) (auto simp: build_rqorders_def sized_def count_order_types_def order_value_def algebra_simps)

definition pqp_buy_value :: "fast_runner \<Rightarrow> transaction_event list \<Rightarrow> f64" where
  "pqp_buy_value fr evs = (if fst (count_order_types evs) > 0
     then pqp_buy_pv fr / f64_of_nat (fst (count_order_types evs)) else F64_Fin 0)"

definition pqp_sell_value :: "fast_runner \<Rightarrow> transaction_event list \<Rightarrow> f64" where
  "pqp_sell_value fr evs = (if snd (count_order_types evs) > 0
     then pqp_sell_pv fr / f64_of_nat (snd (count_order_types evs)) else F64_Fin 0)"

definition ap_buy_value :: "fast_runner \<Rightarrow> transaction_event list \<Rightarrow> f64" where
  "ap_buy_value fr evs = (if fst (count_order_types evs) > 0
     then ap_buy_pv fr / f64_of_nat (fst (count_order_types evs)) else F64_Fin 0)"

lemma sizes_sized:
  "determine_position_market_values_pqp_gyantal fr evs = sized (pqp_buy_value fr evs) (pqp_sell_value fr evs) evs"
  "determine_position_market_values_ap_gyantal fr evs = sized (ap_buy_value fr evs) (F64_Fin 0) evs"
  by (simp_all add: determine_position_market_values_pqp_gyantal_def
      determine_position_market_values_ap_gyantal_def sized_def pqp_buy_value_def pqp_sell_value_def
      ap_buy_value_def split_def Let_def)

lemma count_le: "fst (count_order_types evs) \<le> length evs" "snd (count_order_types evs) \<le> length evs"
  by (simp_all add: count_order_types_def)

lemma value_bounds:
  assumes "pv_ok (F64_Fin v)" and "n \<le> 1000"
  shows "\<exists>x. (if n > 0 then F64_Fin v / f64_of_nat n else F64_Fin 0) = F64_Fin x \<and> 0 \<le> x \<and>
    of_nat n * x \<le> v * (1 + eps64)"
proof (cases "n = 0")
  case True
  then show ?thesis using assms(1) eps64_bounds by (auto simp: pv_ok_def)
qed (use share_value [OF assms(1)] assms(2) in auto)

section \<open>What the events are\<close>

lemma history_events:
  assumes "transactions_of_history w an body fr = (Inr (tgt, evs), fr')"
  shows "(tgt = pqp_json_target_date_str fr \<and> evs = []) \<or> an = Inr (tgt, evs) \<or>
    (tgt = pqp_json_target_date_str fr \<and> (\<exists>resp. decode_portfhist w body = Some resp \<and>
       evs = List.map_filter (event_of_transaction (stocks_of (ph_included resp)) tgt) (ph_data resp)))"
  using assms
  by (auto simp: transactions_of_history_def portfhist_events_acc Let_def
      split: if_splits option.splits sum.splits abnormal.splits)

lemma events_of_article_fields:
  assumes "ev \<in> set (events_of_article tags target art)"
  shows "action_date ev = target \<and> ev_order_type ev = Buy \<and> ev_price ev = None \<and> CHR '':'' \<notin> set (ev_ticker ev)"
proof -
  have t: "take 10 (publish_on (art_attributes art)) = target"
    using assms by (rule contrapos_pp) (simp only: events_of_article_def if_False list.set empty_iff not_False_eq_True)
  have "primary_tickers (art_relationships art) \<noteq> None"
    using assms t by (intro notI) (simp add: events_of_article_def)
  then obtain rel where "primary_tickers (art_relationships art) = Some rel" by blast
  with assms t have "ev \<in> set (List.map_filter (event_of_ticker tags art target) (ra_data rel))"
    by (simp add: events_of_article_def)
  then obtain d where "event_of_ticker tags art target d = Some ev" by (blast dest: map_filter_memD)
  note f = event_of_ticker_fields [OF this]
  show ?thesis by (intro conjI f)
qed

lemma article_events_fields:
  assumes "article_events tags target arts [] = Inr evs" and "ev \<in> set evs"
  shows "action_date ev = target \<and> ev_order_type ev = Buy \<and> ev_price ev = None \<and> CHR '':'' \<notin> set (ev_ticker ev)"
proof -
  from assms obtain art where "ev \<in> set (events_of_article tags target art)" by (auto simp: article_events_Inr)
  then show ?thesis by (rule events_of_article_fields)
qed

lemma analysis_events:
  assumes "get_new_transactions_from_analysis_pqp w ck target = Inr (tgt, evs)"
  shows "tgt = target \<and> (evs = [] \<or> (\<exists>tags arts. article_events tags target arts [] = Inr evs))"
  using assms
  by (auto simp: get_new_transactions_from_analysis_pqp_def bind_out_def
      split: if_splits option.splits sum.splits)

lemma analysis_events_fields:
  assumes "get_new_transactions_from_analysis_pqp w ck target = Inr (tgt, evs)"
  shows "tgt = target \<and> (\<forall>ev \<in> set evs. action_date ev = target \<and> ev_order_type ev = Buy \<and> ev_price ev = None \<and>
     CHR '':'' \<notin> set (ev_ticker ev))"
  using analysis_events [OF assms] article_events_fields by auto

lemma pqp_events:
  assumes "get_new_transactions_pqp w fr = (Inr (tgt, evs), fr')" and "fr_inv fr"
  shows "tgt = pqp_json_target_date_str fr"
    and "\<And>ev. ev \<in> set evs \<Longrightarrow> action_date ev = pqp_json_target_date_str fr \<and>
      (ev_order_type ev = Buy \<and> ev_price ev = None \<and> CHR '':'' \<notin> set (ev_ticker ev) \<or>
       (\<exists>body resp tr. decode_portfhist w body = Some resp \<and> tr \<in> set (ph_data resp) \<and>
          event_of_transaction (stocks_of (ph_included resp)) (pqp_json_target_date_str fr) tr = Some ev))"
proof -
  have "tgt = pqp_json_target_date_str fr \<and> (\<forall>ev \<in> set evs. action_date ev = pqp_json_target_date_str fr \<and>
      (ev_order_type ev = Buy \<and> ev_price ev = None \<and> CHR '':'' \<notin> set (ev_ticker ev) \<or>
       (\<exists>body resp tr. decode_portfhist w body = Some resp \<and> tr \<in> set (ph_data resp) \<and>
          event_of_transaction (stocks_of (ph_included resp)) (pqp_json_target_date_str fr) tr = Some ev)))"
    using assms
  proof (cases rule: get_pqp_cases)
    case (failed e fr1)
    then show ?thesis by simp
  next
    case (body fr1 ck body)
    then have t: "pqp_json_target_date_str fr1 = pqp_json_target_date_str fr" by (simp add: same_plan_def)
    from history_events [OF body(4)] show ?thesis
    proof (elim disjE)
      assume "get_new_transactions_from_analysis_pqp w ck (pqp_json_target_date_str fr) = Inr (tgt, evs)"
      from analysis_events_fields [OF this] show ?thesis by blast
    qed (auto simp: t set_map_filter dest: event_of_transaction_fields)
  qed
  then show "tgt = pqp_json_target_date_str fr"
    and "\<And>ev. ev \<in> set evs \<Longrightarrow> action_date ev = pqp_json_target_date_str fr \<and>
      (ev_order_type ev = Buy \<and> ev_price ev = None \<and> CHR '':'' \<notin> set (ev_ticker ev) \<or>
       (\<exists>body resp tr. decode_portfhist w body = Some resp \<and> tr \<in> set (ph_data resp) \<and>
          event_of_transaction (stocks_of (ph_included resp)) (pqp_json_target_date_str fr) tr = Some ev))"
    by blast+
qed

lemma ap_events:
  assumes "get_new_transactions_ap w fr = (Inr (tgt, evs), fr')" and "fr_inv fr"
  shows "tgt = ap_json_target_date_str fr"
    and "\<And>ev. ev \<in> set evs \<Longrightarrow> action_date ev = ap_json_target_date_str fr \<and> ev_order_type ev = Buy \<and>
      ev_price ev = None \<and> CHR '':'' \<notin> set (ev_ticker ev)"
proof -
  have "tgt = ap_json_target_date_str fr \<and> (\<forall>ev \<in> set evs. action_date ev = ap_json_target_date_str fr \<and>
      ev_order_type ev = Buy \<and> ev_price ev = None \<and> CHR '':'' \<notin> set (ev_ticker ev))"
    using assms
  proof (cases rule: get_ap_cases)
    case (failed e fr1)
    then show ?thesis by simp
  next
    case (body fr1 ck body)
    then have t: "ap_json_target_date_str fr1 = ap_json_target_date_str fr" by (simp add: same_plan_def)
    from body(4) have "tgt = ap_json_target_date_str fr \<and>
        (evs = [] \<or> (\<exists>tags arts. article_events tags (ap_json_target_date_str fr) arts [] = Inr evs))"
      by (auto simp: transactions_of_articles_def Let_def t split: if_splits option.splits sum.splits)
    with article_events_fields show ?thesis by (metis empty_iff list.set(1))
  qed
  then show "tgt = ap_json_target_date_str fr"
    and "\<And>ev. ev \<in> set evs \<Longrightarrow> action_date ev = ap_json_target_date_str fr \<and> ev_order_type ev = Buy \<and>
      ev_price ev = None \<and> CHR '':'' \<notin> set (ev_ticker ev)" by blast+
qed

section \<open>Exposure\<close>

text \<open>
  A world whose prices are sane: the cache's, the feed's and those printed in the history are
  missing or between a dollar and a trillion dollars.
\<close>

definition usable_world :: "('c, 'e, 'r) ib_api \<Rightarrow> mark_value_cache \<Rightarrow> 'v sa_world \<Rightarrow> bool" where
  "usable_world api cache w \<longleftrightarrow> (\<forall>t. usable_price (get_mark_value cache t)) \<and>
     (\<forall>dc t c. ib_realtime_bar api dc t = BarClose c \<longrightarrow> usable_price c) \<and>
     (\<forall>body resp tr q. decode_portfhist w body = Some resp \<longrightarrow> tr \<in> set (ph_data resp) \<longrightarrow>
        Option.bind (ta_price (tr_attributes tr)) parse_f64 = Some q \<longrightarrow> usable_price q)"

lemma usable_NaN [simp]: "usable_price F64_NaN"
  by (simp add: usable_price_def)

lemma usable_known_or_bar:
  assumes "usable_world api cache w" and "\<And>p. known = Some p \<Longrightarrow> usable_price p"
    and "get_knownlast_or_ib_price api dc t known = Inr q"
  shows "usable_price q"
  using assms
  by (auto simp: get_knownlast_or_ib_price_def first_bar_price_def usable_world_def
      split: option.splits if_splits bar_outcome.splits)

lemma exposure_of_orders:
  assumes "usable_world api cache w" and "f64_rat b \<ge> 0" and "b = F64_Fin (f64_rat b)" and "s = F64_Fin x" and "0 \<le> x"
    and "\<And>ev q. ev \<in> set evs \<Longrightarrow> Option.bind (ev_price ev) parse_f64 = Some q \<Longrightarrow> usable_price q"
    and "submissions (snd (place_orders api gws cache (build_rqorders (sized b s evs)) sim io)) = submissions io @ new"
  shows "sum_list (map buy_cost (filter (\<lambda>s. sub_type s = Buy) new)) \<le>
    10263/10000 * (of_nat (fst (count_order_types evs)) * f64_rat b)"
proof -
  obtain gy dc k where n: "new = (if sim then [] else plan_submissions gy (take k
      (order_plan api dc (order_prices cache (build_rqorders (sized b s evs))) (build_rqorders (sized b s evs)))))"
    using place_orders_new [of api gws cache "build_rqorders (sized b s evs)" sim io] assms(7) by auto
  let ?O = "build_rqorders (sized b s evs)"
  have "sum_list (map buy_cost (filter (\<lambda>s. sub_type s = Buy) (plan_submissions gy
      (take k (order_plan api dc (order_prices cache ?O) ?O))))) \<le>
    10263/10000 * sum_list (map order_value (filter (\<lambda>od. order_type od = Buy) ?O))" for k
  proof (rule plan_cost_orders)
    fix od assume "od \<in> set ?O"
    from sized_orders [OF this] assms(2-5) show "\<exists>v. pos_market_value od = F64_Fin v \<and> 0 \<le> v"
      by (auto split: rq_order_type.split)
  next
    fix od q assume "(od, Inr q) \<in> set (order_plan api dc (order_prices cache ?O) ?O)"
    then consider "order_prices cache ?O (ticker od) = Some q" | "od \<in> set ?O"
        "get_knownlast_or_ib_price api dc (ticker od) (known_last_price od) = Inr q"
      by (auto simp: order_plan_def)
    then show "usable_price q"
    proof cases
      case 1
      then show ?thesis using assms(1) by (auto simp: order_prices_def usable_world_def split: if_splits)
    next
      case 2
      from sized_orders [OF 2(1)] assms(6) have "known_last_price od = Some p \<Longrightarrow> usable_price p" for p by auto
      from usable_known_or_bar [OF assms(1) this 2(2)] show ?thesis .
    qed
  qed (rule order_plan_fst)
  from this [of k] this [of 0] show ?thesis
    unfolding n sized_buy_total by (cases sim) (simp_all add: plan_submissions_def)
qed

section \<open>Iterations that end\<close>

lemma ensure_cookies_ends: "ends (fst (ensure_cookies_loaded w fr))"
  by (simp add: ensure_cookies_loaded_def Let_def split: option.split)

lemma transactions_of_history_ends:
  "ends analysis \<Longrightarrow> ends (fst (transactions_of_history w analysis body fr))"
  by (auto simp: transactions_of_history_def Let_def split: option.split sum.split abnormal.split)

lemma transactions_of_articles_ends: "ends (fst (transactions_of_articles w body fr))"
proof -
  have "ends (Inl e :: 'x outcome)" if "article_events tags target arts events = Inl e" for tags target arts events e
    using article_events_end [of tags target arts events] that by simp
  then show ?thesis by (auto simp: transactions_of_articles_def Let_def split: option.split sum.split)
qed

lemma new_transactions_pqp_end:
  assumes "answering_world w" shows "ends (fst (get_new_transactions_pqp w fr))"
proof -
  have "ends (Inl e :: 'x outcome)" if "ensure_cookies_loaded w fr = (Inl e, fr1)" for e fr1
    using ensure_cookies_ends [of w fr] that by simp
  moreover have page: "ends (bind_out (download w url ck) (\<lambda>body. bind_out (save_response_file w f body) (\<lambda>_. Inr body)))" for url ck f
    by (auto intro!: ends_intros assms)
  moreover have "ends (Inl e :: 'x outcome)"
    if "bind_out (download w url ck) (\<lambda>body. bind_out (save_response_file w f body) (\<lambda>_. Inr body)) = Inl e" for url ck f e
    by (rule ends_Inl [OF that page])
  moreover have "ends (Inl e :: 'x outcome)" if "expect c m = (Inl e :: string outcome)" for c m e
    using that by (auto simp: outcome_simps)
  ultimately show ?thesis using transactions_of_history_ends [OF analysis_ends [OF assms]]
    by (auto simp: get_new_transactions_pqp_def Let_def split: prod.split sum.split)
qed

lemma new_transactions_ap_end:
  assumes "answering_world w" shows "ends (fst (get_new_transactions_ap w fr))"
proof -
  have "ends (Inl e :: 'x outcome)" if "ensure_cookies_loaded w fr = (Inl e, fr1)" for e fr1
    using ensure_cookies_ends [of w fr] that by simp
  moreover have page: "ends (bind_out (expect c m) (\<lambda>ck. bind_out (download w url ck)
      (\<lambda>body. bind_out (save_response_file w f body) (\<lambda>_. Inr body))))" for url c m f
    by (auto intro!: ends_intros assms)
  moreover have "ends (Inl e :: 'x outcome)" if "bind_out (expect c m) (\<lambda>ck. bind_out (download w url ck)
      (\<lambda>body. bind_out (save_response_file w f body) (\<lambda>_. Inr body))) = Inl e" for url c m f e
    by (rule ends_Inl [OF that page])
  ultimately show ?thesis using transactions_of_articles_ends
    by (auto simp: get_new_transactions_ap_def Let_def split: prod.split sum.split)
qed

lemma fr_place_orders_ends:
  "answering_api api \<Longrightarrow> ends (fst (fr_place_orders api gws cache name orders fr subs))"
  using place_orders_ends [of api gws cache orders "is_simulation fr" "\<lparr>submissions = subs, user_log = fr_user_log fr\<rparr>"]
  by (simp add: fr_place_orders_def Let_def case_prod_beta)

text \<open>An iteration whose requests are answered ends.\<close>

lemma pqp_loop_ends:
  assumes "answering_api api" and "answering_world w"
  shows "ends (fst (fastrunning_loop_pqp_impl api gws cache w fr subs))"
proof -
  have "ends (Inl e :: 'x outcome)" if "get_new_transactions_pqp w fr = (Inl e, fr1)" for e fr1
    using new_transactions_pqp_end [OF assms(2), of fr] that by simp
  then show ?thesis using fr_place_orders_ends [OF assms(1)]
    by (auto simp: fastrunning_loop_pqp_impl_def Let_def split: prod.split sum.split)
qed

lemma ap_loop_ends:
  assumes "answering_api api" and "answering_world w"
  shows "ends (fst (fastrunning_loop_ap_impl api gws cache w fr subs))"
proof -
  have "ends (Inl e :: 'x outcome)" if "get_new_transactions_ap w fr = (Inl e, fr1)" for e fr1
    using new_transactions_ap_end [OF assms(2), of fr] that by simp
  then show ?thesis using fr_place_orders_ends [OF assms(1)]
    by (auto simp: fastrunning_loop_ap_impl_def Let_def split: prod.split sum.split)
qed

section \<open>A small world for the witnesses\<close>

definition demo_date :: string where "demo_date = ''2025-06-16''"

definition demo_transaction :: transaction where
  "demo_transaction = \<lparr>tr_id = ''1'', tr_type = ''transaction'',
     tr_attributes = \<lparr>ta_id = 1, ta_action = ''buy'', ta_action_date = demo_date, ta_starting_weight = None,
       ta_new_weight = None, ta_rule = None, ta_status = None, ta_price = None\<rparr>,
     tr_relationships = \<lparr>rel_ticker = \<lparr>tickrel_data = \<lparr>td_id = ''7'', td_type = ''ticker''\<rparr>\<rparr>\<rparr>\<rparr>"

definition demo_stock :: stock where
  "demo_stock = \<lparr>stock_id = ''7'', stock_type = ''ticker'',
     stock_attributes = \<lparr>stock_name = ''A'', stock_company_name = ''Agilent''\<rparr>\<rparr>"

definition demo_article :: article where
  "demo_article = \<lparr>art_id = ''2'', art_type = ''article'',
     art_attributes = \<lparr>publish_on = demo_date @ ''T12:00:23-04:00'', title = ''Pick''\<rparr>,
     art_relationships = \<lparr>primary_tickers = Some \<lparr>ra_data = [\<lparr>rd_id = ''9'', rd_type = ''tag''\<rparr>]\<rparr>\<rparr>\<rparr>"

definition demo_world :: "unit sa_world" where
  "demo_world = \<lparr>http_get = (\<lambda>_ _. Body not_paywalled), http_post = (\<lambda>_ _ _. SendFailed),
     write_file_ok = (\<lambda>_ _. True), cookies_modtime = Some 0, cookies_content = Some ''c'',
     decode_portfhist = (\<lambda>_. Some \<lparr>ph_data = [demo_transaction], ph_included = [demo_stock]\<rparr>),
     decode_analysis = (\<lambda>_. Some \<lparr>an_data = [demo_article],
       an_included = [\<lparr>inc_id = ''9'', inc_type = ''tag'', inc_attributes = ()\<rparr>]\<rparr>),
     decode_screener = (\<lambda>_. None), decode_positions = (\<lambda>_. None),
     decode_tag = (\<lambda>_. Some \<lparr>tag_slug = None, tag_name = Some ''A'', tag_company = Some ''Agilent''\<rparr>)\<rparr>"

definition demo_event :: transaction_event where
  "demo_event = \<lparr>transaction_id = ''1'', ev_order_type = Buy, action_date = demo_date, ev_ticker = ''A'',
     ev_company_name = ''Agilent'', starting_weight = None, new_weight = None, ev_price = None,
     ev_pos_weight = F64_Fin 0, ev_pos_market_value = F64_Fin 0\<rparr>"

definition demo_runner :: "bool \<Rightarrow> fast_runner" where
  "demo_runner sim = fast_runner_new\<lparr>is_simulation := sim, pqp_json_target_date_str := demo_date,
     ap_json_target_date_str := demo_date, pqp_buy_pv := F64_Fin 1000, pqp_sell_pv := F64_Fin 1000,
     ap_buy_pv := F64_Fin 1000\<rparr>"

lemma demo_runner_inv [simp]: "fr_inv (demo_runner sim)"
  by (simp add: fr_inv_def demo_runner_def fast_runner_new_def)

lemma demo_runner_fields [simp]:
  "is_simulation (demo_runner sim) = sim" "pqp_json_target_date_str (demo_runner sim) = demo_date"
  "ap_json_target_date_str (demo_runner sim) = demo_date" "\<not> has_trading_ever_started (demo_runner sim)"
  "pqp_buy_pv (demo_runner sim) = F64_Fin 1000" "ap_buy_pv (demo_runner sim) = F64_Fin 1000"
  "pqp_sell_pv (demo_runner sim) = F64_Fin 1000"
  by (simp_all add: demo_runner_def fast_runner_new_def)

lemma demo_page [simp]:
  "str_contains not_paywalled not_paywalled"
  "\<not> str_contains ''captcha.js'' not_paywalled" "\<not> str_contains ''Subscription is required'' not_paywalled"
  by (simp_all add: str_contains_def not_paywalled_def sublist_Cons_right)

lemma demo_pqp:
  "\<exists>fr'. get_new_transactions_pqp demo_world (demo_runner sim) = (Inr (demo_date, [demo_event]), fr') \<and>
     same_plan (demo_runner sim) fr' \<and> fr_inv fr'"
proof -
  have "fst (get_new_transactions_pqp demo_world (demo_runner sim)) = Inr (demo_date, [demo_event])"
    by (simp add: get_new_transactions_pqp_def ensure_cookies_loaded_def demo_world_def demo_runner_def
        fast_runner_new_def Let_def download_def save_response_file_def transactions_of_history_def fr_log_def
        event_of_transaction_def demo_transaction_def demo_stock_def stocks_of_def order_type_of_action_def demo_event_def)
  then obtain fr' where "get_new_transactions_pqp demo_world (demo_runner sim) = (Inr (demo_date, [demo_event]), fr')"
    by (metis prod.collapse)
  with get_pqp_plan [OF this] show ?thesis by simp
qed

lemma demo_ap:
  "\<exists>fr'. get_new_transactions_ap demo_world (demo_runner sim) = (Inr (demo_date, [demo_event\<lparr>transaction_id := ''2''\<rparr>]), fr') \<and>
     same_plan (demo_runner sim) fr' \<and> fr_inv fr'"
proof -
  have s: "str_slice_to 10 (publish_on (art_attributes demo_article)) = Inr demo_date"
    by (simp add: demo_article_def demo_date_def str_slice_to_def is_utf8_cont_def)
  have "fst (get_new_transactions_ap demo_world (demo_runner sim)) = Inr (demo_date, [demo_event\<lparr>transaction_id := ''2''\<rparr>])"
    by (simp add: get_new_transactions_ap_def ensure_cookies_loaded_def demo_world_def demo_runner_def
        fast_runner_new_def Let_def download_def save_response_file_def transactions_of_articles_def s
        event_of_ticker_def tag_lookup_of_def tag_entries_of_def demo_event_def List.map_filter_def)
      (simp add: demo_article_def event_of_ticker_def)
  then obtain fr' where "get_new_transactions_ap demo_world (demo_runner sim) =
      (Inr (demo_date, [demo_event\<lparr>transaction_id := ''2''\<rparr>]), fr')" by (metis prod.collapse)
  with get_ap_plan [OF this] show ?thesis by simp
qed

section \<open>Properties\<close>

lemma pqp_iteration_new:
  assumes "fr_inv fr" and "fastrunning_loop_pqp_impl api gws cache w fr subs = (r, fr', subs @ new)" and "s \<in> set new"
  shows "\<not> is_simulation fr \<and> \<not> has_trading_ever_started fr \<and> has_trading_ever_started fr' \<and> length new \<le> 14 \<and>
    well_formed gws s \<and> (\<exists>evs fr1. get_new_transactions_pqp w fr = (Inr (pqp_json_target_date_str fr, evs), fr1) \<and>
       (\<exists>ev \<in> set evs. action_date ev = pqp_json_target_date_str fr \<and> sub_type s = ev_order_type ev \<and>
          sub_ticker s = ev_ticker ev))"
  using assms(2,1)
proof (cases rule: loop_pqp_cases)
  case idle
  with assms(3) show ?thesis by (simp add: idle_iteration_def)
next
  case (trade tgt evs fr1)
  let ?O = "build_rqorders (determine_position_market_values_pqp_gyantal fr evs)"
  from trade(4) obtain io where io: "submissions io = subs"
    "submissions (snd (place_orders api gws cache ?O (is_simulation fr) io)) = submissions io @ new"
    "\<not> has_trading_ever_started fr" "has_trading_ever_started fr'" by (auto simp: trading_iteration_def)
  from place_orders_new_sound [OF io(2) assms(3)] obtain od where od: "\<not> is_simulation fr" "od \<in> set ?O"
    "sub_type s = order_type od" "sub_ticker s = ticker od" "length new \<le> length ?O" by blast
  from od(2) obtain ev where "ev \<in> set evs" "order_type od = ev_order_type ev" "ticker od = ev_ticker ev"
    unfolding sizes_sized by (blast dest: sized_orders)
  with od place_orders_well_formed [OF io(2) assms(3)] trade(3) io pqp_events [OF trade(1) assms(1)] trade(1) show ?thesis
    by (auto simp: sizes_sized build_rqorders_def sized_def)
qed

text \<open>C15: Whatever a PQP iteration hands to the broker is the runner's first
  placement, made live, at most 14 submissions, each on the side and the ticker of an event the
  download of this iteration found, and every such event has the target date.\<close>

theorem pqp_iteration_sound:
  assumes "fr_inv fr" and "fastrunning_loop_pqp_impl api gws cache w fr subs = (r, fr', subs @ new)" and "s \<in> set new"
  shows "\<not> is_simulation fr \<and> \<not> has_trading_ever_started fr \<and> has_trading_ever_started fr' \<and> length new \<le> 14 \<and>
    well_formed gws s \<and> (\<exists>evs fr1. get_new_transactions_pqp w fr = (Inr (pqp_json_target_date_str fr, evs), fr1) \<and>
       (\<exists>ev \<in> set evs. action_date ev = pqp_json_target_date_str fr \<and> sub_type s = ev_order_type ev \<and>
          sub_ticker s = ev_ticker ev))"
  by (rule pqp_iteration_new [OF assms])

text \<open>The live iteration of the small world, whatever its runner's strategy: one submission.\<close>

lemma demo_order [simp]:
  "order_submission gy \<lparr>order_type = Buy, ticker = t, company_name = c, pos_market_value = F64_Fin 1000,
     known_last_price = k\<rparr> (F64_Fin 10) = Some \<lparr>sub_client = gy, sub_type = Buy, sub_ticker = t, sub_shares = 100,
     sub_limit = order_limit Buy (F64_Fin 10)\<rparr>"
proof -
  have "floor_quot_i32 (F64_Fin 1000) (F64_Fin 10) = 100"
    using f64_round_of_int [of 100]
    by (simp add: floor_quot_i32_def f64_div_Fin rat_trunc_def i32_max_def i32_min_def)
  then show ?thesis by (simp add: order_submission_def)
qed

lemma demo_value: "f64_div (F64_Fin 1000) (f64_of_nat (Suc 0)) = F64_Fin 1000"
  using f64_of_nat_exact [of 1] f64_round_of_int [of 1000] by (simp add: f64_div_Fin)

lemma demo_orders:
  "build_rqorders (determine_position_market_values_pqp_gyantal (demo_runner sim) [demo_event]) =
     [\<lparr>order_type = Buy, ticker = ''A'', company_name = ''Agilent'', pos_market_value = F64_Fin 1000, known_last_price = None\<rparr>]"
  "build_rqorders (determine_position_market_values_ap_gyantal (demo_runner sim) [demo_event\<lparr>transaction_id := ''2''\<rparr>]) =
     [\<lparr>order_type = Buy, ticker = ''A'', company_name = ''Agilent'', pos_market_value = F64_Fin 1000, known_last_price = None\<rparr>]"
  by (simp_all add: sizes_sized sized_def build_rqorders_def pqp_buy_value_def ap_buy_value_def count_order_types_def
      demo_event_def demo_value)

lemma demo_placement:
  assumes "orders = [\<lparr>order_type = Buy, ticker = ''A'', company_name = ''Agilent'', pos_market_value = F64_Fin 1000,
    known_last_price = None\<rparr>]"
  shows "submissions (snd (place_orders paper_api paper_gateways (mvc_new ''A'') orders False io)) = submissions io @
    [\<lparr>sub_client = (), sub_type = Buy, sub_ticker = ''A'', sub_shares = 100, sub_limit = order_limit Buy (F64_Fin 10)\<rparr>]"
proof -
  have "order_plan paper_api () Map.empty orders = [(hd orders, Inr (F64_Fin 10))]"
    by (simp add: assms order_plan_def get_knownlast_or_ib_price_def first_bar_price_def)
  moreover have "fst (place_orders paper_api paper_gateways (mvc_new ''A'') orders False io) = Inr ()"
    by (rule place_orders_returns [of _ "()" "()"])
      (simp_all add: assms get_knownlast_or_ib_price_def first_bar_price_def)
  ultimately obtain k where "k = length orders" "submissions (snd (place_orders paper_api paper_gateways (mvc_new ''A'') orders False io)) =
    submissions io @ plan_submissions () (take k [(hd orders, Inr (F64_Fin 10))])"
    using place_orders_prefix [of paper_gateways "()" "()" paper_api "mvc_new ''A''" orders io] by auto
  then show ?thesis by (simp add: assms plan_submissions_Cons) (simp add: plan_submissions_def)
qed

lemma demo_pqp_live:
  "\<exists>r fr' s. fastrunning_loop_pqp_impl paper_api paper_gateways (mvc_new ''A'') demo_world (demo_runner False) [] =
     (r, fr', [] @ [s]) \<and> sub_shares s = 100 \<and> sub_type s = Buy"
proof -
  obtain fr1 where 1: "get_new_transactions_pqp demo_world (demo_runner False) = (Inr (demo_date, [demo_event]), fr1)"
    "same_plan (demo_runner False) fr1" using demo_pqp by blast
  then have "is_simulation fr1 = False" "has_trading_ever_started fr1 = False" by (simp_all add: same_plan_def)
  then show ?thesis
    by (simp add: fastrunning_loop_pqp_impl_def 1 sizes_same_plan(1) [OF 1(2)] demo_orders fr_place_orders_eq Let_def
        demo_placement [OF refl])
qed

lemma demo_ap_live:
  "\<exists>r fr' s. fastrunning_loop_ap_impl paper_api paper_gateways (mvc_new ''A'') demo_world (demo_runner False) [] =
     (r, fr', [] @ [s]) \<and> sub_shares s = 100 \<and> sub_type s = Buy"
proof -
  obtain fr1 where 1: "get_new_transactions_ap demo_world (demo_runner False) =
      (Inr (demo_date, [demo_event\<lparr>transaction_id := ''2''\<rparr>]), fr1)"
    "same_plan (demo_runner False) fr1" using demo_ap by blast
  then have "is_simulation fr1 = False" "has_trading_ever_started fr1 = False" by (simp_all add: same_plan_def)
  then show ?thesis
    by (simp add: fastrunning_loop_ap_impl_def 1 sizes_same_plan(2) [OF 1(2)] demo_orders fr_place_orders_eq Let_def
        demo_placement [OF refl])
qed

lemma demo_usable: "usable_world paper_api (mvc_new ''A'') demo_world"
  by (simp add: usable_world_def get_mark_value_def mvc_new_def demo_world_def demo_transaction_def)
    (simp add: usable_price_def)

theorem pqp_iteration_sound_witness:
  "\<exists>fr'. \<exists>s. snd (fastrunning_loop_pqp_impl paper_api paper_gateways (mvc_new ''A'') demo_world (demo_runner False) []) =
     (fr', [s]) \<and> has_trading_ever_started fr'"
proof -
  obtain r fr' s where d: "fastrunning_loop_pqp_impl paper_api paper_gateways (mvc_new ''A'') demo_world
      (demo_runner False) [] = (r, fr', [] @ [s])" using demo_pqp_live by blast
  from pqp_iteration_sound [OF demo_runner_inv d, of s] have "has_trading_ever_started fr'" by simp
  with d show ?thesis by auto
qed

lemma ap_iteration_new:
  assumes "fr_inv fr" and "fastrunning_loop_ap_impl api gws cache w fr subs = (r, fr', subs @ new)" and "s \<in> set new"
  shows "\<not> is_simulation fr \<and> \<not> has_trading_ever_started fr \<and> has_trading_ever_started fr' \<and> length new \<le> 2 \<and>
    well_formed gws s \<and> sub_type s = Buy \<and> CHR '':'' \<notin> set (sub_ticker s) \<and>
    (\<exists>evs fr1. get_new_transactions_ap w fr = (Inr (ap_json_target_date_str fr, evs), fr1) \<and>
       (\<exists>ev \<in> set evs. action_date ev = ap_json_target_date_str fr \<and> sub_ticker s = ev_ticker ev))"
  using assms(2,1)
proof (cases rule: loop_ap_cases)
  case idle
  with assms(3) show ?thesis by (simp add: idle_iteration_def)
next
  case (trade tgt evs fr1)
  let ?O = "build_rqorders (determine_position_market_values_ap_gyantal fr evs)"
  from trade(4) obtain io where io: "submissions io = subs"
    "submissions (snd (place_orders api gws cache ?O (is_simulation fr) io)) = submissions io @ new"
    "\<not> has_trading_ever_started fr" "has_trading_ever_started fr'" by (auto simp: trading_iteration_def)
  from place_orders_new_sound [OF io(2) assms(3)] obtain od where od: "\<not> is_simulation fr" "od \<in> set ?O"
    "sub_type s = order_type od" "sub_ticker s = ticker od" "length new \<le> length ?O" by blast
  from od(2) obtain ev where "ev \<in> set evs" "order_type od = ev_order_type ev" "ticker od = ev_ticker ev"
    unfolding sizes_sized by (blast dest: sized_orders)
  with od place_orders_well_formed [OF io(2) assms(3)] trade(3) io ap_events [OF trade(1) assms(1)] trade(1) show ?thesis
    by (auto simp: sizes_sized build_rqorders_def sized_def)
qed

text \<open>C16: Whatever an AP iteration hands to the broker is the runner's first
  placement, made live, one or two buys, each of the ticker of a buy event of the target date that the
  download of this iteration found.\<close>

theorem ap_iteration_sound:
  assumes "fr_inv fr" and "fastrunning_loop_ap_impl api gws cache w fr subs = (r, fr', subs @ new)" and "s \<in> set new"
  shows "\<not> is_simulation fr \<and> \<not> has_trading_ever_started fr \<and> has_trading_ever_started fr' \<and> length new \<le> 2 \<and>
    well_formed gws s \<and> sub_type s = Buy \<and> CHR '':'' \<notin> set (sub_ticker s) \<and>
    (\<exists>evs fr1. get_new_transactions_ap w fr = (Inr (ap_json_target_date_str fr, evs), fr1) \<and>
       (\<exists>ev \<in> set evs. action_date ev = ap_json_target_date_str fr \<and> sub_ticker s = ev_ticker ev))"
  by (rule ap_iteration_new [OF assms])

theorem ap_iteration_sound_witness:
  "\<exists>fr'. \<exists>s. snd (fastrunning_loop_ap_impl paper_api paper_gateways (mvc_new ''A'') demo_world (demo_runner False) []) =
     (fr', [s]) \<and> has_trading_ever_started fr' \<and> sub_type s = Buy"
proof -
  obtain r fr' s where d: "fastrunning_loop_ap_impl paper_api paper_gateways (mvc_new ''A'') demo_world
      (demo_runner False) [] = (r, fr', [] @ [s])" using demo_ap_live by blast
  from ap_iteration_sound [OF demo_runner_inv d, of s] have "has_trading_ever_started fr'" "sub_type s = Buy" by simp_all
  with d show ?thesis by auto
qed

lemma pqp_iteration_cost:
  assumes "fr_inv fr" and "usable_world api cache w" and "pv_ok (pqp_buy_pv fr)" and "pv_ok (pqp_sell_pv fr)"
    and "fastrunning_loop_pqp_impl api gws cache w fr subs = (r, fr', subs @ new)"
  shows "sum_list (map buy_cost (filter (\<lambda>s. sub_type s = Buy) new)) \<le> 10264/10000 * f64_rat (pqp_buy_pv fr)"
  using assms(5,1)
proof (cases rule: loop_pqp_cases)
  case idle
  with assms(3) show ?thesis by (auto simp: idle_iteration_def pv_ok_def split: f64.splits)
next
  case (trade tgt evs fr1)
  from trade(4) obtain io where io: "submissions io = subs"
    "submissions (snd (place_orders api gws cache (build_rqorders (determine_position_market_values_pqp_gyantal fr evs))
       (is_simulation fr) io)) = submissions io @ new" by (auto simp: trading_iteration_def)
  obtain v u where vu: "pqp_buy_pv fr = F64_Fin v" "pqp_sell_pv fr = F64_Fin u"
    using assms(3,4) by (auto simp: pv_ok_def split: f64.splits)
  have n: "fst (count_order_types evs) \<le> 1000" "snd (count_order_types evs) \<le> 1000"
    using count_le [of evs] trade(3) by auto
  obtain b where b: "pqp_buy_value fr evs = F64_Fin b" "0 \<le> b" "of_nat (fst (count_order_types evs)) * b \<le> v * (1 + eps64)"
    using value_bounds [of v, OF _ n(1)] assms(3) unfolding pqp_buy_value_def vu by blast
  obtain s where s: "pqp_sell_value fr evs = F64_Fin s" "0 \<le> s"
    using value_bounds [of u, OF _ n(2)] assms(4) unfolding pqp_sell_value_def vu by blast
  have "usable_price q" if "ev \<in> set evs" "Option.bind (ev_price ev) parse_f64 = Some q" for ev q
    using pqp_events(2) [OF trade(1) assms(1) that(1)] assms(2) that(2)
    by (elim conjE disjE exE) (auto dest!: event_of_transaction_fields(7) simp: usable_world_def)
  from exposure_of_orders [OF assms(2) _ _ s this io(2) [unfolded sizes_sized]] b
  have "sum_list (map buy_cost (filter (\<lambda>s. sub_type s = Buy) new)) \<le>
    10263/10000 * (of_nat (fst (count_order_types evs)) * b)" by simp
  also have "\<dots> \<le> 10263/10000 * (v * (1 + eps64))" by (rule mult_left_mono [OF b(3)]) simp
  also have "\<dots> = v * (10263/10000 * (1 + eps64))" by simp
  also have "\<dots> \<le> v * (10264/10000)"
    using assms(3) eps64_bounds by (intro mult_left_mono) (auto simp: vu pv_ok_def)
  finally show ?thesis by (simp add: vu)
qed

text \<open>In a world of sane prices, the buys a PQP iteration hands to the broker
  cost, all together and at their limit prices, at most 2.64 percent more than the runner's portfolio
  value for buys, however many events there are.\<close>

theorem pqp_buy_exposure:
  assumes "fr_inv fr" and "usable_world api cache w" and "pv_ok (pqp_buy_pv fr)" and "pv_ok (pqp_sell_pv fr)"
    and "fastrunning_loop_pqp_impl api gws cache w fr subs = (r, fr', subs @ new)"
  shows "sum_list (map buy_cost (filter (\<lambda>s. sub_type s = Buy) new)) \<le> 10264/10000 * f64_rat (pqp_buy_pv fr)"
  by (rule pqp_iteration_cost [OF assms])
theorem pqp_buy_exposure_witness:
  "\<exists>new. snd (snd (fastrunning_loop_pqp_impl paper_api paper_gateways (mvc_new ''A'') demo_world (demo_runner False) [])) = new \<and>
     new \<noteq> [] \<and> sum_list (map buy_cost (filter (\<lambda>s. sub_type s = Buy) new)) \<le> 10264/10000 * 1000"
proof -
  obtain r fr' s where d: "fastrunning_loop_pqp_impl paper_api paper_gateways (mvc_new ''A'') demo_world
      (demo_runner False) [] = (r, fr', [] @ [s])" using demo_pqp_live by blast
  have "sum_list (map buy_cost (filter (\<lambda>s. sub_type s = Buy) [s])) \<le> 10264/10000 * f64_rat (pqp_buy_pv (demo_runner False))"
    by (rule pqp_buy_exposure [OF demo_runner_inv demo_usable _ _ d]) (simp_all add: pv_ok_def)
  with d show ?thesis by simp
qed

lemma ap_iteration_cost:
  assumes "fr_inv fr" and "usable_world api cache w" and "pv_ok (ap_buy_pv fr)"
    and "fastrunning_loop_ap_impl api gws cache w fr subs = (r, fr', subs @ new)"
  shows "sum_list (map buy_cost (filter (\<lambda>s. sub_type s = Buy) new)) \<le> 10264/10000 * f64_rat (ap_buy_pv fr)"
  using assms(4,1)
proof (cases rule: loop_ap_cases)
  case idle
  with assms(3) show ?thesis by (auto simp: idle_iteration_def pv_ok_def split: f64.splits)
next
  case (trade tgt evs fr1)
  from trade(4) obtain io where io: "submissions io = subs"
    "submissions (snd (place_orders api gws cache (build_rqorders (determine_position_market_values_ap_gyantal fr evs))
       (is_simulation fr) io)) = submissions io @ new" by (auto simp: trading_iteration_def)
  obtain v where v: "ap_buy_pv fr = F64_Fin v" using assms(3) by (auto simp: pv_ok_def split: f64.splits)
  have n: "fst (count_order_types evs) \<le> 1000" using count_le [of evs] trade(3) by auto
  obtain b where b: "ap_buy_value fr evs = F64_Fin b" "0 \<le> b" "of_nat (fst (count_order_types evs)) * b \<le> v * (1 + eps64)"
    using value_bounds [of v, OF _ n] assms(3) unfolding ap_buy_value_def v by blast
  have "usable_price q" if "ev \<in> set evs" "Option.bind (ev_price ev) parse_f64 = Some q" for ev q
    using ap_events(2) [OF trade(1) assms(1) that(1)] that(2) by simp
  from exposure_of_orders [OF assms(2) _ _ refl order_refl this io(2) [unfolded sizes_sized]] b
  have "sum_list (map buy_cost (filter (\<lambda>s. sub_type s = Buy) new)) \<le>
    10263/10000 * (of_nat (fst (count_order_types evs)) * b)" by simp
  also have "\<dots> \<le> 10263/10000 * (v * (1 + eps64))" by (rule mult_left_mono [OF b(3)]) simp
  also have "\<dots> = v * (10263/10000 * (1 + eps64))" by simp
  also have "\<dots> \<le> v * (10264/10000)"
    using assms(3) eps64_bounds by (intro mult_left_mono) (auto simp: v pv_ok_def)
  finally show ?thesis by (simp add: v)
qed

text \<open>Likewise for an AP iteration and its portfolio value.\<close>

theorem ap_buy_exposure:
  assumes "fr_inv fr" and "usable_world api cache w" and "pv_ok (ap_buy_pv fr)"
    and "fastrunning_loop_ap_impl api gws cache w fr subs = (r, fr', subs @ new)"
  shows "sum_list (map buy_cost (filter (\<lambda>s. sub_type s = Buy) new)) \<le> 10264/10000 * f64_rat (ap_buy_pv fr)"
  by (rule ap_iteration_cost [OF assms])

theorem ap_buy_exposure_witness:
  "\<exists>new. snd (snd (fastrunning_loop_ap_impl paper_api paper_gateways (mvc_new ''A'') demo_world (demo_runner False) [])) = new \<and>
     new \<noteq> [] \<and> sum_list (map buy_cost (filter (\<lambda>s. sub_type s = Buy) new)) \<le> 10264/10000 * 1000"
proof -
  obtain r fr' s where d: "fastrunning_loop_ap_impl paper_api paper_gateways (mvc_new ''A'') demo_world
      (demo_runner False) [] = (r, fr', [] @ [s])" using demo_ap_live by blast
  have "sum_list (map buy_cost (filter (\<lambda>s. sub_type s = Buy) [s])) \<le> 10264/10000 * f64_rat (ap_buy_pv (demo_runner False))"
    by (rule ap_buy_exposure [OF demo_runner_inv demo_usable _ d]) (simp add: pv_ok_def)
  with d show ?thesis by simp
qed

text \<open>C39: The runner's cookies and their file time are loaded together and
  believed to work only when loaded: every iteration keeps that, however it ends, and no download ever
  reaches its cookies unloaded, so the \<open>expect("cookies not initialized")\<close> of both cannot fail.\<close>

theorem cookies_never_missing:
  assumes "fr_inv fr"
  shows "fr_inv fast_runner_new \<and>
    fr_inv (fst (snd (fastrunning_loop_pqp_impl api gws cache w fr subs))) \<and>
    fr_inv (fst (snd (fastrunning_loop_ap_impl api gws cache w fr subs))) \<and>
    fst (get_new_transactions_pqp w fr) \<noteq> Inl (Panic ''cookies not initialized'') \<and>
    fst (get_new_transactions_ap w fr) \<noteq> Inl (Panic ''cookies not initialized'')"
proof (intro conjI)
  obtain r fr' s' where p: "fastrunning_loop_pqp_impl api gws cache w fr subs = (r, fr', s')" by (metis prod_cases3)
  then have "fr_inv fr'"
    using assms by (cases rule: loop_pqp_cases) (auto simp: idle_iteration_def trading_iteration_def)
  then show "fr_inv (fst (snd (fastrunning_loop_pqp_impl api gws cache w fr subs)))" by (simp add: p)
  obtain r fr' s' where p: "fastrunning_loop_ap_impl api gws cache w fr subs = (r, fr', s')" by (metis prod_cases3)
  then have "fr_inv fr'"
    using assms by (cases rule: loop_ap_cases) (auto simp: idle_iteration_def trading_iteration_def)
  then show "fr_inv (fst (snd (fastrunning_loop_ap_impl api gws cache w fr subs)))" by (simp add: p)
  show "fst (get_new_transactions_pqp w fr) \<noteq> Inl cookies_missing"
    using get_pqp_plan [OF _ assms, of w] by (metis prod.collapse)
  show "fst (get_new_transactions_ap w fr) \<noteq> Inl cookies_missing"
    using get_ap_plan [OF _ assms, of w] by (metis prod.collapse)
qed (rule fr_inv_new)

theorem cookies_never_missing_witness:
  "fst (get_new_transactions_pqp demo_world fast_runner_new) \<noteq> Inl (Panic ''cookies not initialized'')"
  using cookies_never_missing [OF fr_inv_new] by blast

text \<open>A history page of at least 1000 bytes that decodes decides alone when it holds an event of
  the target date; otherwise the analysis page decides, and when its task panicked the iteration goes on
  with no events instead of failing.\<close>

theorem history_then_analysis:
  assumes "decode_portfhist w body = Some resp" and "1000 \<le> length body"
    and "events = List.map_filter (event_of_transaction (stocks_of (ph_included resp)) (pqp_json_target_date_str fr))
      (ph_data resp)"
  shows "fst (transactions_of_history w analysis body fr) =
    (if events \<noteq> [] then Inr (pqp_json_target_date_str fr, events)
     else case analysis of Inr result \<Rightarrow> Inr result | Inl Hang \<Rightarrow> Inl Hang
       | Inl (Panic _) \<Rightarrow> Inr (pqp_json_target_date_str fr, []))"
  using assms
  by (auto simp: transactions_of_history_def portfhist_events_acc Let_def
      split: sum.splits abnormal.splits)

theorem history_then_analysis_witness:
  "fst (transactions_of_history demo_world (Inl (Panic ''any'')) (replicate 1000 (CHR ''x'')) (demo_runner True)) =
     Inr (demo_date, [demo_event])"
proof -
  have "List.map_filter (event_of_transaction (stocks_of [demo_stock]) demo_date) [demo_transaction] = [demo_event]"
    by (simp add: List.map_filter_def event_of_transaction_def demo_transaction_def demo_stock_def stocks_of_def
        order_type_of_action_def demo_event_def)
  then show ?thesis
    by (subst history_then_analysis [where events = "[demo_event]" and
          resp = "\<lparr>ph_data = [demo_transaction], ph_included = [demo_stock]\<rparr>"])
      (simp_all add: demo_world_def)
qed

lemma zero_value_zero_shares: "floor_quot_i32 (F64_Fin 0) p = 0"
  by (cases p) (auto simp: floor_quot_i32_def f64_div_def f64_round_def f64_zero_def Let_def rat_trunc_def
      i32_min_def i32_max_def)

lemma zero_order_no_submission: "pos_market_value od = F64_Fin 0 \<Longrightarrow> order_submission gy od p = None"
  by (simp add: order_submission_def zero_value_zero_shares)

text \<open>On a day on which PQP does not run its portfolio values are zero, so
  every order of an iteration that may trade has size zero at every price, also in a run forced by the
  user, who makes it a run day only after the values are computed: a forced test never sizes an order.\<close>

theorem off_day_orders_empty:
  assumes "chrono_laws C" and "pqp_ap_calculate_dates_and_pv C now fr0 = (r, fr)" and "\<not> pqp_is_run_today fr"
    and "length events \<le> 14"
    and "od \<in> set (build_rqorders (determine_position_market_values_pqp_gyantal (fr\<lparr>pqp_is_run_today := True\<rparr>) events))"
  shows "sint (floor_quot_i32 (pos_market_value od) price) = 0"
proof -
  have pv: "pqp_buy_pv fr = F64_Fin 0" "pqp_sell_pv fr = F64_Fin 0"
    using assms(2,3) by (auto simp: chrono_laws.dates_and_pv_eq [OF assms(1)] Let_def fr_log_def)
  have z: "f64_div (F64_Fin 0) (f64_of_nat n) = F64_Fin 0" if "0 < n" "n \<le> 14" for n
    using that f64_of_nat_exact [of n] by (simp add: f64_div_Fin f64_round_def f64_zero_def)
  have "pqp_buy_value (fr\<lparr>pqp_is_run_today := True\<rparr>) events = F64_Fin 0"
    "pqp_sell_value (fr\<lparr>pqp_is_run_today := True\<rparr>) events = F64_Fin 0"
    using z [of "fst (count_order_types events)"] z [of "snd (count_order_types events)"] count_le [of events] assms(4)
    by (auto simp: pqp_buy_value_def pqp_sell_value_def pv)
  with assms(5) have "pos_market_value od = F64_Fin 0"
    by (auto simp: sizes_sized sized_def build_rqorders_def split: rq_order_type.split)
  then show ?thesis by (simp add: zero_value_zero_shares)
qed

text \<open>2025-06-17 was a Tuesday.\<close>

theorem off_day_orders_empty_witness:
  "\<exists>fr od. od \<in> set (build_rqorders (determine_position_market_values_pqp_gyantal
       (fr\<lparr>pqp_is_run_today := True\<rparr>) [demo_event])) \<and> sint (floor_quot_i32 (pos_market_value od) (F64_Fin 10)) = 0"
proof -
  obtain r fr where e: "pqp_ap_calculate_dates_and_pv gregorian 20256 fast_runner_new = (r, fr)" by fastforce
  have "num_days_from_monday gregorian 20256 = 1" by (simp add: gregorian_def)
  then have n: "\<not> pqp_is_run_today fr"
    using e by (simp add: gregorian_laws.dates_and_pv_eq Let_def fr_log_def) (auto split: if_splits)
  obtain od where od: "od \<in> set (build_rqorders (determine_position_market_values_pqp_gyantal
       (fr\<lparr>pqp_is_run_today := True\<rparr>) [demo_event]))" by (simp add: build_rqorders_def sizes_sized sized_def)
  from off_day_orders_empty [OF gregorian_laws.chrono_laws_axioms e n _ od] od show ?thesis by fastforce
qed

end
