(* ===== verification/FastRunnerTask.thy ===== *)
theory FastRunnerTask
  imports FastRunner
begin

text \<open>
  \<open>rqcoresrv/src/robotrader/fast_runner_task.rs\<close>: the two scheduled tasks, their trigger times and
  their \<open>run()\<close>. What one run meets from outside is the record \<open>run_env\<close>: the broker, the
  clocks, the worlds of its downloads and what other threads do to the shared cache
  (\<open>re_evolve\<close>). The trading loop has no bound of its own, so it is a \<open>partial_function\<close>.
\<close>

section \<open>Trigger times\<close>

text \<open>\<open>targets.into_iter().map(..).min().unwrap()\<close>\<close>

definition earliest_of :: "instant list \<Rightarrow> instant outcome" where
  "earliest_of ts = (case ts of [] \<Rightarrow> Inl (Panic ''called Option::unwrap() on a None value'')
     | t # ts \<Rightarrow> Inr (fold min ts t))"

definition pqp_targets :: "day_time list" where
  "pqp_targets = [hms 9 45 10, hms 11 1 10, hms 11 30 10, hms 11 59 10]"

definition ap_targets :: "day_time list" where
  "ap_targets = [hms 9 50 10, hms 11 5 20, hms 11 30 20, hms 11 59 20]"

definition pqp_get_next_trigger_time_impl :: "tz \<Rightarrow> instant \<Rightarrow> instant outcome" where
  "pqp_get_next_trigger_time_impl Z now = earliest_of (map (localtimeonly2future_datetime_tz Z now) pqp_targets)"

definition ap_get_next_trigger_time_impl :: "tz \<Rightarrow> instant \<Rightarrow> instant outcome" where
  "ap_get_next_trigger_time_impl Z now = earliest_of (map (localtimeonly2future_datetime_tz Z now) ap_targets)"

section \<open>The world of a run\<close>

datatype mail_content =
    CandidatesMail "string list" "string list" "string list \<times> string list"
  | LogMail "log_line list"

record sent_mail =
  mail_to :: string
  mail_subject :: string
  mail_content :: mail_content

record ('c, 'e, 'r, 'v) run_env =
  re_api :: "('c, 'e, 'r) ib_api"
  re_gateways :: "'c gateways"
  re_chrono :: chrono
  re_tz :: tz
  re_config :: "string \<rightharpoonup> string"
  re_dir_ok :: bool
  re_now_init :: instant
  re_now_et :: instant
  re_candidate_worlds :: "nat \<Rightarrow> 'v sa_world"
  re_stream_ok :: bool
  re_evolve :: "nat \<Rightarrow> mark_value_cache \<Rightarrow> mark_value_cache"
  re_loop_start :: instant
  re_clock :: "nat \<Rightarrow> instant"
  re_worlds :: "nat \<Rightarrow> 'v sa_world"

record 'c run_state =
  rs_runner :: fast_runner
  rs_cache :: mark_value_cache
  rs_subs :: "'c submission list"
  rs_mails :: "sent_mail list"

definition utc_date :: "instant \<Rightarrow> date" where "utc_date now = now div day_ns"

text \<open>The shared cache at the start of iteration \<open>i\<close>, from its state after \<open>start_quote_stream\<close>.\<close>

primrec cache_at :: "(nat \<Rightarrow> mark_value_cache \<Rightarrow> mark_value_cache) \<Rightarrow> mark_value_cache \<Rightarrow> nat \<Rightarrow> mark_value_cache" where
  "cache_at evolve c 0 = evolve 0 c"
| "cache_at evolve c (Suc i) = evolve (Suc i) (cache_at evolve c i)"

section \<open>\<open>run()\<close>\<close>

text \<open>The seconds between now and today's noon in New York.\<close>

definition num_seconds_to_noon :: "tz \<Rightarrow> instant \<Rightarrow> int outcome" where
  "num_seconds_to_noon Z now =
     bind_out (expect (tz_earliest Z (fst (tz_local Z now)) (hms 12 0 0)) ''called Option::unwrap() on a None value'')
       (\<lambda>target_et. Inr \<bar>num_seconds (now - target_et)\<bar>)"

text \<open>
  \<open>while Instant::now() < loop_endtime\<close>; the result has the number of iterations begun. A sleep
  between two iterations is in the clock.
\<close>

partial_function (option) task_loop ::
  "(nat \<Rightarrow> fast_runner \<Rightarrow> 'c submission list \<Rightarrow> unit outcome \<times> fast_runner \<times> 'c submission list) \<Rightarrow> bool
    \<Rightarrow> instant \<Rightarrow> (nat \<Rightarrow> instant) \<Rightarrow> nat \<Rightarrow> fast_runner \<Rightarrow> 'c submission list
    \<Rightarrow> (unit outcome \<times> fast_runner \<times> 'c submission list \<times> nat) option" where
  "task_loop iter forcerun loop_endtime clock i fr subs =
     (if \<not> clock i < loop_endtime then Some (Inr (), fr, subs, i)
      else case iter i fr subs of
          (Inl e, fr, subs) \<Rightarrow> Some (Inl e, fr, subs, Suc i)
        | (Inr _, fr, subs) \<Rightarrow>
            if forcerun then Some (Inr (), fr, subs, Suc i)
            else if has_trading_ever_started fr then Some (Inr (), fr, subs, Suc i)
            else task_loop iter forcerun loop_endtime clock (Suc i) fr subs)"

definition loop_duration :: "fast_runner \<Rightarrow> int" where
  "loop_duration fr = (if is_simulation fr then 30 else 4 * 60 + 30) * ns_per_sec"

text \<open>
  From the start of the quote stream to the email. A panic of an iteration unwinds the task:
  neither the stream's stop nor the email is reached.
\<close>

definition run_trading ::
  "('c, 'e, 'r, 'v) run_env
    \<Rightarrow> (mark_value_cache \<Rightarrow> 'v sa_world \<Rightarrow> fast_runner \<Rightarrow> 'c submission list
          \<Rightarrow> unit outcome \<times> fast_runner \<times> 'c submission list)
    \<Rightarrow> bool \<Rightarrow> string \<Rightarrow> fast_runner \<Rightarrow> 'c run_state \<Rightarrow> (unit outcome \<times> 'c run_state) option" where
  "run_trading env iteration forcerun subject fr st =
     (let cache = start_quote_stream (re_stream_ok env) (rs_cache st);
          loop_endtime = re_loop_start env + loop_duration fr
      in map_option (\<lambda>(r, fr, subs, n).
           let st = st\<lparr>rs_runner := fr, rs_cache := cache_at (re_evolve env) cache n, rs_subs := subs\<rparr>
           in case r of
                Inl e \<Rightarrow> (Inl e, st)
              | Inr _ \<Rightarrow>
                  (let st = st\<lparr>rs_cache := stop_quote_stream (rs_cache st)\<rparr>
                   in (Inr (), case re_config env ''email_gyant'' of
                         None \<Rightarrow> st
                       | Some email_to \<Rightarrow> st\<lparr>rs_mails := rs_mails st @ [\<lparr>mail_to = email_to,
                           mail_subject = subject, mail_content = LogMail (fr_user_log fr)\<rparr>]\<rparr>)))
         (task_loop (\<lambda>i. iteration (cache_at (re_evolve env) cache i) (re_worlds env i)) forcerun
            loop_endtime (re_clock env) 0 fr (rs_subs st)))"

definition candidates_mail :: "('c, 'e, 'r, 'v) run_env \<Rightarrow> sent_mail list outcome" where
  "candidates_mail env =
     (case re_config env ''email_gyant'' of
        None \<Rightarrow> Inr []
      | Some email_to \<Rightarrow>
          bind_out (get_sa_screener_result_tickers (re_candidate_worlds env 0) screener_payload) (\<lambda>screener.
          bind_out (get_pqp_positions_tickers (re_candidate_worlds env 1)) (\<lambda>positions.
          bind_out (get_sa_candidate_tickers (re_candidate_worlds env 2)) (\<lambda>candidates.
            Inr [\<lparr>mail_to = email_to, mail_subject = ''RqCore: SA PQP/AP Candidate Tickers'',
              mail_content = CandidatesMail screener positions candidates\<rparr>]))))"

definition pqp_iteration where
  "pqp_iteration env cache w fr subs = fastrunning_loop_pqp_impl (re_api env) (re_gateways env) cache w fr subs"

definition ap_iteration where
  "ap_iteration env cache w fr subs = fastrunning_loop_ap_impl (re_api env) (re_gateways env) cache w fr subs"

definition pqp_run ::
  "('c, 'e, 'r, 'v) run_env \<Rightarrow> bool \<Rightarrow> 'c run_state \<Rightarrow> (unit outcome \<times> 'c run_state) option" where
  "pqp_run env is_manual_user_forcerun st =
     (case fast_runner_init (re_chrono env) (utc_date (re_now_init env)) (re_dir_ok env) fast_runner_new of
        (Inl e, fr) \<Rightarrow> Some (Inl e, st\<lparr>rs_runner := fr\<rparr>)
      | (Inr _, fr) \<Rightarrow>
          (case num_seconds_to_noon (re_tz env) (re_now_et env) of
             Inl e \<Rightarrow> Some (Inl e, st\<lparr>rs_runner := fr\<rparr>)
           | Inr secs \<Rightarrow>
               (let is_first_scheduled_today = (secs > 2 * 60 * 60);
                    is_last_scheduled_today = (secs < 90);
                    fr = fr\<lparr>is_simulation := \<not> is_last_scheduled_today\<rparr>;
                    fr = (if is_manual_user_forcerun then fr\<lparr>pqp_is_run_today := True, is_simulation := True\<rparr> else fr);
                    is_first_scheduled_today = (is_manual_user_forcerun \<or> is_first_scheduled_today)
                in if \<not> pqp_is_run_today fr then Some (Inr (), st\<lparr>rs_runner := fr\<rparr>)
                   else
                     (let fr = fr_log (LogTaskStarted ''FastRunnerPqpTask'' (pqp_json_target_date_str fr) (is_simulation fr)) fr
                      in case (if is_first_scheduled_today then candidates_mail env else Inr []) of
                           Inl e \<Rightarrow> Some (Inl e, st\<lparr>rs_runner := fr\<rparr>)
                         | Inr mails \<Rightarrow> run_trading env (pqp_iteration env) is_manual_user_forcerun
                             ''RqCore: FastRunnerPqpTask run() ended'' fr (st\<lparr>rs_mails := rs_mails st @ mails\<rparr>)))))"

definition ap_run ::
  "('c, 'e, 'r, 'v) run_env \<Rightarrow> bool \<Rightarrow> 'c run_state \<Rightarrow> (unit outcome \<times> 'c run_state) option" where
  "ap_run env is_manual_user_forcerun st =
     (case fast_runner_init (re_chrono env) (utc_date (re_now_init env)) (re_dir_ok env) fast_runner_new of
        (Inl e, fr) \<Rightarrow> Some (Inl e, st\<lparr>rs_runner := fr\<rparr>)
      | (Inr _, fr) \<Rightarrow>
          (case num_seconds_to_noon (re_tz env) (re_now_et env) of
             Inl e \<Rightarrow> Some (Inl e, st\<lparr>rs_runner := fr\<rparr>)
           | Inr secs \<Rightarrow>
               (let fr = fr\<lparr>is_simulation := \<not> secs < 90\<rparr>;
                    fr = (if is_manual_user_forcerun then fr\<lparr>ap_is_run_today := True, is_simulation := True\<rparr> else fr)
                in if \<not> ap_is_run_today fr then Some (Inr (), st\<lparr>rs_runner := fr\<rparr>)
                   else
                     (let fr = fr_log (LogTaskStarted ''FastRunnerApTask'' (ap_json_target_date_str fr) (is_simulation fr)) fr
                      in run_trading env (ap_iteration env) is_manual_user_forcerun
                           ''RqCore: FastRunnerPqpTask run() ended'' fr st))))"

section \<open>The trading loop\<close>

lemma task_loop_terminates:
  assumes "i \<le> m" and "loop_endtime \<le> clock m"
  shows "\<exists>r fr' subs' n. task_loop iter forcerun loop_endtime clock i fr subs = Some (r, fr', subs', n) \<and> n \<le> m"
  using assms(1)
proof (induction arbitrary: fr subs rule: inc_induct)
  case base
  then show ?case using assms(2) by (subst task_loop.simps) simp
next
  case (step k)
  obtain r fr1 subs1 where 1: "iter k fr subs = (r, fr1, subs1)" by (metis prod_cases3)
  show ?case
    using step.hyps step.IH [of fr1 subs1] by (subst task_loop.simps) (auto simp: 1 split: sum.split)
qed

text \<open>
  The contract of an iteration, the interface between the loop and the two strategies:
  \<open>allowed fr new\<close> is what a runner in the state \<open>fr\<close> may hand to the broker. An iteration
  is idle, or it is the runner's first placement, live if it submits anything.
\<close>

locale strategy =
  fixes iter :: "nat \<Rightarrow> fast_runner \<Rightarrow> 'c submission list \<Rightarrow> unit outcome \<times> fast_runner \<times> 'c submission list"
    and allowed :: "fast_runner \<Rightarrow> 'c submission list \<Rightarrow> bool"
  assumes allowed_none: "fr_inv fr \<Longrightarrow> allowed fr []"
    and allowed_same: "same_plan fr fr1 \<Longrightarrow> allowed fr1 new \<Longrightarrow> allowed fr new"
    and contract: "iter i fr subs = (r, fr', subs') \<Longrightarrow> fr_inv fr \<Longrightarrow>
      idle_iteration fr subs fr' subs' \<or>
      (\<exists>new. subs' = subs @ new \<and> allowed fr new \<and> (new \<noteq> [] \<longrightarrow> \<not> is_simulation fr) \<and>
         \<not> has_trading_ever_started fr \<and> has_trading_ever_started fr' \<and> fr_inv fr')"
begin

definition loop_post :: "fast_runner \<Rightarrow> 'c submission list \<Rightarrow> fast_runner \<Rightarrow> 'c submission list \<Rightarrow> bool" where
  "loop_post fr subs fr' subs' \<longleftrightarrow> fr_inv fr' \<and>
     (\<exists>new. subs' = subs @ new \<and> allowed fr new \<and> (new \<noteq> [] \<longrightarrow> \<not> is_simulation fr \<and> has_trading_ever_started fr'))"

lemma idle_post: "idle_iteration fr subs fr' subs' \<Longrightarrow> fr_inv fr \<Longrightarrow> loop_post fr subs fr' subs'"
  by (auto simp: idle_iteration_def loop_post_def allowed_none)

lemma idle_then_post:
  assumes "idle_iteration fr subs fr1 subs1" and "loop_post fr1 subs1 fr' subs'"
  shows "loop_post fr subs fr' subs'"
  using assms allowed_same [of fr fr1] by (auto simp: idle_iteration_def loop_post_def same_plan_def)

lemma task_loop_post:
  assumes "task_loop iter forcerun loop_endtime clock i fr subs = Some (r, fr', subs', n)"
    and "fr_inv fr" and "\<not> has_trading_ever_started fr"
  shows "loop_post fr subs fr' subs'"
proof -
  let ?P = "\<lambda>it forcerun loop_endtime clock i fr subs (res :: unit outcome \<times> fast_runner \<times> 'c submission list \<times> nat).
    it = iter \<longrightarrow> fr_inv fr \<longrightarrow> \<not> has_trading_ever_started fr \<longrightarrow> loop_post fr subs (fst (snd res)) (fst (snd (snd res)))"
  have "?P iter forcerun loop_endtime clock i fr subs (r, fr', subs', n)"
  proof (rule task_loop.raw_induct [where P = ?P, OF _ assms(1)], intro impI)
    fix loop it forcerun loop_endtime clock i fr subs and res :: "unit outcome \<times> fast_runner \<times> 'c submission list \<times> nat"
    assume IH: "\<And>it forcerun loop_endtime clock i fr subs res.
        loop it forcerun loop_endtime clock i fr subs = Some res \<Longrightarrow>
        ?P it forcerun loop_endtime clock i fr subs res"
      and eq: "(if \<not> clock i < loop_endtime then Some (Inr (), fr, subs, i)
        else case it i fr subs of
            (Inl e, fr, subs) \<Rightarrow> Some (Inl e, fr, subs, Suc i)
          | (Inr _, fr, subs) \<Rightarrow>
              if forcerun then Some (Inr (), fr, subs, Suc i)
              else if has_trading_ever_started fr then Some (Inr (), fr, subs, Suc i)
              else loop it forcerun loop_endtime clock (Suc i) fr subs) = Some res"
      and it: "it = iter" and inv: "fr_inv fr" "\<not> has_trading_ever_started fr"
    obtain r1 fr1 subs1 where s: "iter i fr subs = (r1, fr1, subs1)" by (metis prod_cases3)
    note c = contract [OF s inv(1)]
    consider (over) "\<not> clock i < loop_endtime" | (last) "fst (snd res) = fr1" "fst (snd (snd res)) = subs1"
      | (more) "\<not> has_trading_ever_started fr1" "loop iter forcerun loop_endtime clock (Suc i) fr1 subs1 = Some res"
      using eq by (auto simp: it s split: if_splits sum.splits)
    then show "loop_post fr subs (fst (snd res)) (fst (snd (snd res)))"
    proof cases
      case over
      with eq inv show ?thesis by (auto simp: loop_post_def allowed_none)
    next
      case last
      with c inv(1) idle_post show ?thesis by (auto simp: loop_post_def)
    next
      case more
      then have idle: "idle_iteration fr subs fr1 subs1" using c by blast
      with IH [OF more(2)] more(1) have "loop_post fr1 subs1 (fst (snd res)) (fst (snd (snd res)))"
        by (simp add: idle_iteration_def)
      with idle show ?thesis by (rule idle_then_post)
    qed
  qed
  then show ?thesis using assms by simp
qed

end

text \<open>What the two strategies may submit.\<close>

definition pqp_allowed ::
  "('c, 'e, 'r) ib_api \<Rightarrow> 'c gateways \<Rightarrow> (nat \<Rightarrow> mark_value_cache) \<Rightarrow> (nat \<Rightarrow> 'v sa_world) \<Rightarrow> fast_runner \<Rightarrow> 'c submission list \<Rightarrow> bool" where
  "pqp_allowed api gws caches worlds fr new \<longleftrightarrow> length new \<le> 14 \<and> list_all (well_formed gws) new \<and>
     ((\<forall>i. usable_world api (caches i) (worlds i)) \<longrightarrow> pv_ok (pqp_buy_pv fr) \<longrightarrow> pv_ok (pqp_sell_pv fr) \<longrightarrow>
        sum_list (map buy_cost (filter (\<lambda>s. sub_type s = Buy) new)) \<le> 10264/10000 * f64_rat (pqp_buy_pv fr))"

definition ap_allowed ::
  "('c, 'e, 'r) ib_api \<Rightarrow> 'c gateways \<Rightarrow> (nat \<Rightarrow> mark_value_cache) \<Rightarrow> (nat \<Rightarrow> 'v sa_world) \<Rightarrow> fast_runner \<Rightarrow> 'c submission list \<Rightarrow> bool" where
  "ap_allowed api gws caches worlds fr new \<longleftrightarrow> length new \<le> 2 \<and> list_all (well_formed gws) new \<and> (\<forall>s \<in> set new. sub_type s = Buy) \<and>
     ((\<forall>i. usable_world api (caches i) (worlds i)) \<longrightarrow> pv_ok (ap_buy_pv fr) \<longrightarrow>
        sum_list (map buy_cost (filter (\<lambda>s. sub_type s = Buy) new)) \<le> 10264/10000 * f64_rat (ap_buy_pv fr))"

lemma pqp_contract:
  assumes "fastrunning_loop_pqp_impl api gws cache w fr subs = (r, fr', subs')" and "fr_inv fr"
    and "\<And>new. subs' = subs @ new \<Longrightarrow> length new \<le> 14 \<Longrightarrow> list_all (well_formed gws) new \<Longrightarrow>
      (usable_world api cache w \<longrightarrow> pv_ok (pqp_buy_pv fr) \<longrightarrow> pv_ok (pqp_sell_pv fr) \<longrightarrow>
        sum_list (map buy_cost (filter (\<lambda>s. sub_type s = Buy) new)) \<le> 10264/10000 * f64_rat (pqp_buy_pv fr)) \<Longrightarrow> allowed new"
  shows "idle_iteration fr subs fr' subs' \<or>
      (\<exists>new. subs' = subs @ new \<and> allowed new \<and> (new \<noteq> [] \<longrightarrow> \<not> is_simulation fr) \<and>
         \<not> has_trading_ever_started fr \<and> has_trading_ever_started fr' \<and> fr_inv fr')"
  using assms(1,2)
proof (cases rule: loop_pqp_cases)
  case (trade tgt evs fr1)
  then obtain new where new: "subs' = subs @ new" and t: "\<not> has_trading_ever_started fr"
    "has_trading_ever_started fr'" "fr_inv fr'"
    using place_orders_new [of api gws cache _ "is_simulation fr"] by (fastforce simp: trading_iteration_def)
  note p = assms(1) [unfolded new]
  have "length new \<le> 14" "new \<noteq> [] \<longrightarrow> \<not> is_simulation fr" "list_all (well_formed gws) new"
    using pqp_iteration_new [OF assms(2) p] by (cases new; fastforce simp: list_all_iff)+
  with pqp_iteration_cost [OF assms(2) _ _ _ p] have "allowed new" by (intro assms(3) [OF new]) auto
  with new t \<open>new \<noteq> [] \<longrightarrow> \<not> is_simulation fr\<close> show ?thesis by blast
qed simp

lemma ap_contract:
  assumes "fastrunning_loop_ap_impl api gws cache w fr subs = (r, fr', subs')" and "fr_inv fr"
    and "\<And>new. subs' = subs @ new \<Longrightarrow> length new \<le> 2 \<Longrightarrow> list_all (well_formed gws) new \<Longrightarrow> (\<forall>s \<in> set new. sub_type s = Buy) \<Longrightarrow>
      (usable_world api cache w \<longrightarrow> pv_ok (ap_buy_pv fr) \<longrightarrow>
        sum_list (map buy_cost (filter (\<lambda>s. sub_type s = Buy) new)) \<le> 10264/10000 * f64_rat (ap_buy_pv fr)) \<Longrightarrow> allowed new"
  shows "idle_iteration fr subs fr' subs' \<or>
      (\<exists>new. subs' = subs @ new \<and> allowed new \<and> (new \<noteq> [] \<longrightarrow> \<not> is_simulation fr) \<and>
         \<not> has_trading_ever_started fr \<and> has_trading_ever_started fr' \<and> fr_inv fr')"
  using assms(1,2)
proof (cases rule: loop_ap_cases)
  case (trade tgt evs fr1)
  then obtain new where new: "subs' = subs @ new" and t: "\<not> has_trading_ever_started fr"
    "has_trading_ever_started fr'" "fr_inv fr'"
    using place_orders_new [of api gws cache _ "is_simulation fr"] by (fastforce simp: trading_iteration_def)
  note p = assms(1) [unfolded new]
  have "length new \<le> 2" "new \<noteq> [] \<longrightarrow> \<not> is_simulation fr" "\<forall>s \<in> set new. sub_type s = Buy" "list_all (well_formed gws) new"
  proof -
    have a: "\<not> is_simulation fr \<and> length new \<le> 2 \<and> sub_type s = Buy \<and> well_formed gws s" if "s \<in> set new" for s
      using ap_iteration_new [OF assms(2) p that] by blast
    show "length new \<le> 2" using a [of "hd new"] by (cases new) simp_all
    show "new \<noteq> [] \<longrightarrow> \<not> is_simulation fr" using a [of "hd new"] by (cases new) simp_all
    show "\<forall>s \<in> set new. sub_type s = Buy" "list_all (well_formed gws) new" using a by (auto simp: list_all_iff)
  qed
  then have "allowed new" using ap_iteration_cost [OF assms(2) _ _ p] by (intro assms(3) [OF new]) blast+
  with new t \<open>new \<noteq> [] \<longrightarrow> \<not> is_simulation fr\<close> show ?thesis by blast
qed simp

interpretation pqp: strategy "\<lambda>i. pqp_iteration env (caches i) (worlds i)" "pqp_allowed (re_api env) (re_gateways env) caches worlds"
  for env :: "('c, 'e, 'r, 'v) run_env" and caches worlds
proof
  show "pqp_allowed (re_api env) (re_gateways env) caches worlds fr []" for fr
    by (auto simp: pqp_allowed_def pv_ok_def split: f64.splits)
  show "pqp_allowed (re_api env) (re_gateways env) caches worlds fr new"
    if "same_plan fr fr1" "pqp_allowed (re_api env) (re_gateways env) caches worlds fr1 new" for fr fr1 new
    using that by (simp add: pqp_allowed_def same_plan_def)
  fix i fr subs r fr' subs'
  assume "pqp_iteration env (caches i) (worlds i) fr subs = (r, fr', subs')" "fr_inv fr"
  then show "idle_iteration fr subs fr' subs' \<or>
      (\<exists>new. subs' = subs @ new \<and> pqp_allowed (re_api env) (re_gateways env) caches worlds fr new \<and> (new \<noteq> [] \<longrightarrow> \<not> is_simulation fr) \<and>
         \<not> has_trading_ever_started fr \<and> has_trading_ever_started fr' \<and> fr_inv fr')"
    unfolding pqp_iteration_def by (rule pqp_contract) (auto simp: pqp_allowed_def)
qed

interpretation ap: strategy "\<lambda>i. ap_iteration env (caches i) (worlds i)" "ap_allowed (re_api env) (re_gateways env) caches worlds"
  for env :: "('c, 'e, 'r, 'v) run_env" and caches worlds
proof
  show "ap_allowed (re_api env) (re_gateways env) caches worlds fr []" for fr
    by (auto simp: ap_allowed_def pv_ok_def split: f64.splits)
  show "ap_allowed (re_api env) (re_gateways env) caches worlds fr new"
    if "same_plan fr fr1" "ap_allowed (re_api env) (re_gateways env) caches worlds fr1 new" for fr fr1 new
  proof -
    have e: "ap_buy_pv fr1 = ap_buy_pv fr" using that(1) by (simp add: same_plan_def)
    show ?thesis using that(2) unfolding ap_allowed_def e .
  qed
  fix i fr subs r fr' subs'
  assume "ap_iteration env (caches i) (worlds i) fr subs = (r, fr', subs')" "fr_inv fr"
  then show "idle_iteration fr subs fr' subs' \<or>
      (\<exists>new. subs' = subs @ new \<and> ap_allowed (re_api env) (re_gateways env) caches worlds fr new \<and> (new \<noteq> [] \<longrightarrow> \<not> is_simulation fr) \<and>
         \<not> has_trading_ever_started fr \<and> has_trading_ever_started fr' \<and> fr_inv fr')"
    unfolding ap_iteration_def by (rule ap_contract) (auto simp: ap_allowed_def)
qed

section \<open>Runs\<close>

lemma run_trading_subs:
  assumes "strategy (\<lambda>i. iteration (cache_at (re_evolve env) (start_quote_stream (re_stream_ok env) (rs_cache st)) i)
      (re_worlds env i)) allowed"
    and "run_trading env iteration forcerun subject fr st = Some (r, st')"
    and "fr_inv fr" and "\<not> has_trading_ever_started fr"
  shows "\<exists>new. rs_subs st' = rs_subs st @ new \<and> allowed fr new \<and> (new \<noteq> [] \<longrightarrow> \<not> is_simulation fr)"
proof -
  let ?iter = "\<lambda>i. iteration (cache_at (re_evolve env) (start_quote_stream (re_stream_ok env) (rs_cache st)) i) (re_worlds env i)"
  let ?loop = "task_loop ?iter forcerun (re_loop_start env + loop_duration fr) (re_clock env) 0 fr (rs_subs st)"
  have "?loop \<noteq> None" using assms(2) by (auto simp: run_trading_def Let_def)
  then obtain q fr1 subs n where l: "?loop = Some (q, fr1, subs, n)" by (cases ?loop) auto
  have s: "rs_subs st' = subs"
    using assms(2) by (cases q; cases "re_config env ''email_gyant''") (auto simp: run_trading_def Let_def l)
  have "strategy.loop_post allowed fr (rs_subs st) fr1 subs"
    using strategy.task_loop_post [OF assms(1) l assms(3,4)] .
  then show ?thesis unfolding strategy.loop_post_def [OF assms(1)] s by blast
qed

text \<open>A run ends before its trading loop, or enters it with a fresh runner of the day's dates.\<close>

lemma init_runner:
  assumes "chrono_laws C" and "fast_runner_init C d ok fast_runner_new = (Inr u, fr)"
  shows "fr_inv fr \<and> \<not> has_trading_ever_started fr \<and> pv_ok (pqp_buy_pv fr) \<and> pv_ok (pqp_sell_pv fr) \<and> pv_ok (ap_buy_pv fr) \<and>
    f64_rat (pqp_buy_pv fr) + f64_rat (ap_buy_pv fr) \<le> 200000 \<and> f64_rat (pqp_buy_pv fr) \<le> 140000 \<and>
    0 \<le> f64_rat (pqp_buy_pv fr) \<and> 0 \<le> f64_rat (ap_buy_pv fr) \<and>
    (pqp_is_run_today fr \<longleftrightarrow> num_days_from_monday C d = 0) \<and>
    (ap_is_run_today fr \<longleftrightarrow> (num_days_from_monday C d < 5 \<and> day_of_month C d \<in> {1, 15}) \<or>
       (num_days_from_monday C d = 0 \<and> day_of_month C d \<in> {2, 3, 16, 17}))"
  using assms(2) chrono_laws.ap_run_iff [OF assms(1) refl, of d]
  by (auto simp: fast_runner_init_def chrono_laws.dates_and_pv_eq [OF assms(1)] Let_def fr_log_def fr_inv_def
      fast_runner_new_def pv_ok_def split: if_splits)

lemma pqp_run_cases:
  assumes "chrono_laws (re_chrono env)" and "pqp_run env forced st = Some (r, st')"
  obtains (quiet) "rs_subs st' = rs_subs st" "rs_cache st' = rs_cache st"
    | (trading) secs fr st1 where "num_seconds_to_noon (re_tz env) (re_now_et env) = Inr secs"
        "fr_inv fr" "\<not> has_trading_ever_started fr" "is_simulation fr \<longleftrightarrow> forced \<or> \<not> secs < 90"
        "forced \<or> num_days_from_monday (re_chrono env) (utc_date (re_now_init env)) = 0"
        "pv_ok (pqp_buy_pv fr)" "pv_ok (pqp_sell_pv fr)" "f64_rat (pqp_buy_pv fr) \<le> 140000"
        "0 \<le> f64_rat (pqp_buy_pv fr)" "rs_subs st1 = rs_subs st" "rs_cache st1 = rs_cache st"
        "run_trading env (pqp_iteration env) forced ''RqCore: FastRunnerPqpTask run() ended'' fr st1 = Some (r, st')"
proof -
  obtain q fr0 where i: "fast_runner_init (re_chrono env) (utc_date (re_now_init env)) (re_dir_ok env) fast_runner_new = (q, fr0)"
    by fastforce
  show ?thesis
  proof (cases "isl q \<or> isl (num_seconds_to_noon (re_tz env) (re_now_et env))")
    case True
    with assms(2) i show ?thesis
      by (intro quiet) (auto simp: pqp_run_def split: sum.splits)
  next
    case False
    then obtain u secs where q: "q = Inr u" and n: "num_seconds_to_noon (re_tz env) (re_now_et env) = Inr secs"
      by (metis sum.collapse(2))
    note R = init_runner [OF assms(1) i [unfolded q]]
    define fr1 where "fr1 = fr0\<lparr>is_simulation := \<not> secs < 90\<rparr>"
    define fr2 where "fr2 = (if forced then fr1\<lparr>pqp_is_run_today := True, is_simulation := True\<rparr> else fr1)"
    define fr3 where "fr3 = fr_log (LogTaskStarted ''FastRunnerPqpTask'' (pqp_json_target_date_str fr2) (is_simulation fr2)) fr2"
    note eqs = fr1_def [symmetric] fr2_def [symmetric] fr3_def [symmetric]
    have run: "(if \<not> pqp_is_run_today fr2 then Some (Inr (), st\<lparr>rs_runner := fr2\<rparr>)
        else case (if forced \<or> secs > 2 * 60 * 60 then candidates_mail env else Inr []) of
            Inl e \<Rightarrow> Some (Inl e, st\<lparr>rs_runner := fr3\<rparr>)
          | Inr mails \<Rightarrow> run_trading env (pqp_iteration env) forced
              ''RqCore: FastRunnerPqpTask run() ended'' fr3 (st\<lparr>rs_mails := rs_mails st @ mails\<rparr>)) = Some (r, st')"
      using assms(2) by (simp only: pqp_run_def i q n Let_def prod.case sum.case eqs)
    have f3: "fr_inv fr3" "\<not> has_trading_ever_started fr3" "is_simulation fr3 \<longleftrightarrow> forced \<or> \<not> secs < 90"
      "pqp_buy_pv fr3 = pqp_buy_pv fr0" "pqp_sell_pv fr3 = pqp_sell_pv fr0"
      using R by (auto simp: fr3_def fr2_def fr1_def fr_inv_def)
    show ?thesis
    proof (cases "\<exists>st1. rs_subs st1 = rs_subs st \<and> rs_cache st1 = rs_cache st \<and> pqp_is_run_today fr2 \<and>
        run_trading env (pqp_iteration env) forced ''RqCore: FastRunnerPqpTask run() ended'' fr3 st1 = Some (r, st')")
      case True
      then obtain st1 where "rs_subs st1 = rs_subs st" "rs_cache st1 = rs_cache st" "pqp_is_run_today fr2"
        "run_trading env (pqp_iteration env) forced ''RqCore: FastRunnerPqpTask run() ended'' fr3 st1 = Some (r, st')" by blast
      then show ?thesis using trading [OF n f3(1-3) _ _ _ _ _ \<open>rs_subs st1 = _\<close>] R f3(4,5)
        by (auto simp: fr2_def fr1_def split: if_splits)
    next
      case False
      with run show ?thesis
        by (intro quiet) (auto split: if_splits sum.splits)
    qed
  qed
qed

definition ap_day :: "chrono \<Rightarrow> date \<Rightarrow> bool" where
  "ap_day C d \<longleftrightarrow> (num_days_from_monday C d < 5 \<and> day_of_month C d \<in> {1, 15}) \<or>
     (num_days_from_monday C d = 0 \<and> day_of_month C d \<in> {2, 3, 16, 17})"

lemma ap_run_cases:
  assumes "chrono_laws (re_chrono env)" and "ap_run env forced st = Some (r, st')"
  obtains (quiet) "rs_subs st' = rs_subs st" "rs_cache st' = rs_cache st"
    | (trading) secs fr where "num_seconds_to_noon (re_tz env) (re_now_et env) = Inr secs"
        "fr_inv fr" "\<not> has_trading_ever_started fr" "is_simulation fr \<longleftrightarrow> forced \<or> \<not> secs < 90"
        "forced \<or> ap_day (re_chrono env) (utc_date (re_now_init env))"
        "pv_ok (ap_buy_pv fr)" "f64_rat (ap_buy_pv fr) \<le> 200000" "0 \<le> f64_rat (ap_buy_pv fr)"
        "run_trading env (ap_iteration env) forced ''RqCore: FastRunnerPqpTask run() ended'' fr st = Some (r, st')"
proof -
  obtain q fr0 where i: "fast_runner_init (re_chrono env) (utc_date (re_now_init env)) (re_dir_ok env) fast_runner_new = (q, fr0)"
    by fastforce
  show ?thesis
  proof (cases "isl q \<or> isl (num_seconds_to_noon (re_tz env) (re_now_et env))")
    case True
    with assms(2) i show ?thesis
      by (intro quiet) (auto simp: ap_run_def split: sum.splits)
  next
    case False
    then obtain u secs where q: "q = Inr u" and n: "num_seconds_to_noon (re_tz env) (re_now_et env) = Inr secs"
      by (metis sum.collapse(2))
    note R = init_runner [OF assms(1) i [unfolded q]]
    define fr1 where "fr1 = fr0\<lparr>is_simulation := \<not> secs < 90\<rparr>"
    define fr2 where "fr2 = (if forced then fr1\<lparr>ap_is_run_today := True, is_simulation := True\<rparr> else fr1)"
    define fr3 where "fr3 = fr_log (LogTaskStarted ''FastRunnerApTask'' (ap_json_target_date_str fr2) (is_simulation fr2)) fr2"
    note eqs = fr1_def [symmetric] fr2_def [symmetric] fr3_def [symmetric]
    have run: "(if \<not> ap_is_run_today fr2 then Some (Inr (), st\<lparr>rs_runner := fr2\<rparr>)
        else run_trading env (ap_iteration env) forced ''RqCore: FastRunnerPqpTask run() ended'' fr3 st) = Some (r, st')"
      using assms(2) by (simp only: ap_run_def i q n Let_def prod.case sum.case eqs)
    have f3: "fr_inv fr3" "\<not> has_trading_ever_started fr3" "is_simulation fr3 \<longleftrightarrow> forced \<or> \<not> secs < 90"
      "ap_buy_pv fr3 = ap_buy_pv fr0"
      using R by (auto simp: fr3_def fr2_def fr1_def fr_inv_def)
    show ?thesis
    proof (cases "ap_is_run_today fr2")
      case True
      with run have "run_trading env (ap_iteration env) forced ''RqCore: FastRunnerPqpTask run() ended'' fr3 st = Some (r, st')"
        by simp
      moreover have "forced \<or> ap_day (re_chrono env) (utc_date (re_now_init env))"
        using True R by (auto simp: fr2_def fr1_def ap_day_def split: if_splits)
      moreover have "pv_ok (ap_buy_pv fr3)" "f64_rat (ap_buy_pv fr3) \<le> 200000" "0 \<le> f64_rat (ap_buy_pv fr3)"
        unfolding f3(4) using R by auto
      ultimately show ?thesis using trading [OF n f3(1-3)] by blast
    next
      case False
      with run show ?thesis by (intro quiet) auto
    qed
  qed
qed

text \<open>The caches the iterations of a run see, from the cache the run starts with.\<close>

definition run_caches :: "('c, 'e, 'r, 'v) run_env \<Rightarrow> mark_value_cache \<Rightarrow> nat \<Rightarrow> mark_value_cache" where
  "run_caches env c = cache_at (re_evolve env) (start_quote_stream (re_stream_ok env) c)"

lemma pqp_run_new:
  assumes "chrono_laws (re_chrono env)" and "pqp_run env forced st = Some (r, st')"
  shows "\<exists>new. rs_subs st' = rs_subs st @ new \<and> length new \<le> 14 \<and>
    list_all (well_formed (re_gateways env)) new \<and>
    (new \<noteq> [] \<longrightarrow> \<not> forced \<and> num_days_from_monday (re_chrono env) (utc_date (re_now_init env)) = 0 \<and>
       (\<exists>secs < 90. num_seconds_to_noon (re_tz env) (re_now_et env) = Inr secs)) \<and>
    ((\<forall>i. usable_world (re_api env) (run_caches env (rs_cache st) i) (re_worlds env i)) \<longrightarrow>
       sum_list (map buy_cost (filter (\<lambda>s. sub_type s = Buy) new)) \<le> 10264/10000 * 140000)"
  using assms
proof (cases rule: pqp_run_cases)
  case quiet
  then show ?thesis by simp
next
  case (trading secs fr st1)
  obtain new where new: "rs_subs st' = rs_subs st1 @ new"
    "pqp_allowed (re_api env) (re_gateways env) (run_caches env (rs_cache st1)) (re_worlds env) fr new"
    "new \<noteq> [] \<longrightarrow> \<not> is_simulation fr"
    using run_trading_subs [OF pqp.strategy_axioms trading(12) trading(2,3)] by (auto simp: run_caches_def)
  have "sum_list (map buy_cost (filter (\<lambda>s. sub_type s = Buy) new)) \<le> 10264/10000 * 140000"
    if "\<forall>i. usable_world (re_api env) (run_caches env (rs_cache st) i) (re_worlds env i)"
  proof -
    have "sum_list (map buy_cost (filter (\<lambda>s. sub_type s = Buy) new)) \<le> 10264/10000 * f64_rat (pqp_buy_pv fr)"
      using new(2) that trading(6,7,11) by (auto simp: pqp_allowed_def)
    also have "\<dots> \<le> 10264/10000 * 140000" using trading(8) by simp
    finally show ?thesis .
  qed
  moreover have "length new \<le> 14" "list_all (well_formed (re_gateways env)) new" using new(2) by (simp_all add: pqp_allowed_def)
  ultimately show ?thesis using new(1,3) trading(1,4,5,10) by (intro exI [of _ new]) auto
qed

lemma ap_run_new:
  assumes "chrono_laws (re_chrono env)" and "ap_run env forced st = Some (r, st')"
  shows "\<exists>new. rs_subs st' = rs_subs st @ new \<and> length new \<le> 2 \<and>
    list_all (\<lambda>s. well_formed (re_gateways env) s \<and> sub_type s = Buy) new \<and>
    (new \<noteq> [] \<longrightarrow> \<not> forced \<and> ap_day (re_chrono env) (utc_date (re_now_init env)) \<and>
       (\<exists>secs < 90. num_seconds_to_noon (re_tz env) (re_now_et env) = Inr secs)) \<and>
    ((\<forall>i. usable_world (re_api env) (run_caches env (rs_cache st) i) (re_worlds env i)) \<longrightarrow>
       sum_list (map buy_cost (filter (\<lambda>s. sub_type s = Buy) new)) \<le> 10264/10000 * 200000)"
  using assms
proof (cases rule: ap_run_cases)
  case quiet
  then show ?thesis by simp
next
  case (trading secs fr)
  obtain new where new: "rs_subs st' = rs_subs st @ new"
    "ap_allowed (re_api env) (re_gateways env) (run_caches env (rs_cache st)) (re_worlds env) fr new"
    "new \<noteq> [] \<longrightarrow> \<not> is_simulation fr"
    using run_trading_subs [OF ap.strategy_axioms trading(9) trading(2,3)] by (auto simp: run_caches_def)
  have "sum_list (map buy_cost (filter (\<lambda>s. sub_type s = Buy) new)) \<le> 10264/10000 * 200000"
    if "\<forall>i. usable_world (re_api env) (run_caches env (rs_cache st) i) (re_worlds env i)"
  proof -
    have "sum_list (map buy_cost (filter (\<lambda>s. sub_type s = Buy) new)) \<le> 10264/10000 * f64_rat (ap_buy_pv fr)"
      using new(2) that trading(6) unfolding ap_allowed_def by blast
    also have "\<dots> \<le> 10264/10000 * 200000" using trading(7) by simp
    finally show ?thesis .
  qed
  moreover have "length new \<le> 2" "list_all (\<lambda>s. well_formed (re_gateways env) s \<and> sub_type s = Buy) new"
    using new(2) by (auto simp: ap_allowed_def list_all_iff)
  ultimately show ?thesis using new(1,3) trading(1,4,5) by (intro exI [of _ new]) auto
qed

section \<open>Properties\<close>

text \<open>C2: A PQP run submits at most 14 orders, all well formed, and any at all only when it was not
  forced by the user, on a Monday, started less than 90 seconds from noon in New York; in a world of
  sane prices its buys cost at most 2.64 percent more than 140000 dollars.\<close>

theorem pqp_run_live_only:
  assumes "chrono_laws (re_chrono env)" and "pqp_run env forced st = Some (r, st')"
  shows "\<exists>new. rs_subs st' = rs_subs st @ new \<and> length new \<le> 14 \<and>
    list_all (well_formed (re_gateways env)) new \<and>
    (new \<noteq> [] \<longrightarrow> \<not> forced \<and> num_days_from_monday (re_chrono env) (utc_date (re_now_init env)) = 0 \<and>
       (\<exists>secs < 90. num_seconds_to_noon (re_tz env) (re_now_et env) = Inr secs)) \<and>
    ((\<forall>i. usable_world (re_api env) (run_caches env (rs_cache st) i) (re_worlds env i)) \<longrightarrow>
       sum_list (map buy_cost (filter (\<lambda>s. sub_type s = Buy) new)) \<le> 10264/10000 * 140000)"
  by (rule pqp_run_new [OF assms])

section \<open>Runs that end\<close>

text \<open>Every request of a run is answered, or fails; and a run that is over, with or without a panic.\<close>

definition run_answered :: "('c, 'e, 'r, 'v) run_env \<Rightarrow> bool" where
  "run_answered env \<longleftrightarrow> answering_api (re_api env) \<and>
     (\<forall>i. answering_world (re_worlds env i) \<and> answering_world (re_candidate_worlds env i))"

definition run_over :: "(unit outcome \<times> 'c run_state) option \<Rightarrow> bool" where
  "run_over res \<longleftrightarrow> (case res of None \<Rightarrow> False | Some (r, st) \<Rightarrow> ends r)"

lemma run_over_simps [simp]: "\<not> run_over None" "run_over (Some (r, st)) \<longleftrightarrow> ends r"
  by (simp_all add: run_over_def)

lemma task_loop_ends:
  assumes "i \<le> m" and "loop_endtime \<le> clock m" and "\<And>i fr subs. ends (fst (iter i fr subs))"
  shows "\<exists>r fr' subs' n. task_loop iter forcerun loop_endtime clock i fr subs = Some (r, fr', subs', n) \<and> n \<le> m \<and> ends r"
  using assms(1)
proof (induction arbitrary: fr subs rule: inc_induct)
  case base
  then show ?case using assms(2) by (subst task_loop.simps) simp
next
  case (step k)
  obtain r fr1 subs1 where 1: "iter k fr subs = (r, fr1, subs1)" by (metis prod_cases3)
  with assms(3) [of k fr subs] have "ends r" by simp
  then show ?case
    using step.hyps step.IH [of fr1 subs1] by (subst task_loop.simps) (auto simp: 1 split: sum.split)
qed

lemma run_trading_over:
  assumes "re_loop_start env + 270 * ns_per_sec \<le> re_clock env m"
    and "\<And>cache w fr subs. answering_world w \<Longrightarrow> ends (fst (iteration cache w fr subs))" and "run_answered env"
  shows "run_over (run_trading env iteration forced subject fr st)"
proof -
  let ?cache = "cache_at (re_evolve env) (start_quote_stream (re_stream_ok env) (rs_cache st))"
  have "ends (fst (iteration (?cache i) (re_worlds env i) fr subs))" for i fr subs
    using assms(2,3) by (simp add: run_answered_def)
  moreover have "re_loop_start env + loop_duration fr \<le> re_clock env m"
    using assms(1) by (simp add: loop_duration_def ns_per_sec_def)
  ultimately obtain q fr' subs' n where "task_loop (\<lambda>i. iteration (?cache i) (re_worlds env i)) forced
      (re_loop_start env + loop_duration fr) (re_clock env) 0 fr (rs_subs st) = Some (q, fr', subs', n)" "ends q"
    using task_loop_ends [where i = 0 and m = m and clock = "re_clock env"
        and iter = "\<lambda>i. iteration (?cache i) (re_worlds env i)"] by blast
  then show ?thesis by (auto simp: run_trading_def Let_def split: sum.split)
qed

lemma candidates_mail_ends: "run_answered env \<Longrightarrow> ends (candidates_mail env)"
  by (auto simp: candidates_mail_def run_answered_def intro!: ends_intros split: option.split)

lemma init_ends: "ends (fst (fast_runner_init C d ok fr))"
  by (auto simp: fast_runner_init_def pqp_ap_calculate_dates_and_pv_def ap_virtual_rebalance_date_def Let_def outcome_simps
      split: sum.split prod.split if_splits)

lemma noon_ends: "ends (num_seconds_to_noon Z now)"
  by (simp add: num_seconds_to_noon_def ends_intros)

lemma pqp_run_over:
  assumes "re_loop_start env + 270 * ns_per_sec \<le> re_clock env m" and "run_answered env"
  shows "run_over (pqp_run env forced st)"
proof -
  have "answering_api (re_api env)" using assms(2) by (simp add: run_answered_def)
  then have "run_over (run_trading env (pqp_iteration env) forced subject fr st1)" for subject fr st1
    using assms by (auto simp: pqp_iteration_def pqp_loop_ends intro!: run_trading_over)
  moreover have "ends (Inl e :: 'x outcome)" if "fast_runner_init C d ok fr = (Inl e, fr1)" for C d ok fr e fr1
    using init_ends [of C d ok fr] that by simp
  moreover have "ends (Inl e :: 'x outcome)" if "num_seconds_to_noon Z now = Inl e" for Z now e
    using noon_ends [of Z now] that by simp
  moreover have "ends (Inl e :: 'x outcome)" if "candidates_mail env = Inl e" for e
    using candidates_mail_ends [OF assms(2)] that by simp
  ultimately show ?thesis
    by (auto simp: pqp_run_def Let_def split: prod.split sum.split)
qed

lemma ap_run_over:
  assumes "re_loop_start env + 270 * ns_per_sec \<le> re_clock env m" and "run_answered env"
  shows "run_over (ap_run env forced st)"
proof -
  have "answering_api (re_api env)" using assms(2) by (simp add: run_answered_def)
  then have "run_over (run_trading env (ap_iteration env) forced subject fr st1)" for subject fr st1
    using assms by (auto simp: ap_iteration_def ap_loop_ends intro!: run_trading_over)
  moreover have "ends (Inl e :: 'x outcome)" if "fast_runner_init C d ok fr = (Inl e, fr1)" for C d ok fr e fr1
    using init_ends [of C d ok fr] that by simp
  moreover have "ends (Inl e :: 'x outcome)" if "num_seconds_to_noon Z now = Inl e" for Z now e
    using noon_ends [of Z now] that by simp
  ultimately show ?thesis
    by (auto simp: ap_run_def Let_def split: prod.split sum.split)
qed

text \<open>
  Monday 2025-06-16, 11:59:10 in New York, everything else as in the small world; and a world of a
  Monday at ten, in which the history does not decode.
\<close>

definition demo_noon :: instant where "demo_noon = (20255 * 86400 + 15 * 3600 + 59 * 60 + 10) * ns_per_sec"

definition demo_env :: "instant \<Rightarrow> unit sa_world \<Rightarrow> (unit, unit, unit, unit) run_env" where
  "demo_env now w = \<lparr>re_api = paper_api, re_gateways = paper_gateways, re_chrono = gregorian, re_tz = eastern_2025,
     re_config = Map.empty, re_dir_ok = True, re_now_init = now, re_now_et = now, re_candidate_worlds = (\<lambda>_. w),
     re_stream_ok = True, re_evolve = (\<lambda>_ c. c), re_loop_start = now,
     re_clock = (\<lambda>i. now + int i * 10 * ns_per_sec), re_worlds = (\<lambda>_. w)\<rparr>"

definition demo_state :: "unit run_state" where
  "demo_state = \<lparr>rs_runner = fast_runner_new, rs_cache = mvc_new ''A'', rs_subs = [], rs_mails = []\<rparr>"

lemma demo_env_simps [simp]:
  "re_api (demo_env now w) = paper_api" "re_gateways (demo_env now w) = paper_gateways"
  "re_chrono (demo_env now w) = gregorian" "re_tz (demo_env now w) = eastern_2025"
  "re_config (demo_env now w) = Map.empty" "re_dir_ok (demo_env now w)" "re_now_init (demo_env now w) = now"
  "re_now_et (demo_env now w) = now" "re_stream_ok (demo_env now w)" "re_evolve (demo_env now w) = (\<lambda>_ c. c)"
  "re_loop_start (demo_env now w) = now" "re_clock (demo_env now w) = (\<lambda>i. now + int i * 10 * ns_per_sec)"
  "re_worlds (demo_env now w) = (\<lambda>_. w)"
  "rs_subs demo_state = []" "rs_cache demo_state = mvc_new ''A''"
  by (simp_all add: demo_env_def demo_state_def)

lemma demo_answered: "run_answered (demo_env now demo_world)"
  by (simp add: run_answered_def answering_api_def answering_world_def demo_env_def demo_world_def paper_api_def)

lemma run_trading_total:
  assumes "re_loop_start env + loop_duration fr \<le> re_clock env m"
  shows "\<exists>r st'. run_trading env iteration forced subject fr st = Some (r, st')"
proof -
  obtain q fr' subs' n where "task_loop (\<lambda>i. iteration (cache_at (re_evolve env)
      (start_quote_stream (re_stream_ok env) (rs_cache st)) i) (re_worlds env i)) forced
      (re_loop_start env + loop_duration fr) (re_clock env) 0 fr (rs_subs st) = Some (q, fr', subs', n)"
    using task_loop_terminates [where i = 0 and m = m and clock = "re_clock env"] assms by blast
  then show ?thesis by (simp add: run_trading_def Let_def)
qed

lemma loop_duration_le: "loop_duration fr \<le> 270 * ns_per_sec"
  by (simp add: loop_duration_def ns_per_sec_def)

lemma pqp_run_total:
  assumes "re_loop_start env + 270 * ns_per_sec \<le> re_clock env m"
  shows "\<exists>r st'. pqp_run env forced st = Some (r, st')"
proof -
  have "\<exists>r st'. run_trading env iteration forced subject fr st1 = Some (r, st')" for iteration subject fr st1
    using run_trading_total [of env fr m] assms loop_duration_le [of fr] by force
  then show ?thesis
    by (auto simp: pqp_run_def Let_def split: prod.split sum.split)
qed

lemma ap_run_total:
  assumes "re_loop_start env + 270 * ns_per_sec \<le> re_clock env m"
  shows "\<exists>r st'. ap_run env forced st = Some (r, st')"
proof -
  have "\<exists>r st'. run_trading env iteration forced subject fr st1 = Some (r, st')" for iteration subject fr st1
    using run_trading_total [of env fr m] assms loop_duration_le [of fr] by force
  then show ?thesis
    by (auto simp: ap_run_def Let_def split: prod.split sum.split)
qed

theorem pqp_run_live_only_witness:
  "\<exists>r st' new. pqp_run (demo_env demo_noon demo_world) False demo_state = Some (r, st') \<and>
     rs_subs st' = new \<and> length new \<le> 14"
proof -
  obtain r st' where p: "pqp_run (demo_env demo_noon demo_world) False demo_state = Some (r, st')"
    using pqp_run_total [of "demo_env demo_noon demo_world" 27 False demo_state] by auto
  from pqp_run_live_only [OF _ this] gregorian_laws.chrono_laws_axioms p show ?thesis by auto
qed

text \<open>C3: An AP run submits at most two orders, well-formed buys, and any at all only when it was not
  forced by the user, on an AP day, started less than 90 seconds from noon in New York; in a world of
  sane prices its buys cost at most 2.64 percent more than 200000 dollars.\<close>

theorem ap_run_live_only:
  assumes "chrono_laws (re_chrono env)" and "ap_run env forced st = Some (r, st')"
  shows "\<exists>new. rs_subs st' = rs_subs st @ new \<and> length new \<le> 2 \<and>
    list_all (\<lambda>s. well_formed (re_gateways env) s \<and> sub_type s = Buy) new \<and>
    (new \<noteq> [] \<longrightarrow> \<not> forced \<and> ap_day (re_chrono env) (utc_date (re_now_init env)) \<and>
       (\<exists>secs < 90. num_seconds_to_noon (re_tz env) (re_now_et env) = Inr secs)) \<and>
    ((\<forall>i. usable_world (re_api env) (run_caches env (rs_cache st) i) (re_worlds env i)) \<longrightarrow>
       sum_list (map buy_cost (filter (\<lambda>s. sub_type s = Buy) new)) \<le> 10264/10000 * 200000)"
  by (rule ap_run_new [OF assms])

theorem ap_run_live_only_witness:
  "\<exists>r st' new. ap_run (demo_env demo_noon demo_world) False demo_state = Some (r, st') \<and>
     rs_subs st' = new \<and> length new \<le> 2"
proof -
  obtain r st' where p: "ap_run (demo_env demo_noon demo_world) False demo_state = Some (r, st')"
    using ap_run_total [of "demo_env demo_noon demo_world" 27 False demo_state] by auto
  from ap_run_live_only [OF _ this] gregorian_laws.chrono_laws_axioms p show ?thesis by auto
qed

text \<open>C20: The trading loop bounds its time, not its iterations: once the clock of some loop test is past the end time, and
  every request of the run to the web site and the broker is answered or fails, both runs end, normally or with a panic.\<close>

theorem run_terminates:
  assumes "re_loop_start env + 270 * ns_per_sec \<le> re_clock env m" and "run_answered env"
  shows "\<exists>r st' q st''. pqp_run env forced st = Some (r, st') \<and> r \<noteq> Inl Hang \<and>
    ap_run env forced st = Some (q, st'') \<and> q \<noteq> Inl Hang"
  using pqp_run_over [OF assms, of forced st] ap_run_over [OF assms, of forced st]
  by (auto simp: run_over_def ends_def split: option.splits)

theorem run_terminates_witness:
  "\<exists>r st'. pqp_run (demo_env 0 demo_world) False demo_state = Some (r, st') \<and> r \<noteq> Inl Hang"
  using run_terminates [of "demo_env 0 demo_world" 27 False demo_state] demo_answered by auto

text \<open>In a simulation the sleep between two loop tests bounds the iterations
  too: with a clock that advances by at least \<open>loop_sleep_ms_simulation\<close> between them, the loop
  returns after at most eight.\<close>

theorem simulated_loop_bound:
  assumes "is_simulation fr" and "start \<le> clock 0"
    and "\<And>i. clock i + int (loop_sleep_ms_simulation fast_runner_new) * 1000000 \<le> clock (Suc i)"
  shows "\<exists>r fr' subs' n. task_loop iter forced (start + loop_duration fr) clock 0 fr subs = Some (r, fr', subs', n) \<and> n \<le> 8"
proof -
  have step: "clock i + 3750000000 \<le> clock (Suc i)" for i
    using assms(3) [of i] by (simp add: fast_runner_new_def)
  have "start + int i * 3750000000 \<le> clock i" for i
  proof (induction i)
    case (Suc i)
    then show ?case using step [of i] by simp
  qed (simp add: assms(2))
  from this [of 8] have "start + loop_duration fr \<le> clock 8"
    using assms(1) by (simp add: loop_duration_def ns_per_sec_def)
  then show ?thesis using task_loop_terminates [where i = 0 and m = 8 and clock = clock] by blast
qed

theorem simulated_loop_bound_witness:
  "\<exists>r fr' subs' n. task_loop (\<lambda>_ fr subs. (Inr (), fr, subs)) False (0 + loop_duration (demo_runner True))
     (\<lambda>i. int i * 3750000000) 0 (demo_runner True) ([] :: unit submission list) = Some (r, fr', subs', n) \<and> n \<le> 8"
  by (rule simulated_loop_bound) (simp_all add: fast_runner_new_def)

text \<open>
  A run among the users of the quote stream: the shared system (\<open>mvc_step\<close>) begins at \<open>s\<close>, where the run is not
  inside, takes the run's start, and goes on with steps of the others, the states \<open>T k\<close> at the run's looks at the cache.
\<close>

definition others_step :: "bool \<Rightarrow> nat \<Rightarrow> nat \<Rightarrow> mvc_sys \<Rightarrow> mvc_sys \<Rightarrow> bool" where
  "others_step fails n i s s' \<longleftrightarrow> mvc_step fails n s s' \<and> (i \<in> inside s' \<longleftrightarrow> i \<in> inside s)"

definition run_among ::
  "bool \<Rightarrow> nat \<Rightarrow> string \<Rightarrow> nat \<Rightarrow> ('c, 'e, 'r, 'v) run_env \<Rightarrow> mark_value_cache \<Rightarrow> mvc_sys \<Rightarrow> (nat \<Rightarrow> mvc_sys) \<Rightarrow> bool" where
  "run_among fails n csv i env c s T \<longleftrightarrow>
     mvc_reach fails n csv s \<and> shared_cache s = c \<and> i < n \<and> i \<notin> inside s \<and> (re_stream_ok env \<or> fails) \<and>
     (others_step fails n i)\<^sup>*\<^sup>* (s\<lparr>shared_cache := start_quote_stream (re_stream_ok env) c, inside := insert i (inside s)\<rparr>) (T 0) \<and>
     (\<forall>k. (others_step fails n i)\<^sup>*\<^sup>* (T k) (T (Suc k))) \<and>
     (\<forall>k. shared_cache (T k) = cache_at (re_evolve env) (start_quote_stream (re_stream_ok env) c) k)"

lemma others_steps:
  "(others_step fails n i)\<^sup>*\<^sup>* s s' \<Longrightarrow> mvc_reach fails n csv s \<Longrightarrow> i \<in> inside s \<Longrightarrow> mvc_reach fails n csv s' \<and> i \<in> inside s'"
  by (induction rule: rtranclp_induct) (auto simp: others_step_def intro: mvc_reach.step)

lemma run_among_reach:
  assumes "run_among fails n csv i env c s T" shows "mvc_reach fails n csv (T k) \<and> i \<in> inside (T k)"
proof (induction k)
  case 0
  let ?s = "s\<lparr>shared_cache := start_quote_stream (re_stream_ok env) c, inside := insert i (inside s)\<rparr>"
  have "mvc_step fails n s ?s"
    using assms mvc_step.start [of i n s "re_stream_ok env" fails] by (auto simp: run_among_def)
  then have "mvc_reach fails n csv ?s" using assms by (auto simp: run_among_def intro: mvc_reach.step)
  then show ?case using assms by (intro others_steps [of _ _ _ ?s]) (auto simp: run_among_def)
next
  case (Suc k)
  then show ?case using assms by (intro others_steps [of _ _ _ "T k"]) (auto simp: run_among_def)
qed

lemma run_trading_cache:
  assumes "run_trading env iteration forced subject fr st = Some (r, st')"
  obtains m where "rs_cache st' = (if isl r then id else stop_quote_stream)
    (cache_at (re_evolve env) (start_quote_stream (re_stream_ok env) (rs_cache st)) m)"
proof -
  let ?at = "cache_at (re_evolve env) (start_quote_stream (re_stream_ok env) (rs_cache st))"
  let ?loop = "task_loop (\<lambda>i. iteration (?at i) (re_worlds env i)) forced (re_loop_start env + loop_duration fr)
      (re_clock env) 0 fr (rs_subs st)"
  have "?loop \<noteq> None" using assms by (auto simp: run_trading_def Let_def)
  then obtain q fr1 subs m where l: "?loop = Some (q, fr1, subs, m)" by (cases ?loop) auto
  have "isl q \<longleftrightarrow> isl r" "rs_cache st' = (if isl q then ?at m else stop_quote_stream (?at m))"
    using assms by (cases q; cases "re_config env ''email_gyant''"; auto simp: run_trading_def Let_def l)+
  then show thesis by (intro that [of m]) simp
qed

text \<open>C19: A run among concurrent users of the quote stream, whose starts and whose own start may fail, with quotes arriving
  and streams ending all the time: when it ends normally it is one user less, when its iteration panics or never returns
  it stays a user for ever, since the stop is not reached. After it the shared cache is that of a reachable state with
  exactly these users inside: the count never exceeds them, and where no start fails (at most 65535 users, some ticker) it
  is exactly their number and the stream's task is stored exactly while somebody is inside.\<close>

theorem run_stream_balance:
  assumes "run_trading env iteration forced subject fr st = Some (r, st')"
    and "run_among fails n csv i env (rs_cache st) s T"
  shows "\<exists>m s'. mvc_reach fails n csv s' \<and> shared_cache s' = rs_cache st' \<and>
    i \<in> inside (T m) \<and> inside s' = (if isl r then inside (T m) else inside (T m) - {i}) \<and>
    unat (quote_stream_users (rs_cache st')) \<le> card (inside s') \<and>
    (\<not> fails \<and> n \<le> 65535 \<and> csv_tickers csv \<noteq> [] \<longrightarrow>
       unat (quote_stream_users (rs_cache st')) = card (inside s') \<and>
       (quote_stream_task (rs_cache st') = None \<longleftrightarrow> inside s' = {}))"
proof -
  obtain m where m: "rs_cache st' = (if isl r then id else stop_quote_stream) (shared_cache (T m))"
    using run_trading_cache [OF assms(1)] assms(2) by (auto simp: run_among_def)
  note T = run_among_reach [OF assms(2), of m]
  define s' where "s' = (if isl r then T m else (T m)\<lparr>shared_cache := stop_quote_stream (shared_cache (T m)), inside := inside (T m) - {i}\<rparr>)"
  have reach: "mvc_reach fails n csv s'"
    using T mvc_step.stop [of i "T m" fails n] by (auto simp: s'_def intro: mvc_reach.step)
  have s': "shared_cache s' = rs_cache st'" "inside s' = (if isl r then inside (T m) else inside (T m) - {i})"
    by (simp_all add: s'_def m)
  have inv: "mvc_inv (rs_cache st')" "unat (quote_stream_users (rs_cache st')) \<le> card (inside s')"
    using mvc_reach_inv [OF reach] by (simp_all add: mvc_sys_inv_def s'(1))
  have exact: "unat (quote_stream_users (rs_cache st')) = card (inside s') \<and>
      (quote_stream_task (rs_cache st') = None \<longleftrightarrow> inside s' = {})"
    if "\<not> fails \<and> n \<le> 65535 \<and> csv_tickers csv \<noteq> []"
    using mvc_reach_exact [of n csv s'] reach inv that by (auto simp: mvc_exact_def mvc_inv_def unat_eq_0 s'(1))
  show ?thesis
    by (rule exI [of _ m], rule exI [of _ s'], intro conjI impI; fact reach s' inv(2) T [THEN conjunct2]
        exact [THEN conjunct1] exact [THEN conjunct2])
qed

text \<open>A second user starts while the run's first download fails: the run panics, and the count stays at two.\<close>

theorem run_stream_balance_witness:
  "\<exists>(env :: (unit, unit, unit, unit) run_env) e st'. run_trading env (pqp_iteration env) False ''s'' (demo_runner True)
       (demo_state\<lparr>rs_cache := mvc_init (mvc_new ''A'')\<rparr> :: unit run_state) = Some (Inl e, st') \<and>
     unat (quote_stream_users (rs_cache st')) = 2 \<and> quote_stream_task (rs_cache st') \<noteq> None"
proof -
  let ?w = "demo_world\<lparr>http_get := \<lambda>_ _. SendFailed\<rparr>" and ?c = "mvc_init (mvc_new ''A'')"
  define env where "env = (demo_env 0 ?w)\<lparr>re_evolve := \<lambda>k c. if k = 0 then start_quote_stream True c else c\<rparr>"
  define st where "st = (demo_state :: unit run_state)\<lparr>rs_cache := ?c\<rparr>"
  define T where "T = (\<lambda>k::nat. \<lparr>shared_cache = start_quote_stream True (start_quote_stream True ?c), inside = {0, 1::nat}\<rparr>)"
  let ?i = "\<lparr>shared_cache = ?c, inside = {}\<rparr>"
  have env: "re_api env = paper_api" "re_gateways env = paper_gateways" "re_stream_ok env" "re_worlds env = (\<lambda>_. ?w)"
    "re_loop_start env = 0" "re_clock env = (\<lambda>i. int i * 10 * ns_per_sec)"
    "re_evolve env = (\<lambda>k c. if k = 0 then start_quote_stream True c else c)"
    by (simp_all add: env_def)
  have fails: "fst (fastrunning_loop_pqp_impl paper_api paper_gateways c ?w (demo_runner True) subs) =
      Inl (Panic ''reqwest client.get() failed!'')" for c subs
    by (simp add: fastrunning_loop_pqp_impl_def get_new_transactions_pqp_def ensure_cookies_loaded_def demo_world_def
        demo_runner_def fast_runner_new_def download_def Let_def)
  obtain fr' s' where "fastrunning_loop_pqp_impl paper_api paper_gateways
      (cache_at (re_evolve env) (start_quote_stream True ?c) 0) ?w (demo_runner True) [] =
      (Inl (Panic ''reqwest client.get() failed!''), fr', s')"
    using fails by (metis prod.collapse)
  then have "\<exists>st'. run_trading env (pqp_iteration env) False ''s'' (demo_runner True) st =
      Some (Inl (Panic ''reqwest client.get() failed!''), st')"
    by (simp add: run_trading_def Let_def pqp_iteration_def loop_duration_def ns_per_sec_def env st_def
        task_loop.simps [of _ _ _ _ 0])
  then obtain e st' where r: "run_trading env (pqp_iteration env) False ''s'' (demo_runner True) st = Some (Inl e, st')" by blast
  have at: "cache_at (\<lambda>k c. if k = 0 then start_quote_stream True c else c) c k = start_quote_stream True c" for c k
    by (induction k) simp_all
  let ?s = "?i\<lparr>shared_cache := start_quote_stream True ?c, inside := insert 0 (inside ?i)\<rparr>"
  have "others_step False 2 0 ?s (T 0)"
    using mvc_step.start [of 1 2 "\<lparr>shared_cache = start_quote_stream True ?c, inside = {0}\<rparr>" True False]
    by (simp add: others_step_def T_def insert_commute)
  then have h0: "(others_step False 2 0)\<^sup>*\<^sup>* ?s (T 0)" by (rule r_into_rtranclp)
  have "T k = T (Suc k)" for k by (simp add: T_def)
  then have h1: "(others_step False 2 0)\<^sup>*\<^sup>* (T k) (T (Suc k))" for k by (metis rtranclp.rtrancl_refl)
  have h2: "shared_cache (T k) = cache_at (re_evolve env) (start_quote_stream (re_stream_ok env) ?c) k" for k
    by (simp add: env at T_def)
  have ok: "re_stream_ok env = True" and c: "rs_cache st = ?c" by (simp_all add: env(3) st_def)
  have "run_among False 2 ''A'' 0 env (rs_cache st) ?i T"
    unfolding run_among_def ok c using h0 h1 h2 [unfolded ok] mvc_reach.init [of False 2 "''A''"] by simp
  note b = run_stream_balance [OF r this]
  have csv: "csv_tickers ''A'' \<noteq> []" by (simp add: csv_tickers_def trim_id is_ws1_def)
  have T: "inside (T m) = {0, 1}" for m by (simp add: T_def)
  from b csv have "unat (quote_stream_users (rs_cache st')) = 2 \<and> quote_stream_task (rs_cache st') \<noteq> None"
    by (simp add: T) (elim exE conjE, simp)
  from conjI [OF r [unfolded st_def] this] show ?thesis by (intro exI)
qed

lemma fold_min_mem: "fold min ts t \<in> insert t (set ts)" for t :: int
  by (induction ts arbitrary: t) (auto simp: min_def)

lemma fold_min_le: "fold min ts t \<le> t \<and> (\<forall>u \<in> set ts. fold min ts t \<le> u)" for t :: int
  by (induction ts arbitrary: t) (auto simp: min_def, fastforce+)

lemma earliest_future:
  assumes "tz_laws Z safe" and "\<And>t. t \<in> set targets \<Longrightarrow> safe \<le> t \<and> t < day_ns" and "targets \<noteq> []"
  shows "\<exists>v. earliest_of (map (localtimeonly2future_datetime_tz Z now) targets) = Inr v \<and> now < v \<and>
    snd (tz_local Z v) \<in> set targets \<and> (\<forall>t \<in> set targets. v \<le> localtimeonly2future_datetime_tz Z now t)"
proof -
  let ?f = "localtimeonly2future_datetime_tz Z now"
  obtain t ts where ts: "targets = t # ts" using assms(3) by (cases targets) auto
  let ?v = "fold min (map ?f ts) (?f t)"
  have "?v \<in> ?f ` set targets" using fold_min_mem [of "map ?f ts" "?f t"] by (auto simp: ts)
  then obtain u where u: "u \<in> set targets" "?v = ?f u" by blast
  with tz_laws.future_target [OF assms(1), of u now] assms(2) [of u]
  have "now < ?v" "snd (tz_local Z ?v) = u" by simp_all
  moreover have "\<forall>t \<in> set targets. ?v \<le> ?f t" using fold_min_le [of "map ?f ts" "?f t"] by (auto simp: ts)
  ultimately show ?thesis using u by (simp add: earliest_of_def ts)
qed

text \<open>C21: In a time zone whose clock changes all happen before three in the
  morning, a task's next trigger time is in the future, it is the earliest of the future times of its
  targets, and in local time it is one of them; this goes for both tasks.\<close>

theorem next_trigger_future:
  assumes "tz_laws Z (hms 3 0 0)"
  shows "\<exists>v u. pqp_get_next_trigger_time_impl Z now = Inr v \<and> now < v \<and> snd (tz_local Z v) \<in> set pqp_targets \<and>
    ap_get_next_trigger_time_impl Z now = Inr u \<and> now < u \<and> snd (tz_local Z u) \<in> set ap_targets \<and>
    list_all (\<lambda>t. v \<le> localtimeonly2future_datetime_tz Z now t) pqp_targets \<and>
    list_all (\<lambda>t. u \<le> localtimeonly2future_datetime_tz Z now t) ap_targets"
proof -
  have "hms 3 0 0 \<le> t \<and> t < day_ns" if "t \<in> set pqp_targets \<union> set ap_targets" for t
    using that by (auto simp: pqp_targets_def ap_targets_def hms_def ns_per_sec_def day_ns_def)
  moreover have "pqp_targets \<noteq> []" "ap_targets \<noteq> []" by (simp_all add: pqp_targets_def ap_targets_def)
  ultimately show ?thesis
    using earliest_future [OF assms, of pqp_targets now] earliest_future [OF assms, of ap_targets now]
    by (auto simp: pqp_get_next_trigger_time_impl_def ap_get_next_trigger_time_impl_def list_all_iff)
qed

theorem next_trigger_future_witness:
  "\<exists>v. pqp_get_next_trigger_time_impl eastern_2025 demo_noon = Inr v \<and> demo_noon < v"
  using next_trigger_future [OF eastern_laws.tz_laws_axioms, of demo_noon] by blast

text \<open>The comment on both functions says the tasks run three times a day;
  there are four targets, and from midnight on the next trigger is the first of them, 9:45:10 for PQP and
  9:50:10 for AP, not the 11:01 of the comment.\<close>

theorem four_triggers_a_day:
  "pqp_get_next_trigger_time_impl eastern_2025 (20255 * day_ns + hms 4 0 0) =
     Inr (20255 * day_ns + hms 13 45 10) \<and>
   ap_get_next_trigger_time_impl eastern_2025 (20255 * day_ns + hms 4 0 0) =
     Inr (20255 * day_ns + hms 13 50 10) \<and>
   length pqp_targets = 4 \<and> length ap_targets = 4"
  by (simp add: pqp_get_next_trigger_time_impl_def ap_get_next_trigger_time_impl_def pqp_targets_def ap_targets_def
      earliest_of_def localtimeonly2future_datetime_tz_def eastern_2025_def eastern_defs day_ns_def hms_def ns_per_sec_def Let_def)

end
