(* ===== verification/TaskScheduler.thy ===== *)
theory TaskScheduler
  imports FastRunnerTask
begin

text \<open>
  \<open>rqcoresrv/src/services/rqtask_scheduler.rs\<close>: the trait \<open>RqTask\<close> is the record
  \<open>rq_task_trait\<close> of its methods, the scheduler is written over it, and the locale
  \<open>task_contract\<close> states what the scheduler needs of a task. The three implementations of the
  trait (the heartbeat and the two tasks of \<open>fast_runner_task.rs\<close>) are the datatype
  \<open>rq_task\<close>, their methods \<open>rq_tasks\<close>, on which the contract is interpreted. The last
  section has the tasks \<open>main()\<close> schedules.
\<close>

section \<open>The trait and the scheduler\<close>

record 't rq_task_trait =
  trait_name :: "'t \<Rightarrow> string"
  get_next_trigger_time :: "'t \<Rightarrow> instant"
  update_next_trigger_time :: "instant \<Rightarrow> 't \<Rightarrow> 't outcome"

definition schedule_task :: "'t \<Rightarrow> 't list \<Rightarrow> 't list" where
  "schedule_task t tasks = tasks @ [t]"

definition print_next_trigger_times :: "'t rq_task_trait \<Rightarrow> 't list \<Rightarrow> (string \<times> instant) list" where
  "print_next_trigger_times T tasks = map (\<lambda>t. (trait_name T t, get_next_trigger_time T t)) tasks"

text \<open>
  One turn of the scheduler's loop. A task is known by its place in the vector, which only grows.
  \<open>clk i\<close> is the time \<open>update_next_trigger_time\<close> of task \<open>i\<close> reads; \<open>added\<close> are the
  tasks other threads schedule before the soonest trigger is computed. The result is the sleep in
  nanoseconds (0: none), the tasks, and the tasks spawned.
\<close>

definition collect_due :: "'t rq_task_trait \<Rightarrow> instant \<Rightarrow> 't list \<Rightarrow> nat list" where
  "collect_due T now tasks = filter (\<lambda>i. get_next_trigger_time T (tasks ! i) \<le> now) [0..<length tasks]"

fun spawn_due :: "'t rq_task_trait \<Rightarrow> (nat \<Rightarrow> instant) \<Rightarrow> nat list \<Rightarrow> 't list \<Rightarrow> nat list
    \<Rightarrow> unit outcome \<times> 't list \<times> nat list" where
  "spawn_due T clk [] tasks spawned = (Inr (), tasks, spawned)"
| "spawn_due T clk (i # due) tasks spawned =
     (case update_next_trigger_time T (clk i) (tasks ! i) of
        Inl e \<Rightarrow> (Inl e, tasks, spawned @ [i])
      | Inr t \<Rightarrow> spawn_due T clk due (tasks[i := t]) (spawned @ [i]))"

fun recompute_soonest :: "'t rq_task_trait \<Rightarrow> instant option \<Rightarrow> 't list \<Rightarrow> instant option" where
  "recompute_soonest T soonest [] = soonest"
| "recompute_soonest T soonest (t # tasks) =
     (let trigger = get_next_trigger_time T t
      in recompute_soonest T (case soonest of Some s \<Rightarrow> if trigger < s then Some trigger else Some s
                                            | None \<Rightarrow> Some trigger) tasks)"

definition sleep_duration :: "instant \<Rightarrow> instant option \<Rightarrow> int" where
  "sleep_duration now soonest =
     (case soonest of Some s \<Rightarrow> if s > now then s - now else 0 | None \<Rightarrow> 60 * ns_per_sec)"

definition scheduler_iteration :: "'t rq_task_trait \<Rightarrow> instant \<Rightarrow> (nat \<Rightarrow> instant) \<Rightarrow> 't list \<Rightarrow> 't list
    \<Rightarrow> int outcome \<times> 't list \<times> nat list" where
  "scheduler_iteration T now clk added tasks =
     (case spawn_due T clk (collect_due T now tasks) tasks [] of
        (Inl e, tasks, spawned) \<Rightarrow> (Inl e, tasks, spawned)
      | (Inr _, tasks, spawned) \<Rightarrow>
          (let tasks = tasks @ added
           in (Inr (sleep_duration now (recompute_soonest T None tasks)), tasks, spawned)))"

text \<open>
  The scheduler over time: the tasks, the time before which the sleep does not end, and the runs
  begun so far, each with its task, the trigger it answers and the time. \<open>scheduled\<close> tells the
  tasks that are ever scheduled. Time is monotone here; a clock set back only delays the next turn.
\<close>

record run_begun =
  rb_task :: nat
  rb_trigger :: instant
  rb_now :: instant

record 't sched_state =
  ss_tasks :: "'t list"
  ss_wake :: instant
  ss_log :: "run_begun list"

inductive scheduler_step :: "'t rq_task_trait \<Rightarrow> ('t \<Rightarrow> bool) \<Rightarrow> 't sched_state \<Rightarrow> 't sched_state \<Rightarrow> bool" for T scheduled where
  turn: "ss_wake s \<le> now \<Longrightarrow> \<forall>i. now \<le> clk i \<Longrightarrow> list_all scheduled added \<Longrightarrow>
    scheduler_iteration T now clk added (ss_tasks s) = (Inr d, tasks', spawned) \<Longrightarrow>
    scheduler_step T scheduled s \<lparr>ss_tasks = tasks', ss_wake = now + d, ss_log = ss_log s @
      map (\<lambda>i. \<lparr>rb_task = i, rb_trigger = get_next_trigger_time T (ss_tasks s ! i), rb_now = now\<rparr>) spawned\<rparr>"
| schedule: "scheduled t \<Longrightarrow> scheduler_step T scheduled s (s\<lparr>ss_tasks := schedule_task t (ss_tasks s)\<rparr>)"

definition runs_of :: "nat \<Rightarrow> run_begun list \<Rightarrow> run_begun list" where
  "runs_of i runs = filter (\<lambda>r. rb_task r = i) runs"

section \<open>What one turn does\<close>

lemma collect_due_distinct [simp]: "distinct (collect_due T now tasks)"
  by (simp add: collect_due_def)

lemma set_collect_due:
  "i \<in> set (collect_due T now tasks) \<longleftrightarrow> i < length tasks \<and> get_next_trigger_time T (tasks ! i) \<le> now"
  by (auto simp: collect_due_def)

lemma recompute_soonest_from:
  "recompute_soonest T (Some s) tasks = Some (Min (insert s (get_next_trigger_time T ` set tasks)))"
proof (induction tasks arbitrary: s)
  case Nil
  then show ?case by simp
next
  case (Cons t tasks)
  let ?g = "get_next_trigger_time T t" and ?G = "get_next_trigger_time T ` set tasks"
  have "Min (insert (min s ?g) ?G) = min s (Min (insert ?g ?G))"
    by (cases "?G = {}") (simp_all add: min.assoc)
  also have "\<dots> = Min (insert s (insert ?g ?G))" by simp
  finally show ?case using Cons.IH by (auto simp: Let_def min_def split: if_splits)
qed

lemma recompute_soonest_Some:
  "tasks \<noteq> [] \<Longrightarrow> recompute_soonest T None tasks = Some (Min (get_next_trigger_time T ` set tasks))"
  by (cases tasks) (simp_all add: recompute_soonest_from Let_def)

text \<open>
  What the scheduler needs of a task: an update leaves a trigger after the time it read, and the
  task's name; a trigger is a time the task is meant for.
\<close>

locale task_contract =
  fixes T :: "'t rq_task_trait" and ok :: "'t \<Rightarrow> bool" and meant :: "string \<Rightarrow> instant \<Rightarrow> bool"
  assumes update_future: "ok t \<Longrightarrow> \<exists>t'. update_next_trigger_time T now t = Inr t' \<and> ok t' \<and>
      now < get_next_trigger_time T t' \<and> trait_name T t' = trait_name T t"
    and ok_meant: "ok t \<Longrightarrow> meant (trait_name T t) (get_next_trigger_time T t)"
begin

lemma spawn_due_spec:
  assumes "\<forall>i \<in> set due. i < length tasks \<and> now \<le> clk i" and "list_all ok tasks" and "distinct due"
  shows "\<exists>tasks'. spawn_due T clk due tasks spawned = (Inr (), tasks', spawned @ due) \<and>
    length tasks' = length tasks \<and> list_all ok tasks' \<and>
    map (trait_name T) tasks' = map (trait_name T) tasks \<and>
    (\<forall>j < length tasks. if j \<in> set due then now < get_next_trigger_time T (tasks' ! j) else tasks' ! j = tasks ! j)"
  using assms
proof (induction due arbitrary: tasks spawned)
  case Nil
  then show ?case by simp
next
  case (Cons i due)
  then have i: "i < length tasks" "now \<le> clk i" "ok (tasks ! i)" by (auto simp: list_all_length)
  obtain t where t: "update_next_trigger_time T (clk i) (tasks ! i) = Inr t" "ok t"
    "now < get_next_trigger_time T t" "trait_name T t = trait_name T (tasks ! i)"
    using update_future [OF i(3), of "clk i"] i(2) by force
  have ok: "list_all ok (tasks[i := t])"
    using Cons.prems(2) t(2) i(1) by (auto simp: list_all_length nth_list_update)
  have pre: "\<forall>k \<in> set due. k < length (tasks[i := t]) \<and> now \<le> clk k" "distinct due" "i \<notin> set due"
    using Cons.prems by auto
  have names: "map (trait_name T) (tasks[i := t]) = map (trait_name T) tasks"
    using t(4) i(1) by (simp add: map_update list_update_same_conv)
  obtain tasks' where IH: "spawn_due T clk due (tasks[i := t]) (spawned @ [i]) = (Inr (), tasks', (spawned @ [i]) @ due)"
    "length tasks' = length tasks" "list_all ok tasks'"
    "map (trait_name T) tasks' = map (trait_name T) tasks"
    "\<forall>j < length tasks. if j \<in> set due then now < get_next_trigger_time T (tasks' ! j) else tasks' ! j = tasks[i := t] ! j"
    using Cons.IH [OF pre(1) ok pre(2), of "spawned @ [i]"] names by auto
  have "if j \<in> set (i # due) then now < get_next_trigger_time T (tasks' ! j) else tasks' ! j = tasks ! j"
    if "j < length tasks" for j
    using IH(5) that pre(3) t(3) i(1) by (cases "j = i") (auto split: if_splits)
  with IH t(1) show ?case by auto
qed

lemma iteration_spec:
  assumes "\<forall>i. now \<le> clk i" and "list_all ok tasks" and "list_all ok added"
  shows "\<exists>tasks' d. scheduler_iteration T now clk added tasks = (Inr d, tasks' @ added, collect_due T now tasks) \<and>
    length tasks' = length tasks \<and> list_all ok tasks' \<and> map (trait_name T) tasks' = map (trait_name T) tasks \<and>
    list_all (\<lambda>t. now < get_next_trigger_time T t) tasks' \<and>
    (\<forall>j < length tasks. now < get_next_trigger_time T (tasks ! j) \<longrightarrow> tasks' ! j = tasks ! j) \<and>
    d = (if tasks' @ added = [] then 60 * ns_per_sec
         else max 0 (Min (get_next_trigger_time T ` set (tasks' @ added)) - now))"
proof -
  let ?due = "collect_due T now tasks"
  have pre: "\<forall>i \<in> set ?due. i < length tasks \<and> now \<le> clk i" using assms(1) by (simp add: set_collect_due)
  obtain tasks' where s: "spawn_due T clk ?due tasks [] = (Inr (), tasks', ?due)"
    "length tasks' = length tasks" "list_all ok tasks'"
    "map (trait_name T) tasks' = map (trait_name T) tasks"
    "\<forall>j < length tasks. if j \<in> set ?due then now < get_next_trigger_time T (tasks' ! j) else tasks' ! j = tasks ! j"
    using spawn_due_spec [OF pre assms(2) collect_due_distinct, of "[]"] by auto
  have future: "list_all (\<lambda>t. now < get_next_trigger_time T t) tasks'"
    using s(2,5) by (auto simp: list_all_length set_collect_due split: if_splits)
  have same: "\<forall>j < length tasks. now < get_next_trigger_time T (tasks ! j) \<longrightarrow> tasks' ! j = tasks ! j"
    using s(5) by (auto simp: set_collect_due split: if_splits)
  have "sleep_duration now (recompute_soonest T None (tasks' @ added)) = (if tasks' @ added = [] then 60 * ns_per_sec
         else max 0 (Min (get_next_trigger_time T ` set (tasks' @ added)) - now))"
    by (cases "tasks' @ added = []") (simp_all add: recompute_soonest_Some sleep_duration_def max_def del: append_is_Nil_conv)
  then show ?thesis using s(1,2,3,4) future same by (auto simp: scheduler_iteration_def Let_def)
qed


text \<open>
  The invariant of the scheduler: every run was due when it began, and the next run of its task
  answers a later trigger.
\<close>

definition ss_inv :: "'t sched_state \<Rightarrow> bool" where
  "ss_inv s \<longleftrightarrow> list_all ok (ss_tasks s) \<and>
     (\<forall>r \<in> set (ss_log s). rb_trigger r \<le> rb_now r \<and> rb_task r < length (ss_tasks s) \<and>
        meant (trait_name T (ss_tasks s ! rb_task r)) (rb_trigger r) \<and>
        rb_now r < get_next_trigger_time T (ss_tasks s ! rb_task r)) \<and>
     (\<forall>i. successively (\<lambda>a b. rb_now a < rb_trigger b) (runs_of i (ss_log s)))"

lemma ss_inv_step:
  assumes "scheduler_step T scheduled s s'" and "ss_inv s" and "\<And>t. scheduled t \<Longrightarrow> ok t"
  shows "ss_inv s'"
  using assms(1)
proof cases
  case (schedule t)
  then show ?thesis using assms(2,3) by (auto simp: ss_inv_def schedule_task_def nth_append)
next
  case (turn now clk added d tasks' spawned)
  let ?new = "\<lambda>i. \<lparr>rb_task = i, rb_trigger = get_next_trigger_time T (ss_tasks s ! i), rb_now = now\<rparr>"
  have inv: "list_all ok (ss_tasks s)" and added: "list_all ok added"
    using assms(2,3) turn(4) by (auto simp: ss_inv_def list_all_iff)
  obtain tasks1 where t: "tasks' = tasks1 @ added" "spawned = collect_due T now (ss_tasks s)"
    "length tasks1 = length (ss_tasks s)" "list_all ok tasks1"
    "list_all (\<lambda>t. now < get_next_trigger_time T t) tasks1"
    "map (trait_name T) tasks1 = map (trait_name T) (ss_tasks s)"
    "\<forall>j < length (ss_tasks s). now < get_next_trigger_time T (ss_tasks s ! j) \<longrightarrow> tasks1 ! j = ss_tasks s ! j"
    using iteration_spec [OF turn(3) inv added] turn(5) by auto
  have fut: "now < get_next_trigger_time T (tasks' ! j)" if "j < length (ss_tasks s)" for j
    using that t(1,3,5) by (auto simp: list_all_length nth_append)
  have name: "trait_name T (tasks' ! j) = trait_name T (ss_tasks s ! j)" if "j < length (ss_tasks s)" for j
    using that t(1,3) arg_cong [OF t(6), of "\<lambda>xs. xs ! j"] by (simp add: nth_append)
  have old: "rb_task r < length tasks' \<and> meant (trait_name T (tasks' ! rb_task r)) (rb_trigger r) \<and> rb_trigger r \<le> rb_now r \<and>
    rb_now r < get_next_trigger_time T (tasks' ! rb_task r)" if "r \<in> set (ss_log s)" for r
  proof -
    have r: "rb_task r < length (ss_tasks s)" "meant (trait_name T (ss_tasks s ! rb_task r)) (rb_trigger r)" "rb_trigger r \<le> rb_now r"
      "rb_now r < get_next_trigger_time T (ss_tasks s ! rb_task r)"
      using assms(2) that by (auto simp: ss_inv_def)
    then show ?thesis
      using fut [OF r(1)] name [OF r(1)] t(1,3,7) by (cases "now < get_next_trigger_time T (ss_tasks s ! rb_task r)") (auto simp: nth_append)
  qed
  have chain: "successively (\<lambda>a b. rb_now a < rb_trigger b) (runs_of i (ss_log s @ map ?new spawned))" for i
  proof -
    have new: "runs_of i (map ?new spawned) = (if i \<in> set spawned then [?new i] else [])"
      using collect_due_distinct [of T now "ss_tasks s"] unfolding t(2) [symmetric]
      by (induction spawned) (auto simp: runs_of_def)
    have "rb_now (last (runs_of i (ss_log s))) < get_next_trigger_time T (ss_tasks s ! i)"
      if "runs_of i (ss_log s) \<noteq> []"
      using assms(2) last_in_set [OF that] by (auto simp: ss_inv_def runs_of_def)
    then show ?thesis using assms(2) new
      by (auto simp: ss_inv_def successively_append_iff runs_of_def)
  qed
  have "rb_trigger (?new i) \<le> now \<and> i < length (ss_tasks s) \<and>
      meant (trait_name T (tasks' ! i)) (rb_trigger (?new i))" if "i \<in> set spawned" for i
    using that t(2) inv ok_meant [of "ss_tasks s ! i"] name [of i] by (simp add: set_collect_due list_all_length)
  with old chain fut t(1,3,4) added show ?thesis
    unfolding turn(1) by (auto simp: ss_inv_def intro: trans_less_add1)
qed

lemma ss_inv_reach:
  assumes "(scheduler_step T scheduled)\<^sup>*\<^sup>* s s'" and "ss_inv s" and "\<And>t. scheduled t \<Longrightarrow> ok t"
  shows "ss_inv s'"
  using assms(1,2) by (induction rule: rtranclp_induct) (auto intro: ss_inv_step assms(3))

end
section \<open>The tasks\<close>

datatype rq_task =
    HeartbeatTask (interval: int) (next_time: instant)
  | FastRunnerPqpTask (next_time: instant) (is_manual_user_forcerun: bool)
  | FastRunnerApTask (next_time: instant) (is_manual_user_forcerun: bool)

definition ten_minutes :: int where "ten_minutes = 10 * 60 * ns_per_sec"

definition heartbeat_new :: "instant \<Rightarrow> rq_task" where
  "heartbeat_new now = HeartbeatTask ten_minutes (now + ten_minutes)"

definition fast_runner_pqp_task_new :: "tz \<Rightarrow> instant \<Rightarrow> rq_task outcome" where
  "fast_runner_pqp_task_new Z now =
     bind_out (pqp_get_next_trigger_time_impl Z now) (\<lambda>next_utc. Inr (FastRunnerPqpTask next_utc False))"

definition fast_runner_ap_task_new :: "tz \<Rightarrow> instant \<Rightarrow> rq_task outcome" where
  "fast_runner_ap_task_new Z now =
     bind_out (ap_get_next_trigger_time_impl Z now) (\<lambda>next_utc. Inr (FastRunnerApTask next_utc False))"

fun task_name :: "rq_task \<Rightarrow> string" where
  "task_name (HeartbeatTask _ _) = ''HeartbeatTask''"
| "task_name (FastRunnerPqpTask _ _) = ''FastRunnerPqpTask''"
| "task_name (FastRunnerApTask _ _) = ''FastRunnerApTask''"

fun task_update :: "tz \<Rightarrow> instant \<Rightarrow> rq_task \<Rightarrow> rq_task outcome" where
  "task_update Z now (HeartbeatTask d _) = Inr (HeartbeatTask d (now + d))"
| "task_update Z now (FastRunnerPqpTask _ f) =
     bind_out (pqp_get_next_trigger_time_impl Z now) (\<lambda>next_utc. Inr (FastRunnerPqpTask next_utc f))"
| "task_update Z now (FastRunnerApTask _ f) =
     bind_out (ap_get_next_trigger_time_impl Z now) (\<lambda>next_utc. Inr (FastRunnerApTask next_utc f))"

definition rq_tasks :: "tz \<Rightarrow> rq_task rq_task_trait" where
  "rq_tasks Z = \<lparr>trait_name = task_name, get_next_trigger_time = next_time, update_next_trigger_time = task_update Z\<rparr>"

fun task_run :: "('c, 'e, 'r, 'v) run_env \<Rightarrow> rq_task \<Rightarrow> 'c run_state \<Rightarrow> (unit outcome \<times> 'c run_state) option" where
  "task_run env (HeartbeatTask _ _) st = Some (Inr (), st)"
| "task_run env (FastRunnerPqpTask _ f) st = pqp_run env f st"
| "task_run env (FastRunnerApTask _ f) st = ap_run env f st"

text \<open>Lines 419 to 427 of \<open>main.rs\<close>; \<open>clk\<close> has the time of each constructor.\<close>

definition scheduled_tasks :: "tz \<Rightarrow> (nat \<Rightarrow> instant) \<Rightarrow> string \<Rightarrow> string option \<Rightarrow> rq_task list outcome" where
  "scheduled_tasks Z clk os userdomain =
     (let tasks = schedule_task (heartbeat_new (clk 0)) []
      in if os \<noteq> ''windows'' then Inr tasks
         else bind_out (expect userdomain ''Failed to get USERDOMAIN environment variable'') (\<lambda>userdomain.
           if userdomain = ''GYANTAL-PC'' \<or> userdomain = ''GYANTAL-LAPTOP'' then
             bind_out (fast_runner_pqp_task_new Z (clk 1)) (\<lambda>pqp.
             bind_out (fast_runner_ap_task_new Z (clk 2)) (\<lambda>ap.
               Inr (schedule_task ap (schedule_task pqp tasks))))
           else Inr tasks))"

text \<open>What the tasks of the program satisfy at all times.\<close>

fun task_ok :: "tz \<Rightarrow> rq_task \<Rightarrow> bool" where
  "task_ok Z (HeartbeatTask d _) \<longleftrightarrow> d = ten_minutes"
| "task_ok Z (FastRunnerPqpTask t f) \<longleftrightarrow> snd (tz_local Z t) \<in> set pqp_targets \<and> \<not> f"
| "task_ok Z (FastRunnerApTask t f) \<longleftrightarrow> snd (tz_local Z t) \<in> set ap_targets \<and> \<not> f"

lemma next_triggers:
  assumes "tz_laws Z (hms 3 0 0)"
  shows "\<exists>v. pqp_get_next_trigger_time_impl Z now = Inr v \<and> now < v \<and> snd (tz_local Z v) \<in> set pqp_targets"
    and "\<exists>v. ap_get_next_trigger_time_impl Z now = Inr v \<and> now < v \<and> snd (tz_local Z v) \<in> set ap_targets"
proof -
  have "hms 3 0 0 \<le> t \<and> t < day_ns" if "t \<in> set pqp_targets \<union> set ap_targets" for t
    using that by (auto simp: pqp_targets_def ap_targets_def hms_def ns_per_sec_def day_ns_def)
  moreover have "pqp_targets \<noteq> []" "ap_targets \<noteq> []" by (simp_all add: pqp_targets_def ap_targets_def)
  ultimately show "\<exists>v. pqp_get_next_trigger_time_impl Z now = Inr v \<and> now < v \<and> snd (tz_local Z v) \<in> set pqp_targets"
    "\<exists>v. ap_get_next_trigger_time_impl Z now = Inr v \<and> now < v \<and> snd (tz_local Z v) \<in> set ap_targets"
    using earliest_future [OF assms, of pqp_targets now] earliest_future [OF assms, of ap_targets now]
    by (auto simp: pqp_get_next_trigger_time_impl_def ap_get_next_trigger_time_impl_def)
qed

lemma rq_tasks_simps [simp]:
  "trait_name (rq_tasks Z) = task_name" "get_next_trigger_time (rq_tasks Z) = next_time"
  "update_next_trigger_time (rq_tasks Z) = task_update Z"
  by (simp_all add: rq_tasks_def)

text \<open>The local times a task of this name runs at.\<close>

definition meant_at :: "tz \<Rightarrow> string \<Rightarrow> instant \<Rightarrow> bool" where
  "meant_at Z name t \<longleftrightarrow>
     (if name = ''FastRunnerPqpTask'' then snd (tz_local Z t) \<in> set pqp_targets
      else if name = ''FastRunnerApTask'' then snd (tz_local Z t) \<in> set ap_targets else True)"

lemma rq_tasks_contract: "tz_laws Z (hms 3 0 0) \<Longrightarrow> task_contract (rq_tasks Z) (task_ok Z) (meant_at Z)"
proof
  fix t
  assume "task_ok Z t"
  then show "meant_at Z (trait_name (rq_tasks Z) t) (get_next_trigger_time (rq_tasks Z) t)"
    by (cases t) (auto simp: meant_at_def)
next
  fix t now
  assume "tz_laws Z (hms 3 0 0)" and "task_ok Z t"
  then show "\<exists>t'. update_next_trigger_time (rq_tasks Z) now t = Inr t' \<and> task_ok Z t' \<and>
      now < get_next_trigger_time (rq_tasks Z) t' \<and> trait_name (rq_tasks Z) t' = trait_name (rq_tasks Z) t"
    using next_triggers [of Z now] by (cases t) (auto simp: ten_minutes_def ns_per_sec_def)
qed

interpretation eastern_tasks: task_contract "rq_tasks eastern_2025" "task_ok eastern_2025" "meant_at eastern_2025"
  by (rule rq_tasks_contract [OF eastern_laws.tz_laws_axioms])

lemma scheduled_tasks_ok:
  assumes "tz_laws Z (hms 3 0 0)" and "scheduled_tasks Z clk os userdomain = Inr tasks"
  shows "list_all (task_ok Z) tasks"
  using assms(2) next_triggers [OF assms(1), of "clk 1"] next_triggers [OF assms(1), of "clk 2"]
  by (auto simp: scheduled_tasks_def schedule_task_def heartbeat_new_def fast_runner_pqp_task_new_def
      fast_runner_ap_task_new_def outcome_simps Let_def split: if_splits)
text \<open>The log of a scheduler that starts with the tasks of \<open>main()\<close>.\<close>

lemma scheduler_log:
  assumes "tz_laws Z (hms 3 0 0)" and "scheduled_tasks Z clk os userdomain = Inr tasks"
    and "(scheduler_step (rq_tasks Z) (task_ok Z))\<^sup>*\<^sup>* \<lparr>ss_tasks = tasks, ss_wake = w, ss_log = []\<rparr> s"
  shows "list_all (\<lambda>r. rb_trigger r \<le> rb_now r \<and> meant_at Z (task_name (ss_tasks s ! rb_task r)) (rb_trigger r)) (ss_log s)"
    and "successively (\<lambda>a b. rb_now a < rb_trigger b) (runs_of i (ss_log s))"
    and "list_all (\<lambda>r. rb_task r < length (ss_tasks s)) (ss_log s)" and "list_all (task_ok Z) (ss_tasks s)"
proof -
  note contract = rq_tasks_contract [OF assms(1)]
  have "task_contract.ss_inv (rq_tasks Z) (task_ok Z) (meant_at Z) \<lparr>ss_tasks = tasks, ss_wake = w, ss_log = []\<rparr>"
    using scheduled_tasks_ok [OF assms(1,2)] by (simp add: task_contract.ss_inv_def [OF contract] runs_of_def)
  then have "task_contract.ss_inv (rq_tasks Z) (task_ok Z) (meant_at Z) s"
    using task_contract.ss_inv_reach [OF contract assms(3)] by blast
  then show "list_all (\<lambda>r. rb_trigger r \<le> rb_now r \<and> meant_at Z (task_name (ss_tasks s ! rb_task r)) (rb_trigger r)) (ss_log s)"
    "successively (\<lambda>a b. rb_now a < rb_trigger b) (runs_of i (ss_log s))"
    "list_all (\<lambda>r. rb_task r < length (ss_tasks s)) (ss_log s)" "list_all (task_ok Z) (ss_tasks s)"
    by (simp_all add: task_contract.ss_inv_def [OF contract] list_all_iff)
qed

section \<open>Properties\<close>

text \<open>C10: A turn of the scheduler's loop over the program's tasks begins
  every due task exactly once, in the order they were scheduled, and no other; it never panics,
  afterwards no task is due, and it sleeps until exactly the soonest trigger (a minute when there is no
  task).\<close>

theorem scheduler_turn:
  assumes "tz_laws Z (hms 3 0 0)" and "list_all (task_ok Z) tasks" and "\<forall>i. now \<le> clk i"
  shows "\<exists>tasks' d. scheduler_iteration (rq_tasks Z) now clk [] tasks =
      (Inr d, tasks', filter (\<lambda>i. next_time (tasks ! i) \<le> now) [0..<length tasks]) \<and>
    map task_name tasks' = map task_name tasks \<and> list_all (\<lambda>t. now + d \<le> next_time t) tasks' \<and> 0 < d \<and>
    (if tasks = [] then d = 60 * ns_per_sec else now + d \<in> next_time ` set tasks')"
proof -
  obtain tasks' d where t: "scheduler_iteration (rq_tasks Z) now clk [] tasks = (Inr d, tasks', collect_due (rq_tasks Z) now tasks)"
    "length tasks' = length tasks" "map task_name tasks' = map task_name tasks"
    "list_all (\<lambda>t. now < next_time t) tasks'"
    "d = (if tasks' = [] then 60 * ns_per_sec else max 0 (Min (next_time ` set tasks') - now))"
    using task_contract.iteration_spec [OF rq_tasks_contract [OF assms(1)] assms(3,2), of "[]"] by auto
  show ?thesis
  proof (cases "tasks = []")
    case True
    with t show ?thesis by (auto simp: collect_due_def ns_per_sec_def)
  next
    case False
    then have ne: "tasks' \<noteq> []" using t(2) by auto
    let ?m = "Min (next_time ` set tasks')"
    have m: "?m \<in> next_time ` set tasks'" using ne by (intro Min_in) auto
    then have "now < ?m" using t(4) by (auto simp: list_all_iff)
    then have d: "now + d = ?m" using t(5) ne by simp
    have "list_all (\<lambda>t. now + d \<le> next_time t) tasks'" unfolding d by (simp add: list_all_iff)
    with t(1,3) m d \<open>now < ?m\<close> False show ?thesis by (auto simp: collect_due_def)
  qed
qed

theorem scheduler_turn_witness:
  "\<exists>tasks' d. scheduler_iteration (rq_tasks eastern_2025) demo_noon (\<lambda>_. demo_noon) []
      [heartbeat_new 0, heartbeat_new demo_noon] = (Inr d, tasks', [0]) \<and> 0 < d"
  using scheduler_turn [OF eastern_laws.tz_laws_axioms, of "[heartbeat_new 0, heartbeat_new demo_noon]" demo_noon "\<lambda>_. demo_noon"]
  by (auto simp: heartbeat_new_def ten_minutes_def ns_per_sec_def demo_noon_def day_ns_def hms_def)

text \<open>C9: From the tasks of \<open>main()\<close> on, whatever the scheduler's
  turns and the tasks added: no run begins before the trigger it answers, the trigger of a FastRunner task is
  one of its four local times of day, and two runs of one task never answer the same trigger: the next
  trigger is after the time the run before began.\<close>

theorem scheduler_once_per_trigger:
  assumes "tz_laws Z (hms 3 0 0)" and "scheduled_tasks Z clk os userdomain = Inr tasks"
    and "(scheduler_step (rq_tasks Z) (task_ok Z))\<^sup>*\<^sup>* \<lparr>ss_tasks = tasks, ss_wake = w, ss_log = []\<rparr> s"
  shows "list_all (\<lambda>r. rb_trigger r \<le> rb_now r \<and> meant_at Z (task_name (ss_tasks s ! rb_task r)) (rb_trigger r)) (ss_log s) \<and>
    (\<forall>i. successively (\<lambda>a b. rb_now a < rb_trigger b) (runs_of i (ss_log s)))"
  using scheduler_log(1,2) [OF assms] by blast

theorem scheduler_once_per_trigger_witness:
  "\<exists>s :: rq_task sched_state. length (ss_log s) = 1 \<and>
    list_all (\<lambda>r. rb_trigger r \<le> rb_now r \<and> meant_at eastern_2025 (task_name (ss_tasks s ! rb_task r)) (rb_trigger r)) (ss_log s)"
proof -
  let ?s = "\<lparr>ss_tasks = [heartbeat_new 0], ss_wake = 0, ss_log = []\<rparr> :: rq_task sched_state"
  have main: "scheduled_tasks eastern_2025 (\<lambda>_. 0) ''linux'' None = Inr [heartbeat_new 0]"
    by (simp add: scheduled_tasks_def schedule_task_def Let_def)
  have "scheduler_iteration (rq_tasks eastern_2025) ten_minutes (\<lambda>_. ten_minutes) [] [heartbeat_new 0] =
      (Inr ten_minutes, [heartbeat_new ten_minutes], [0])"
    by (simp add: scheduler_iteration_def collect_due_def heartbeat_new_def ten_minutes_def sleep_duration_def ns_per_sec_def)
  then have "scheduler_step (rq_tasks eastern_2025) (task_ok eastern_2025) ?s
      \<lparr>ss_tasks = [heartbeat_new ten_minutes], ss_wake = ten_minutes + ten_minutes, ss_log = ss_log ?s @
      map (\<lambda>i. \<lparr>rb_task = i, rb_trigger = get_next_trigger_time (rq_tasks eastern_2025) (ss_tasks ?s ! i),
        rb_now = ten_minutes\<rparr>) [0]\<rparr>" (is "scheduler_step _ _ _ ?t")
    by (intro scheduler_step.turn [where clk = "\<lambda>_. ten_minutes" and added = "[]"])
      (simp_all add: ten_minutes_def ns_per_sec_def)
  then have reach: "(scheduler_step (rq_tasks eastern_2025) (task_ok eastern_2025))\<^sup>*\<^sup>* ?s ?t"
    by (rule r_into_rtranclp)
  from scheduler_once_per_trigger [OF eastern_laws.tz_laws_axioms main reach]
  show ?thesis by (intro exI [of _ ?t]) simp
qed

text \<open>\<open>main()\<close> schedules the heartbeat everywhere and the
  FastRunner tasks, never forced ones, exactly on the two Windows machines named; on Windows without
  \<open>USERDOMAIN\<close> it panics, and never otherwise.\<close>

theorem scheduled_tasks_where:
  assumes "tz_laws Z (hms 3 0 0)"
  shows "case scheduled_tasks Z clk os userdomain of
      Inl e \<Rightarrow> os = ''windows'' \<and> userdomain = None
    | Inr tasks \<Rightarrow> map task_name tasks = ''HeartbeatTask'' #
        (if os = ''windows'' \<and> userdomain \<in> {Some ''GYANTAL-PC'', Some ''GYANTAL-LAPTOP''}
         then [''FastRunnerPqpTask'', ''FastRunnerApTask''] else []) \<and> list_all (task_ok Z) tasks \<and>
        (if os = ''windows'' then userdomain \<noteq> None else True)"
proof (cases "scheduled_tasks Z clk os userdomain")
  case (Inl e)
  obtain u v where "pqp_get_next_trigger_time_impl Z (clk 1) = Inr u" "ap_get_next_trigger_time_impl Z (clk 2) = Inr v"
    using next_triggers [OF assms, of "clk 1"] next_triggers [OF assms, of "clk 2"] by auto
  with Inl show ?thesis
    by (cases userdomain) (auto simp: scheduled_tasks_def fast_runner_pqp_task_new_def fast_runner_ap_task_new_def Let_def split: if_splits)
next
  case (Inr tasks)
  then have "map task_name tasks = ''HeartbeatTask'' #
        (if os = ''windows'' \<and> userdomain \<in> {Some ''GYANTAL-PC'', Some ''GYANTAL-LAPTOP''}
         then [''FastRunnerPqpTask'', ''FastRunnerApTask''] else []) \<and> (if os = ''windows'' then userdomain \<noteq> None else True)"
    by (auto simp: scheduled_tasks_def fast_runner_pqp_task_new_def fast_runner_ap_task_new_def schedule_task_def
        heartbeat_new_def outcome_simps Let_def split: if_splits)
  with scheduled_tasks_ok [OF assms Inr] Inr show ?thesis by simp
qed

theorem scheduled_tasks_where_witness:
  "case scheduled_tasks eastern_2025 (\<lambda>_. demo_noon) ''windows'' (Some ''GYANTAL-PC'') of Inl _ \<Rightarrow> False
   | Inr tasks \<Rightarrow> map task_name tasks = [''HeartbeatTask'', ''FastRunnerPqpTask'', ''FastRunnerApTask'']"
  using scheduled_tasks_where [OF eastern_laws.tz_laws_axioms, where clk = "\<lambda>_. demo_noon" and os = "''windows''"
      and userdomain = "Some ''GYANTAL-PC''"]
  by (simp split: sum.splits)
end
