(* ===== verification/LiveRuns.thy ===== *)
theory LiveRuns
  imports TaskScheduler
begin

text \<open>
  The scheduler and the FastRunner tasks together: a run trades live when it reads the clock less than 90
  seconds from noon in New York, whatever trigger it answers. While the scheduler is punctual that is once a day and
  task; after a late trigger it is not (\<open>LateTrigger\<close>). Here the time is that of the turn that begins the run;
  \<open>TradingDay\<close> has the run's own reading of the clock, which comes after its \<open>init()\<close>.
\<close>

definition live_at :: "tz \<Rightarrow> instant \<Rightarrow> bool" where
  "live_at Z now = (case num_seconds_to_noon Z now of Inl _ \<Rightarrow> False | Inr secs \<Rightarrow> secs < 90)"

section \<open>Punctual runs\<close>

lemma live_window:
  assumes "live_at Z now"
  obtains n where "tz_earliest Z (fst (tz_local Z now)) (hms 12 0 0) = Some n" and "n - now < 90 * ns_per_sec" and "now - n < 90 * ns_per_sec"
proof -
  from assms obtain n where n: "tz_earliest Z (fst (tz_local Z now)) (hms 12 0 0) = Some n" "\<bar>num_seconds (now - n)\<bar> < 90"
    by (auto simp: live_at_def num_seconds_to_noon_def expect_def split: sum.splits option.splits)
  then have "\<bar>now - n\<bar> < 90 * ns_per_sec"
    by (auto simp: num_seconds_def ns_per_sec_def abs_if split: if_splits)
  with n(1) show thesis by (intro that) auto
qed

definition last_target :: "day_time list \<Rightarrow> day_time" where
  "last_target targets = last targets"

lemma live_trigger:
  assumes "tz_steady Z (hms 3 0 0)" and "live_at Z now" and "u \<le> now" and "now - u \<le> 28 * 60 * ns_per_sec"
    and "snd (tz_local Z u) \<in> set targets" and "targets = pqp_targets \<or> targets = ap_targets"
  shows "tz_local Z u = (fst (tz_local Z now), last_target targets)"
proof -
  note laws = tz_steady.axioms(1) [OF assms(1)]
  obtain n where n: "tz_earliest Z (fst (tz_local Z now)) (hms 12 0 0) = Some n" "n - now < 90 * ns_per_sec" "now - n < 90 * ns_per_sec"
    by (rule live_window [OF assms(2)])
  have safe: "hms 3 0 0 \<le> snd (tz_local Z u)"
    using assms(5,6) by (auto simp: pqp_targets_def ap_targets_def hms_def ns_per_sec_def)
  have close: "n - u < hms 12 0 0 - hms 3 0 0" "hms 3 0 0 \<le> hms 12 0 0" "hms 3 0 0 < day_ns"
    using n(2) assms(4) by (simp_all add: hms_def ns_per_sec_def day_ns_def)
  note c = tz_steady.close_before [OF assms(1) n(1) close(2,3,1) tz_laws.date_mono [OF laws assms(3)] safe]
  have "hms 11 30 30 < snd (tz_local Z u)"
    using c(2) n(2) assms(4) by (simp add: hms_def ns_per_sec_def)
  then have "snd (tz_local Z u) = last_target targets"
    using assms(5,6) by (auto simp: last_target_def pqp_targets_def ap_targets_def hms_def ns_per_sec_def)
  with c(1) show ?thesis by (simp add: prod_eq_iff)
qed

lemma successively_mono_sorted:
  assumes "successively (\<lambda>a b. rb_now a < rb_trigger b) rs" and "list_all (\<lambda>r. rb_trigger r \<le> rb_now r) rs"
  shows "sorted_wrt (\<lambda>a b. rb_trigger a < rb_trigger b) rs"
proof -
  have "successively (\<lambda>a b. rb_trigger a < rb_trigger b) rs"
    using assms by (induction rs rule: induct_list012) auto
  then show ?thesis by (intro successively_conv_sorted_wrt [THEN iffD1]) (auto simp: transp_def intro: less_trans)
qed
section \<open>A Monday\<close>

text \<open>Monday 2025-06-16, by its UTC time, and the scheduler on it.\<close>

definition monday :: "int \<Rightarrow> int \<Rightarrow> int \<Rightarrow> instant" where "monday h m s = 20255 * day_ns + hms h m s"

lemmas trigger_defs = pqp_get_next_trigger_time_impl_def ap_get_next_trigger_time_impl_def pqp_targets_def ap_targets_def
  earliest_of_def localtimeonly2future_datetime_tz_def eastern_2025_def eastern_defs monday_def day_ns_def hms_def ns_per_sec_def

lemma monday_triggers:
  "pqp_get_next_trigger_time_impl eastern_2025 (monday 15 29 0) = Inr (monday 15 30 10)"
  "ap_get_next_trigger_time_impl eastern_2025 (monday 15 29 0) = Inr (monday 15 30 20)"
  "pqp_get_next_trigger_time_impl eastern_2025 (monday 15 58 40) = Inr (monday 15 59 10)"
  "ap_get_next_trigger_time_impl eastern_2025 (monday 15 58 40) = Inr (monday 15 59 20)"
  "pqp_get_next_trigger_time_impl eastern_2025 (monday 15 59 10) = Inr (monday 37 45 10)"
  "ap_get_next_trigger_time_impl eastern_2025 (monday 15 59 20) = Inr (monday 37 50 10)"
  by (simp_all add: trigger_defs Let_def)

lemma monday_order:
  "monday 15 29 0 \<le> monday 15 58 40"
  "monday 15 39 0 \<le> monday 15 58 40" "monday 15 30 10 \<le> monday 15 58 40" "monday 15 30 20 \<le> monday 15 58 40"
  "\<not> monday 16 8 40 \<le> monday 15 59 10" "\<not> monday 15 59 20 \<le> monday 15 59 10" "\<not> monday 16 8 40 \<le> monday 15 59 20"
  "\<not> monday 37 45 10 \<le> monday 15 59 20"
  "monday 15 59 10 < monday 16 8 40" "\<not> monday 15 59 20 < monday 15 59 10" "monday 15 58 40 < monday 15 59 10"
  "\<not> monday 37 45 10 < monday 16 8 40" "monday 15 59 20 < monday 16 8 40" "monday 15 59 10 < monday 15 59 20"
  "\<not> monday 37 50 10 < monday 16 8 40" "monday 15 59 20 < monday 16 8 40"
  by (simp_all add: monday_def day_ns_def hms_def ns_per_sec_def)

lemma heartbeat_monday:
  "monday 15 29 0 + ten_minutes = monday 15 39 0" "monday 15 58 40 + ten_minutes = monday 16 8 40"
  by (simp_all add: monday_def day_ns_def hms_def ns_per_sec_def ten_minutes_def)

lemma monday_turns:
  "scheduler_iteration (rq_tasks eastern_2025) (monday 15 58 40) (\<lambda>_. monday 15 58 40) []
     [HeartbeatTask ten_minutes (monday 15 39 0), FastRunnerPqpTask (monday 15 30 10) False, FastRunnerApTask (monday 15 30 20) False] =
   (Inr (monday 15 59 10 - monday 15 58 40),
     [HeartbeatTask ten_minutes (monday 16 8 40), FastRunnerPqpTask (monday 15 59 10) False, FastRunnerApTask (monday 15 59 20) False], [0, 1, 2])"
  "scheduler_iteration (rq_tasks eastern_2025) (monday 15 59 10) (\<lambda>_. monday 15 59 10) []
     [HeartbeatTask ten_minutes (monday 16 8 40), FastRunnerPqpTask (monday 15 59 10) False, FastRunnerApTask (monday 15 59 20) False] =
   (Inr (monday 15 59 20 - monday 15 59 10),
     [HeartbeatTask ten_minutes (monday 16 8 40), FastRunnerPqpTask (monday 37 45 10) False, FastRunnerApTask (monday 15 59 20) False], [1])"
  "scheduler_iteration (rq_tasks eastern_2025) (monday 15 59 20) (\<lambda>_. monday 15 59 20) []
     [HeartbeatTask ten_minutes (monday 16 8 40), FastRunnerPqpTask (monday 37 45 10) False, FastRunnerApTask (monday 15 59 20) False] =
   (Inr (monday 16 8 40 - monday 15 59 20),
     [HeartbeatTask ten_minutes (monday 16 8 40), FastRunnerPqpTask (monday 37 45 10) False, FastRunnerApTask (monday 37 50 10) False], [2])"
  by (simp_all add: scheduler_iteration_def collect_due_def upt_rec [of _ "Suc _"] monday_triggers heartbeat_monday
      monday_order sleep_duration_def numeral_3_eq_3)
lemma monday_live:
  "live_at eastern_2025 (monday 15 58 40)" "live_at eastern_2025 (monday 15 59 10)" "live_at eastern_2025 (monday 15 59 20)"
  by (simp_all add: live_at_def num_seconds_to_noon_def num_seconds_def trigger_defs Let_def)

lemma monday_step:
  assumes "w \<le> now" and "scheduler_iteration (rq_tasks eastern_2025) now (\<lambda>_. now) [] ts = (Inr d, ts', spawned)"
  shows "scheduler_step (rq_tasks eastern_2025) scheduled \<lparr>ss_tasks = ts, ss_wake = w, ss_log = l\<rparr>
    \<lparr>ss_tasks = ts', ss_wake = now + d, ss_log = l @ map (\<lambda>i. \<lparr>rb_task = i, rb_trigger = next_time (ts ! i), rb_now = now\<rparr>) spawned\<rparr>"
  using scheduler_step.turn [where s = "\<lparr>ss_tasks = ts, ss_wake = w, ss_log = l\<rparr>" and clk = "\<lambda>_. now" and added = "[]"
      and now = now and T = "rq_tasks eastern_2025" and scheduled = scheduled and d = d and tasks' = ts' and spawned = spawned] assms
  by simp

text \<open>The machine was asleep from half past eleven to 11:58:40: the trace of the three turns after that.\<close>

definition hb_pqp_ap :: "instant \<Rightarrow> instant \<Rightarrow> instant \<Rightarrow> rq_task list" where
  "hb_pqp_ap h p a = [HeartbeatTask ten_minutes h, FastRunnerPqpTask p False, FastRunnerApTask a False]"

definition late_monday :: "rq_task sched_state" where
  "late_monday = \<lparr>ss_tasks = hb_pqp_ap (monday 16 8 40) (monday 37 45 10) (monday 37 50 10), ss_wake = monday 16 8 40,
     ss_log = [\<lparr>rb_task = 0, rb_trigger = monday 15 39 0, rb_now = monday 15 58 40\<rparr>,
       \<lparr>rb_task = 1, rb_trigger = monday 15 30 10, rb_now = monday 15 58 40\<rparr>,
       \<lparr>rb_task = 2, rb_trigger = monday 15 30 20, rb_now = monday 15 58 40\<rparr>,
       \<lparr>rb_task = 1, rb_trigger = monday 15 59 10, rb_now = monday 15 59 10\<rparr>,
       \<lparr>rb_task = 2, rb_trigger = monday 15 59 20, rb_now = monday 15 59 20\<rparr>]\<rparr>"

lemma late_monday_start:
  "scheduled_tasks eastern_2025 (\<lambda>_. monday 15 29 0) ''windows'' (Some ''GYANTAL-PC'') =
     Inr (hb_pqp_ap (monday 15 39 0) (monday 15 30 10) (monday 15 30 20))"
  by (simp add: scheduled_tasks_def fast_runner_pqp_task_new_def fast_runner_ap_task_new_def monday_triggers
      heartbeat_new_def heartbeat_monday schedule_task_def hb_pqp_ap_def Let_def)

lemma late_monday_reach:
  "(scheduler_step (rq_tasks eastern_2025) scheduled)\<^sup>*\<^sup>*
     \<lparr>ss_tasks = hb_pqp_ap (monday 15 39 0) (monday 15 30 10) (monday 15 30 20), ss_wake = monday 15 29 0, ss_log = []\<rparr> late_monday"
proof -
  let ?step = "scheduler_step (rq_tasks eastern_2025) scheduled"
  let ?t0 = "hb_pqp_ap (monday 15 39 0) (monday 15 30 10) (monday 15 30 20)"
  let ?t1 = "hb_pqp_ap (monday 16 8 40) (monday 15 59 10) (monday 15 59 20)"
  let ?t2 = "hb_pqp_ap (monday 16 8 40) (monday 37 45 10) (monday 15 59 20)"
  let ?l1 = "take 3 (ss_log late_monday)" and ?l2 = "take 4 (ss_log late_monday)"
  have s1: "?step \<lparr>ss_tasks = ?t0, ss_wake = monday 15 29 0, ss_log = []\<rparr> \<lparr>ss_tasks = ?t1, ss_wake = monday 15 59 10, ss_log = ?l1\<rparr>"
    using monday_step [OF _ monday_turns(1), of "monday 15 29 0" scheduled "[]"] by (simp add: monday_order late_monday_def hb_pqp_ap_def)
  have s2: "?step \<lparr>ss_tasks = ?t1, ss_wake = monday 15 59 10, ss_log = ?l1\<rparr> \<lparr>ss_tasks = ?t2, ss_wake = monday 15 59 20, ss_log = ?l2\<rparr>"
    using monday_step [OF _ monday_turns(2), of "monday 15 59 10" scheduled ?l1] by (simp add: late_monday_def hb_pqp_ap_def)
  have s3: "?step \<lparr>ss_tasks = ?t2, ss_wake = monday 15 59 20, ss_log = ?l2\<rparr> late_monday"
    using monday_step [OF _ monday_turns(3), of "monday 15 59 20" scheduled ?l2] by (simp add: late_monday_def hb_pqp_ap_def)
  show ?thesis
    by (rule converse_rtranclp_into_rtranclp [OF s1 converse_rtranclp_into_rtranclp [OF s2 r_into_rtranclp [where r = ?step, OF s3]]])
qed

section \<open>Properties\<close>

text \<open>C4: In a time zone whose clock changes are over by three in the morning: while no
  run begins more than 28 minutes after its trigger, every live run of a FastRunner task answers the task's last
  trigger of the day, at 11:59:10 or 11:59:20 in New York, and no two live runs of a task are on one day, whatever the
  scheduler's turns.\<close>

theorem one_live_run_a_day:
  assumes "tz_steady Z (hms 3 0 0)" and "scheduled_tasks Z clk os userdomain = Inr tasks"
    and "(scheduler_step (rq_tasks Z) (task_ok Z))\<^sup>*\<^sup>* \<lparr>ss_tasks = tasks, ss_wake = w, ss_log = []\<rparr> s"
    and "list_all (\<lambda>r. rb_now r - rb_trigger r \<le> 28 * 60 * ns_per_sec) (ss_log s)"
    and "task_name (ss_tasks s ! i) = ''FastRunnerPqpTask'' \<and> targets = pqp_targets \<or>
      task_name (ss_tasks s ! i) = ''FastRunnerApTask'' \<and> targets = ap_targets"
  defines "live_runs \<equiv> filter (\<lambda>r. live_at Z (rb_now r)) (runs_of i (ss_log s))"
  shows "list_all (\<lambda>r. tz_local Z (rb_trigger r) = (fst (tz_local Z (rb_now r)), last_target targets)) live_runs \<and>
    distinct (map (\<lambda>r. fst (tz_local Z (rb_now r))) live_runs)"
proof -
  note laws = tz_steady.axioms(1) [OF assms(1)]
  note log = scheduler_log [OF laws assms(2,3)]
  have trigger: "tz_local Z (rb_trigger r) = (fst (tz_local Z (rb_now r)), last_target targets)" if "r \<in> set live_runs" for r
  proof -
    have r: "r \<in> set (ss_log s)" "rb_task r = i" "live_at Z (rb_now r)"
      using that by (auto simp: live_runs_def runs_of_def)
    have "snd (tz_local Z (rb_trigger r)) \<in> set targets" "rb_trigger r \<le> rb_now r"
      using log(1) r(1,2) assms(5) by (auto simp: list_all_iff meant_at_def)
    then show ?thesis using r assms(4,5) by (intro live_trigger [OF assms(1)]) (auto simp: list_all_iff)
  qed
  have "sorted_wrt (\<lambda>a b. rb_trigger a < rb_trigger b) (runs_of i (ss_log s))"
    using log by (intro successively_mono_sorted) (auto simp: list_all_iff runs_of_def)
  then have sorted: "sorted_wrt (\<lambda>a b. rb_trigger a < rb_trigger b) live_runs"
    unfolding live_runs_def by (rule sorted_wrt_filter)
  have safe: "hms 3 0 0 \<le> last_target targets"
    using assms(5) by (auto simp: last_target_def pqp_targets_def ap_targets_def hms_def ns_per_sec_def)
  have "distinct (map (\<lambda>r. fst (tz_local Z (rb_now r))) rs)"
    if "sorted_wrt (\<lambda>a b. rb_trigger a < rb_trigger b) rs"
      "\<And>r. r \<in> set rs \<Longrightarrow> tz_local Z (rb_trigger r) = (fst (tz_local Z (rb_now r)), last_target targets)" for rs
    using that
  proof (induction rs)
    case Nil
    then show ?case by simp
  next
    case (Cons r rs)
    have "fst (tz_local Z (rb_now q)) \<noteq> fst (tz_local Z (rb_now r))" if "q \<in> set rs" for q
    proof
      assume "fst (tz_local Z (rb_now q)) = fst (tz_local Z (rb_now r))"
      then have "rb_trigger q = rb_trigger r"
        using Cons.prems(2) [of q] Cons.prems(2) [of r] that safe by (intro tz_steady.same_instant [OF assms(1)]) auto
      with Cons.prems(1) that show False by auto
    qed
    with Cons show ?case by force
  qed
  from this [OF sorted trigger] trigger show ?thesis by (simp add: list_all_iff)
qed

theorem one_live_run_a_day_witness:
  "\<exists>s :: rq_task sched_state. map rb_trigger (filter (\<lambda>r. live_at eastern_2025 (rb_now r)) (runs_of 1 (ss_log s))) = [monday 15 59 10] \<and>
     list_all (\<lambda>r. tz_local eastern_2025 (rb_trigger r) = (20255, hms 11 59 10)) (runs_of 1 (ss_log s))"
proof -
  let ?ts = "[HeartbeatTask ten_minutes (monday 16 8 40), FastRunnerPqpTask (monday 15 59 10) False, FastRunnerApTask (monday 15 59 20) False]"
  let ?ts' = "[HeartbeatTask ten_minutes (monday 16 8 40), FastRunnerPqpTask (monday 37 45 10) False, FastRunnerApTask (monday 15 59 20) False]"
  let ?s = "\<lparr>ss_tasks = ?ts', ss_wake = monday 15 59 20, ss_log = [\<lparr>rb_task = 1, rb_trigger = monday 15 59 10, rb_now = monday 15 59 10\<rparr>]\<rparr>"
  have start: "scheduled_tasks eastern_2025 (\<lambda>_. monday 15 58 40) ''windows'' (Some ''GYANTAL-PC'') = Inr ?ts"
    by (simp add: scheduled_tasks_def fast_runner_pqp_task_new_def fast_runner_ap_task_new_def monday_triggers
        heartbeat_new_def heartbeat_monday schedule_task_def Let_def)
  have "scheduler_step (rq_tasks eastern_2025) (task_ok eastern_2025) \<lparr>ss_tasks = ?ts, ss_wake = monday 15 59 10, ss_log = []\<rparr> ?s"
    using monday_step [OF _ monday_turns(2), of "monday 15 59 10" "task_ok eastern_2025" "[]"] by simp
  then have reach: "(scheduler_step (rq_tasks eastern_2025) (task_ok eastern_2025))\<^sup>*\<^sup>*
      \<lparr>ss_tasks = ?ts, ss_wake = monday 15 59 10, ss_log = []\<rparr> ?s" by (rule r_into_rtranclp)
  have date: "fst (tz_local eastern_2025 (monday 15 59 10)) = 20255"
    by (simp add: eastern_2025_def eastern_defs monday_def day_ns_def hms_def ns_per_sec_def)
  have "list_all (\<lambda>r. rb_now r - rb_trigger r \<le> 28 * 60 * ns_per_sec) (ss_log ?s)" by (simp add: ns_per_sec_def)
  from one_live_run_a_day [OF eastern_steady.tz_steady_axioms start reach this, of 1 pqp_targets]
  have "tz_local eastern_2025 (monday 15 59 10) = (20255, hms 11 59 10)"
    by (simp add: runs_of_def monday_live date last_target_def pqp_targets_def)
  then show ?thesis by (intro exI [of _ ?s]) (simp add: runs_of_def monday_live)
qed

end
