(* ===== verification/TradingDay.thy ===== *)
theory TradingDay
  imports LiveRuns
begin

text \<open>
  A whole day of the program: the scheduler begins the runs, each run is the body of its task in a world of
  its own. What they submit on one day is bounded, however the worlds behave, while the runs read their clocks in time.
\<close>

section \<open>The submissions of a day\<close>

text \<open>
  \<open>E r\<close> and \<open>S r\<close> are the world that the run \<open>r\<close> meets and the state it starts in. The runs are concurrent; here
  their submissions are listed by run. A run depends on its task's kind and flag only, which no update changes.
\<close>

definition run_submissions :: "('c, 'e, 'r, 'v) run_env \<Rightarrow> rq_task \<Rightarrow> 'c run_state \<Rightarrow> 'c submission list" where
  "run_submissions env t st = (case task_run env t st of None \<Rightarrow> [] | Some (_, st') \<Rightarrow> drop (length (rs_subs st)) (rs_subs st'))"

definition day_submissions :: "tz \<Rightarrow> (run_begun \<Rightarrow> ('c, 'e, 'r, 'v) run_env) \<Rightarrow> (run_begun \<Rightarrow> 'c run_state) \<Rightarrow> rq_task sched_state
    \<Rightarrow> date \<Rightarrow> 'c submission list" where
  "day_submissions Z E S s d = concat (map (\<lambda>r. run_submissions (E r) (ss_tasks s ! rb_task r) (S r))
     (filter (\<lambda>r. fst (tz_local Z (re_now_et (E r))) = d) (ss_log s)))"

text \<open>
  A run fits its begin: it reads the clock no earlier, and its clock passes the end of its trading loop (else the loop
  would not end, and what it submits would not be its result). The runs are in
  time when none reads the clock more than 28 minutes after its trigger; they are in order when each reads it before
  the next trigger of its task. Sane prices: every price a run sees is usable. A run of which a request is never
  answered (\<open>run_answered\<close> fails) counts with what it has submitted before.
\<close>

definition run_fits :: "tz \<Rightarrow> ('c, 'e, 'r, 'v) run_env \<Rightarrow> run_begun \<Rightarrow> bool" where
  "run_fits Z env r \<longleftrightarrow> chrono_laws (re_chrono env) \<and> re_tz env = Z \<and> rb_now r \<le> re_now_et env \<and>
     (\<exists>m. re_loop_start env + 270 * ns_per_sec \<le> re_clock env m)"

definition runs_in_time :: "tz \<Rightarrow> (run_begun \<Rightarrow> ('c, 'e, 'r, 'v) run_env) \<Rightarrow> run_begun list \<Rightarrow> bool" where
  "runs_in_time Z E runs \<longleftrightarrow>
     (\<forall>r \<in> set runs. run_fits Z (E r) r \<and> re_now_et (E r) - rb_trigger r \<le> 28 * 60 * ns_per_sec)"

definition runs_in_order :: "tz \<Rightarrow> (run_begun \<Rightarrow> ('c, 'e, 'r, 'v) run_env) \<Rightarrow> run_begun list \<Rightarrow> bool" where
  "runs_in_order Z E runs \<longleftrightarrow> (\<forall>r \<in> set runs. run_fits Z (E r) r) \<and>
     (\<forall>i. successively (\<lambda>a b. re_now_et (E a) < rb_trigger b) (runs_of i runs))"

definition runs_priced :: "(run_begun \<Rightarrow> ('c, 'e, 'r, 'v) run_env) \<Rightarrow> (run_begun \<Rightarrow> 'c run_state) \<Rightarrow> run_begun list \<Rightarrow> bool" where
  "runs_priced E S runs \<longleftrightarrow>
     (\<forall>r \<in> set runs. \<forall>i. usable_world (re_api (E r)) (run_caches (E r) (rs_cache (S r)) i) (re_worlds (E r) i))"

definition buys_cost :: "'c submission list \<Rightarrow> rat" where
  "buys_cost subs = sum_list (map buy_cost (filter (\<lambda>s. sub_type s = Buy) subs))"

lemma buys_cost_concat: "buys_cost (concat xss) = sum_list (map buys_cost xss)"
  by (induction xss) (simp_all add: buys_cost_def)

section \<open>One run\<close>

definition most_orders :: "string \<Rightarrow> nat" where
  "most_orders name = (if name = ''FastRunnerPqpTask'' then 14 else if name = ''FastRunnerApTask'' then 2 else 0)"

definition most_dollars :: "string \<Rightarrow> rat" where
  "most_dollars name = (if name = ''FastRunnerPqpTask'' then 140000 else if name = ''FastRunnerApTask'' then 200000 else 0)"

lemma live_at_iff: "live_at Z now \<longleftrightarrow> (\<exists>secs < 90. num_seconds_to_noon Z now = Inr secs)"
  by (auto simp: live_at_def split: sum.splits)

lemma run_submissions_bounds:
  assumes "chrono_laws (re_chrono env)"
  shows "length (run_submissions env t st) \<le> most_orders (task_name t)"
    and "run_submissions env t st \<noteq> [] \<Longrightarrow> live_at (re_tz env) (re_now_et env)"
    and "\<forall>i. usable_world (re_api env) (run_caches env (rs_cache st) i) (re_worlds env i) \<Longrightarrow>
      buys_cost (run_submissions env t st) \<le> 10264/10000 * most_dollars (task_name t)"
    and "list_all (well_formed (re_gateways env)) (run_submissions env t st)"
proof -
  have "length (run_submissions env t st) \<le> most_orders (task_name t) \<and>
    (run_submissions env t st \<noteq> [] \<longrightarrow> live_at (re_tz env) (re_now_et env)) \<and>
    ((\<forall>i. usable_world (re_api env) (run_caches env (rs_cache st) i) (re_worlds env i)) \<longrightarrow>
      buys_cost (run_submissions env t st) \<le> 10264/10000 * most_dollars (task_name t)) \<and>
    list_all (well_formed (re_gateways env)) (run_submissions env t st)"
  proof (cases "task_run env t st")
    case None
    then show ?thesis by (simp add: run_submissions_def buys_cost_def most_dollars_def)
  next
    case (Some q)
    then obtain r st' where run: "task_run env t st = Some (r, st')" by (cases q) auto
    show ?thesis
    proof (cases t)
      case (HeartbeatTask x y)
      with run show ?thesis by (simp add: run_submissions_def buys_cost_def most_dollars_def)
    next
      case (FastRunnerPqpTask x f)
      from pqp_run_new [OF assms, of f st r st'] run FastRunnerPqpTask show ?thesis
        by (auto simp: run_submissions_def buys_cost_def most_dollars_def most_orders_def live_at_iff list_all_iff)
    next
      case (FastRunnerApTask x f)
      from ap_run_new [OF assms, of f st r st'] run FastRunnerApTask show ?thesis
        by (auto simp: run_submissions_def buys_cost_def most_dollars_def most_orders_def live_at_iff list_all_iff)
    qed
  qed
  then show "length (run_submissions env t st) \<le> most_orders (task_name t)"
    "run_submissions env t st \<noteq> [] \<Longrightarrow> live_at (re_tz env) (re_now_et env)"
    "\<forall>i. usable_world (re_api env) (run_caches env (rs_cache st) i) (re_worlds env i) \<Longrightarrow>
      buys_cost (run_submissions env t st) \<le> 10264/10000 * most_dollars (task_name t)"
    "list_all (well_formed (re_gateways env)) (run_submissions env t st)" by auto
qed

lemma task_run_returns:
  assumes "re_loop_start env + 270 * ns_per_sec \<le> re_clock env m"
  shows "task_run env t st \<noteq> None" and "run_answered env \<Longrightarrow> run_over (task_run env t st)"
  using pqp_run_total [OF assms] ap_run_total [OF assms] pqp_run_over [OF assms] ap_run_over [OF assms] by (cases t; force)+

section \<open>The tasks stay those of \<open>main()\<close>\<close>

lemma scheduler_step_mono:
  assumes "scheduler_step T P s s'" and "\<And>t. P t \<Longrightarrow> Q t"
  shows "scheduler_step T Q s s'"
  using assms(1)
proof cases
  case (turn now clk added d tasks' spawned)
  have "list_all Q added" using turn(4) assms(2) by (auto simp: list_all_iff)
  with turn show ?thesis by (auto intro: scheduler_step.turn)
next
  case (schedule t)
  then show ?thesis using assms(2) by (auto intro: scheduler_step.schedule)
qed

lemma main_reach:
  assumes "(scheduler_step (rq_tasks Z) (\<lambda>_. False))\<^sup>*\<^sup>* s s'"
  shows "(scheduler_step (rq_tasks Z) (task_ok Z))\<^sup>*\<^sup>* s s'"
  using assms by (rule rtranclp_mono [THEN predicate2D, rotated]) (auto intro: scheduler_step_mono)

lemma tasks_stay:
  assumes "tz_laws Z (hms 3 0 0)" and "(scheduler_step (rq_tasks Z) (\<lambda>_. False))\<^sup>*\<^sup>* s s'" and "list_all (task_ok Z) (ss_tasks s)"
  shows "map task_name (ss_tasks s') = map task_name (ss_tasks s) \<and> list_all (task_ok Z) (ss_tasks s')"
  using assms(2)
proof (induction rule: rtranclp_induct)
  case base
  then show ?case using assms(3) by simp
next
  case (step s1 s2)
  from step.hyps(2) show ?case
  proof cases
    case (turn now clk added d tasks' spawned)
    then have "added = []" by (cases added) auto
    with task_contract.iteration_spec [OF rq_tasks_contract [OF assms(1)] turn(3), of "ss_tasks s1" "[]"] turn step.IH
    show ?thesis by auto
  qed simp
qed

section \<open>Sums over few runs\<close>

lemma sum_list_few:
  fixes f :: "'a \<Rightarrow> 'b::linordered_semidom"
  assumes "length (filter (\<lambda>r. f r \<noteq> 0) rs) \<le> k" and "\<And>r. r \<in> set rs \<Longrightarrow> f r \<le> c" and "0 \<le> c"
  shows "sum_list (map f rs) \<le> of_nat k * c"
proof -
  have "sum_list (map f rs) \<le> of_nat (length (filter (\<lambda>r. f r \<noteq> 0) rs)) * c"
    using assms(2) by (induction rs) (auto simp: distrib_right intro: add_mono)
  also have "\<dots> \<le> of_nat k * c" using assms(1,3) by (intro mult_right_mono) simp_all
  finally show ?thesis .
qed

lemma sum_list_by_task:
  fixes f :: "run_begun \<Rightarrow> 'b::comm_monoid_add"
  assumes "list_all (\<lambda>r. rb_task r < n) rs"
  shows "sum_list (map f rs) = (\<Sum>i<n. sum_list (map f (runs_of i rs)))"
  using assms
proof (induction rs)
  case Nil
  then show ?case by (simp add: runs_of_def)
next
  case (Cons r rs)
  have "(\<Sum>i<n. sum_list (map f (runs_of i (r # rs)))) = (\<Sum>i<n. (if i = rb_task r then f r else 0) + sum_list (map f (runs_of i rs)))"
    by (rule sum.cong) (auto simp: runs_of_def)
  also have "\<dots> = f r + (\<Sum>i<n. sum_list (map f (runs_of i rs)))"
    using Cons.prems by (simp add: sum.distrib)
  finally show ?case using Cons by simp
qed

section \<open>A task's day\<close>

lemma live_runs_same_trigger:
  assumes "tz_steady Z (hms 3 0 0)" and "targets = pqp_targets \<or> targets = ap_targets"
    and "live_at Z u" "t \<le> u" "u - t \<le> 28 * 60 * ns_per_sec" "snd (tz_local Z t) \<in> set targets"
    and "live_at Z u'" "t' \<le> u'" "u' - t' \<le> 28 * 60 * ns_per_sec" "snd (tz_local Z t') \<in> set targets"
    and "fst (tz_local Z u) = fst (tz_local Z u')"
  shows "t = t'"
proof -
  have l: "tz_local Z t = (fst (tz_local Z u), last_target targets)" "tz_local Z t' = (fst (tz_local Z u), last_target targets)"
    using live_trigger [OF assms(1,3,4,5,6,2)] live_trigger [OF assms(1,7,8,9,10,2)] assms(11) by simp_all
  have "hms 3 0 0 \<le> last_target targets"
    using assms(2) by (auto simp: last_target_def pqp_targets_def ap_targets_def hms_def ns_per_sec_def)
  with l show ?thesis by (intro tz_steady.same_instant [OF assms(1)]) simp_all
qed

text \<open>The live runs of a task on a day, by the time they read.\<close>

definition live_of_day :: "tz \<Rightarrow> (run_begun \<Rightarrow> ('c, 'e, 'r, 'v) run_env) \<Rightarrow> nat \<Rightarrow> date \<Rightarrow> run_begun list \<Rightarrow> run_begun list" where
  "live_of_day Z E i d runs =
     filter (\<lambda>r. live_at Z (re_now_et (E r)) \<and> fst (tz_local Z (re_now_et (E r))) = d) (runs_of i runs)"

definition targets_of :: "string \<Rightarrow> day_time list" where
  "targets_of name = (if name = ''FastRunnerPqpTask'' then pqp_targets else ap_targets)"

definition fast_runners :: "string set" where
  "fast_runners = {''FastRunnerPqpTask'', ''FastRunnerApTask''}"

lemma targets_of_cases: "targets_of name = pqp_targets \<or> targets_of name = ap_targets"
  by (simp add: targets_of_def)

lemma runs_targets:
  assumes "list_all (\<lambda>r. rb_trigger r \<le> rb_now r \<and> meant_at Z (task_name (ss_tasks s ! rb_task r)) (rb_trigger r)) (ss_log s)"
    and "task_name (ss_tasks s ! i) \<in> fast_runners" and "r \<in> set (runs_of i (ss_log s))"
  shows "rb_trigger r \<le> rb_now r" and "snd (tz_local Z (rb_trigger r)) \<in> set (targets_of (task_name (ss_tasks s ! i)))"
  using assms by (auto simp: list_all_iff runs_of_def meant_at_def targets_of_def fast_runners_def split: if_splits)

text \<open>In time, the live runs of a day answer one trigger, so there is at most one.\<close>

lemma one_live:
  assumes Z: "tz_steady Z (hms 3 0 0)" and "runs_in_time Z E (ss_log s)"
    and log: "list_all (\<lambda>r. rb_trigger r \<le> rb_now r \<and> meant_at Z (task_name (ss_tasks s ! rb_task r)) (rb_trigger r)) (ss_log s)"
    and chain: "successively (\<lambda>a b. rb_now a < rb_trigger b) (runs_of i (ss_log s))"
    and i: "task_name (ss_tasks s ! i) \<in> fast_runners"
  shows "length (live_of_day Z E i d (ss_log s)) \<le> 1"
proof -
  have "list_all (\<lambda>r. rb_trigger r \<le> rb_now r) (runs_of i (ss_log s))"
    using log by (auto simp: list_all_iff runs_of_def)
  from successively_mono_sorted [OF chain this]
  have sorted: "sorted_wrt (\<lambda>a b. rb_trigger a < rb_trigger b) (live_of_day Z E i d (ss_log s))"
    by (simp add: live_of_day_def sorted_wrt_filter)
  have same: "rb_trigger r = rb_trigger q"
    if "r \<in> set (live_of_day Z E i d (ss_log s))" "q \<in> set (live_of_day Z E i d (ss_log s))" for r q
  proof -
    have run: "live_at Z (re_now_et (E r)) \<and> rb_trigger r \<le> re_now_et (E r) \<and> re_now_et (E r) - rb_trigger r \<le> 28 * 60 * ns_per_sec \<and>
        snd (tz_local Z (rb_trigger r)) \<in> set (targets_of (task_name (ss_tasks s ! i))) \<and> fst (tz_local Z (re_now_et (E r))) = d"
      if "r \<in> set (live_of_day Z E i d (ss_log s))" for r
    proof -
      have r: "r \<in> set (runs_of i (ss_log s))" "r \<in> set (ss_log s)" using that by (auto simp: live_of_day_def runs_of_def)
      with runs_targets [OF log i r(1)] that assms(2) show ?thesis
        by (auto simp: live_of_day_def runs_in_time_def run_fits_def)
    qed
    from live_runs_same_trigger [OF Z targets_of_cases [of "task_name (ss_tasks s ! i)"], of "re_now_et (E r)" "rb_trigger r" "re_now_et (E q)" "rb_trigger q"]
      run [OF that(1)] run [OF that(2)] show ?thesis by simp
  qed
  show ?thesis
  proof (rule ccontr)
    assume "\<not> ?thesis"
    then obtain a b rs where x: "live_of_day Z E i d (ss_log s) = a # b # rs"
      by (cases "live_of_day Z E i d (ss_log s)"; cases "tl (live_of_day Z E i d (ss_log s))") auto
    with sorted same [of a b] show False by simp
  qed
qed

text \<open>A trigger between two times in the window of one day is the last target.\<close>

lemma trigger_in_window:
  assumes Z: "tz_steady Z (hms 3 0 0)" and "targets = pqp_targets \<or> targets = ap_targets"
    and "live_at Z u" and "live_at Z v" and "fst (tz_local Z u) = d" and "fst (tz_local Z v) = d"
    and "u < t" and "t \<le> v" and "snd (tz_local Z t) \<in> set targets"
  shows "tz_local Z t = (d, last_target targets)"
proof -
  obtain n where n: "tz_earliest Z d (hms 12 0 0) = Some n" "n - u < 90 * ns_per_sec"
    by (rule live_window [OF assms(3)]) (use assms(5) in simp)
  obtain n' where n': "tz_earliest Z d (hms 12 0 0) = Some n'" "v - n' < 90 * ns_per_sec"
    by (rule live_window [OF assms(4)]) (use assms(6) in simp)
  have safe: "hms 3 0 0 \<le> snd (tz_local Z t)"
    using assms(2,9) by (auto simp: pqp_targets_def ap_targets_def hms_def ns_per_sec_def)
  have "fst (tz_local Z t) \<le> d" using tz_laws.date_mono [OF tz_steady.axioms(1) [OF Z] assms(8)] assms(6) by simp
  moreover have "n - t < hms 12 0 0 - hms 3 0 0" "hms 3 0 0 \<le> hms 12 0 0" "hms 3 0 0 < day_ns"
    using n(2) assms(7) by (simp_all add: hms_def ns_per_sec_def day_ns_def)
  ultimately have l: "fst (tz_local Z t) = d" "snd (tz_local Z t) = hms 12 0 0 - (n - t)"
    using tz_steady.close_before [OF Z n(1)] safe by blast+
  have "n' = n" using n(1) n'(1) by simp
  then have "hms 11 58 30 < snd (tz_local Z t)" "snd (tz_local Z t) < hms 12 1 30"
    using l(2) n(2) n'(2) assms(7,8) by (simp_all add: hms_def ns_per_sec_def)
  then have "snd (tz_local Z t) = last_target targets"
    using assms(2,9) by (auto simp: last_target_def pqp_targets_def ap_targets_def hms_def ns_per_sec_def)
  with l(1) show ?thesis by (simp add: prod_eq_iff)
qed

text \<open>In order, all live runs of a day but the first answer the last trigger.\<close>

lemma two_live:
  assumes Z: "tz_steady Z (hms 3 0 0)" and "runs_in_order Z E (ss_log s)"
    and log: "list_all (\<lambda>r. rb_trigger r \<le> rb_now r \<and> meant_at Z (task_name (ss_tasks s ! rb_task r)) (rb_trigger r)) (ss_log s)"
    and i: "task_name (ss_tasks s ! i) \<in> fast_runners"
  shows "length (live_of_day Z E i d (ss_log s)) \<le> 2"
proof -
  have run: "rb_trigger r \<le> re_now_et (E r) \<and> snd (tz_local Z (rb_trigger r)) \<in> set (targets_of (task_name (ss_tasks s ! i)))"
    if "r \<in> set (runs_of i (ss_log s))" for r
  proof -
    have "rb_now r \<le> re_now_et (E r)" using that assms(2) by (auto simp: runs_in_order_def run_fits_def runs_of_def)
    with runs_targets [OF log i that] show ?thesis by simp
  qed
  have order: "sorted_wrt (\<lambda>a b. re_now_et (E a) < rb_trigger b) (runs_of i (ss_log s))"
  proof -
    have "successively (\<lambda>a b. re_now_et (E a) < rb_trigger b \<and> rb_trigger b \<le> re_now_et (E b)) (runs_of i (ss_log s))"
      using assms(2) run by (auto simp: runs_in_order_def intro: successively_mono)
    then have "sorted_wrt (\<lambda>a b. re_now_et (E a) < rb_trigger b \<and> rb_trigger b \<le> re_now_et (E b)) (runs_of i (ss_log s))"
      by (intro successively_conv_sorted_wrt [THEN iffD1]) (auto simp: transp_def)
    then show ?thesis by (rule sorted_wrt_mono_rel [rotated]) simp
  qed
  show ?thesis
  proof (rule ccontr)
    let ?live = "live_of_day Z E i d (ss_log s)"
    assume "\<not> ?thesis"
    then obtain a b c rs where x: "?live = a # b # c # rs"
      by (cases ?live; cases "tl ?live"; cases "tl (tl ?live)") auto
    have in_runs: "r \<in> set (runs_of i (ss_log s)) \<and> live_at Z (re_now_et (E r)) \<and> fst (tz_local Z (re_now_et (E r))) = d"
      if "r \<in> {a, b, c}" for r
    proof -
      have "r \<in> set ?live" using that x by auto
      then show ?thesis by (simp add: live_of_day_def)
    qed
    have "sorted_wrt (\<lambda>a b. re_now_et (E a) < rb_trigger b) ?live"
      unfolding live_of_day_def by (rule sorted_wrt_filter [OF order])
    then have lt: "re_now_et (E a) < rb_trigger b" "re_now_et (E b) < rb_trigger c" by (simp_all add: x)
    have last: "tz_local Z (rb_trigger q) = (d, last_target (targets_of (task_name (ss_tasks s ! i))))"
      if "r \<in> {a, b, c}" "q \<in> {a, b, c}" "re_now_et (E r) < rb_trigger q" for r q
      using in_runs [OF that(1)] in_runs [OF that(2)] run [of q] that(3)
      by (intro trigger_in_window [OF Z targets_of_cases, of "re_now_et (E r)" "re_now_et (E q)"]) auto
    have "hms 3 0 0 \<le> last_target (targets_of (task_name (ss_tasks s ! i)))"
      by (auto simp: targets_of_def last_target_def pqp_targets_def ap_targets_def hms_def ns_per_sec_def)
    then have "rb_trigger b = rb_trigger c"
      using last [of a b] last [of b c] lt by (intro tz_steady.same_instant [OF Z]) simp_all
    with lt(2) run [of b] in_runs [of b] show False by simp
  qed
qed

lemma main_tasks_sum:
  fixes g :: "string \<Rightarrow> 'b::comm_monoid_add"
  assumes "scheduled_tasks Z clk os userdomain = Inr tasks" and "map task_name ts = map task_name tasks"
  shows "(\<Sum>i<length ts. g (task_name (ts ! i))) \<in>
    {g ''HeartbeatTask'', g ''HeartbeatTask'' + g ''FastRunnerPqpTask'' + g ''FastRunnerApTask''}"
proof -
  have "(\<Sum>i<length ts. g (task_name (ts ! i))) = sum_list (map g (map task_name ts))"
    by (simp add: sum_list_sum_nth atLeast0LessThan)
  moreover have "map task_name tasks \<in> {[''HeartbeatTask''], [''HeartbeatTask'', ''FastRunnerPqpTask'', ''FastRunnerApTask'']}"
    using assms(1) by (auto simp: scheduled_tasks_def fast_runner_pqp_task_new_def fast_runner_ap_task_new_def schedule_task_def
        heartbeat_new_def outcome_simps Let_def split: if_splits)
  ultimately show ?thesis using assms(2) by (auto simp: add.assoc)
qed

lemma day_total:
  fixes f :: "run_begun \<Rightarrow> 'b::linordered_semidom"
  assumes Z: "tz_steady Z (hms 3 0 0)" and tasks: "scheduled_tasks Z clk os userdomain = Inr tasks"
    and reach: "(scheduler_step (rq_tasks Z) (\<lambda>_. False))\<^sup>*\<^sup>* \<lparr>ss_tasks = tasks, ss_wake = w, ss_log = []\<rparr> s"
    and few: "\<And>i. task_name (ss_tasks s ! i) \<in> fast_runners \<Longrightarrow> length (live_of_day Z E i d (ss_log s)) \<le> k"
    and g: "g ''HeartbeatTask'' = 0" "\<And>n. 0 \<le> g n"
    and le: "\<And>r. r \<in> set (ss_log s) \<Longrightarrow> f r \<le> g (task_name (ss_tasks s ! rb_task r))"
    and live: "\<And>r. r \<in> set (ss_log s) \<Longrightarrow> f r \<noteq> 0 \<Longrightarrow>
      live_at Z (re_now_et (E r)) \<and> task_name (ss_tasks s ! rb_task r) \<in> fast_runners"
  shows "sum_list (map f (filter (\<lambda>r. fst (tz_local Z (re_now_et (E r))) = d) (ss_log s)))
    \<le> of_nat k * (g ''FastRunnerPqpTask'' + g ''FastRunnerApTask'')"
proof -
  let ?log = "filter (\<lambda>r. fst (tz_local Z (re_now_et (E r))) = d) (ss_log s)" and ?n = "length (ss_tasks s)"
  note laws = tz_steady.axioms(1) [OF Z]
  note log = scheduler_log [OF laws tasks main_reach [OF reach]]
  have task: "sum_list (map f (runs_of i ?log)) \<le> of_nat k * g (task_name (ss_tasks s ! i))" for i
  proof (rule sum_list_few [OF _ _ g(2)])
    show "f r \<le> g (task_name (ss_tasks s ! i))" if "r \<in> set (runs_of i ?log)" for r
      using le [of r] that by (auto simp: runs_of_def)
    have runs: "runs_of i ?log = filter (\<lambda>r. fst (tz_local Z (re_now_et (E r))) = d) (runs_of i (ss_log s))"
      by (simp add: runs_of_def conj_commute)
    show "length (filter (\<lambda>r. f r \<noteq> 0) (runs_of i ?log)) \<le> k"
    proof (cases "task_name (ss_tasks s ! i) \<in> fast_runners")
      case True
      have "filter (\<lambda>r. f r \<noteq> 0) (runs_of i ?log) = filter (\<lambda>r. f r \<noteq> 0) (live_of_day Z E i d (ss_log s))"
        unfolding runs live_of_day_def filter_filter using live by (intro filter_cong) (auto simp: runs_of_def)
      with le_trans [OF length_filter_le few [OF True]] show ?thesis by simp
    next
      case False
      then have "filter (\<lambda>r. f r \<noteq> 0) (runs_of i ?log) = []"
        using live by (auto simp: filter_empty_conv runs_of_def)
      then show ?thesis by simp
    qed
  qed
  have "sum_list (map f ?log) = (\<Sum>i<?n. sum_list (map f (runs_of i ?log)))"
    using log(3) by (intro sum_list_by_task) (simp add: list_all_iff)
  also have "\<dots> \<le> (\<Sum>i<?n. of_nat k * g (task_name (ss_tasks s ! i)))" by (intro sum_mono task)
  also have "\<dots> = of_nat k * (\<Sum>i<?n. g (task_name (ss_tasks s ! i)))" by (simp add: sum_distrib_left)
  also have "\<dots> \<le> of_nat k * (g ''FastRunnerPqpTask'' + g ''FastRunnerApTask'')"
    using main_tasks_sum [OF tasks, of "ss_tasks s" g] tasks_stay [OF laws reach] scheduled_tasks_ok [OF laws tasks] g
    by (intro mult_left_mono) auto
  finally show ?thesis .
qed

text \<open>What a day's runs submit, when a task has at most \<open>k\<close> live runs a day.\<close>

lemma day_bounds:
  assumes "tz_steady Z (hms 3 0 0)" and "scheduled_tasks Z clk os userdomain = Inr tasks"
    and "(scheduler_step (rq_tasks Z) (\<lambda>_. False))\<^sup>*\<^sup>* \<lparr>ss_tasks = tasks, ss_wake = w, ss_log = []\<rparr> s"
    and fits: "\<forall>r \<in> set (ss_log s). run_fits Z (E r) r"
    and few: "\<And>i. task_name (ss_tasks s ! i) \<in> fast_runners \<Longrightarrow> length (live_of_day Z E i d (ss_log s)) \<le> k"
  shows "list_all (\<lambda>r. task_run (E r) (ss_tasks s ! rb_task r) (S r) \<noteq> None \<and>
      (run_answered (E r) \<longrightarrow> run_over (task_run (E r) (ss_tasks s ! rb_task r) (S r))) \<and>
      list_all (well_formed (re_gateways (E r))) (run_submissions (E r) (ss_tasks s ! rb_task r) (S r))) (ss_log s)"
    and "length (day_submissions Z E S s d) \<le> k * 16"
    and "runs_priced E S (ss_log s) \<Longrightarrow> buys_cost (day_submissions Z E S s d) \<le> of_nat k * (10264/10000 * 340000)"
proof -
  let ?sub = "\<lambda>r. run_submissions (E r) (ss_tasks s ! rb_task r) (S r)"
  note total = day_total [OF assms(1-3) few]
  have env: "chrono_laws (re_chrono (E r))" "re_tz (E r) = Z" if "r \<in> set (ss_log s)" for r
    using fits that by (simp_all add: run_fits_def)
  have live: "live_at Z (re_now_et (E r)) \<and> task_name (ss_tasks s ! rb_task r) \<in> fast_runners"
    if "r \<in> set (ss_log s)" "?sub r \<noteq> []" for r
    using run_submissions_bounds(1,2) [OF env(1), OF that(1), of "ss_tasks s ! rb_task r" "S r"] that env(2) [OF that(1)]
    by (auto simp: most_orders_def fast_runners_def split: if_splits)
  show "list_all (\<lambda>r. task_run (E r) (ss_tasks s ! rb_task r) (S r) \<noteq> None \<and>
      (run_answered (E r) \<longrightarrow> run_over (task_run (E r) (ss_tasks s ! rb_task r) (S r))) \<and>
      list_all (well_formed (re_gateways (E r))) (run_submissions (E r) (ss_tasks s ! rb_task r) (S r))) (ss_log s)"
    unfolding list_all_iff [of _ "ss_log s"]
  proof (intro ballI conjI impI)
    fix r assume r: "r \<in> set (ss_log s)"
    then obtain m where m: "re_loop_start (E r) + 270 * ns_per_sec \<le> re_clock (E r) m" using fits by (auto simp: run_fits_def)
    show "task_run (E r) (ss_tasks s ! rb_task r) (S r) \<noteq> None" by (rule task_run_returns(1) [OF m])
    show "run_over (task_run (E r) (ss_tasks s ! rb_task r) (S r))" if "run_answered (E r)" by (rule task_run_returns(2) [OF m that])
    show "list_all (well_formed (re_gateways (E r))) (run_submissions (E r) (ss_tasks s ! rb_task r) (S r))"
      by (rule run_submissions_bounds(4) [OF env(1) [OF r]])
  qed
  show "length (day_submissions Z E S s d) \<le> k * 16"
    using total [where f = "\<lambda>r. length (?sub r)" and g = most_orders] run_submissions_bounds(1) [OF env(1)] live
    by (auto simp: day_submissions_def length_concat comp_def most_orders_def)
  show "buys_cost (day_submissions Z E S s d) \<le> of_nat k * (10264/10000 * 340000)" if "runs_priced E S (ss_log s)"
  proof -
    have cost: "buys_cost (?sub r) \<le> 10264/10000 * most_dollars (task_name (ss_tasks s ! rb_task r))" if "r \<in> set (ss_log s)" for r
      using run_submissions_bounds(3) [OF env(1), OF that] that \<open>runs_priced E S (ss_log s)\<close> by (simp add: runs_priced_def)
    have "buys_cost (?sub r) \<noteq> 0 \<Longrightarrow> ?sub r \<noteq> []" for r by (auto simp: buys_cost_def)
    with total [where f = "\<lambda>r. buys_cost (?sub r)" and g = "\<lambda>n. 10264/10000 * most_dollars n"] cost live
    have "sum_list (map (\<lambda>r. buys_cost (?sub r)) (filter (\<lambda>r. fst (tz_local Z (re_now_et (E r))) = d) (ss_log s)))
        \<le> of_nat k * (10264/10000 * most_dollars ''FastRunnerPqpTask'' + 10264/10000 * most_dollars ''FastRunnerApTask'')"
      by (simp add: most_dollars_def)
    then show ?thesis by (simp add: day_submissions_def buys_cost_concat comp_def most_dollars_def)
  qed
qed

section \<open>Properties\<close>

text \<open>C1: In a time zone whose clock changes are over by three in the morning, with the tasks of
  \<open>main()\<close> and no others, while no run reads the clock more than 28 minutes after its trigger, and the clock of every
  run passes the end of its trading loop: every run whose requests are all answered, or fail, ends; every run submits well-formed orders
  only; and on any day in New York all runs together submit at most sixteen orders, whose buys, when prices are sane,
  cost at most 2.64 percent more than 340000 dollars.\<close>

theorem trading_day:
  assumes "tz_steady Z (hms 3 0 0)" and "scheduled_tasks Z clk os userdomain = Inr tasks"
    and "(scheduler_step (rq_tasks Z) (\<lambda>_. False))\<^sup>*\<^sup>* \<lparr>ss_tasks = tasks, ss_wake = w, ss_log = []\<rparr> s"
    and "runs_in_time Z E (ss_log s)"
  shows "list_all (\<lambda>r. task_run (E r) (ss_tasks s ! rb_task r) (S r) \<noteq> None \<and>
      (run_answered (E r) \<longrightarrow> run_over (task_run (E r) (ss_tasks s ! rb_task r) (S r))) \<and>
      list_all (well_formed (re_gateways (E r))) (run_submissions (E r) (ss_tasks s ! rb_task r) (S r))) (ss_log s) \<and>
    length (day_submissions Z E S s d) \<le> 16 \<and>
    (runs_priced E S (ss_log s) \<longrightarrow> buys_cost (day_submissions Z E S s d) \<le> 10264/10000 * 340000)"
proof -
  note log = scheduler_log [OF tz_steady.axioms(1) [OF assms(1)] assms(2) main_reach [OF assms(3)]]
  have fits: "\<forall>r \<in> set (ss_log s). run_fits Z (E r) r" using assms(4) by (simp add: runs_in_time_def)
  from day_bounds [where d = d and S = S, OF assms(1-3) this one_live [OF assms(1,4) log(1,2)]] show ?thesis by auto
qed

text \<open>The scheduler on the Monday, up to the PQP run of 11:59:10.\<close>

theorem trading_day_witness:
  "\<exists>s :: rq_task sched_state. map rb_now (ss_log s) = [monday 15 59 10] \<and>
     length (day_submissions eastern_2025 (\<lambda>r. demo_env (rb_now r) demo_world) (\<lambda>_. demo_state) s 20255) \<le> 16 \<and>
     buys_cost (day_submissions eastern_2025 (\<lambda>r. demo_env (rb_now r) demo_world) (\<lambda>_. demo_state) s 20255) \<le> 348976"
proof -
  let ?ts = "[HeartbeatTask ten_minutes (monday 16 8 40), FastRunnerPqpTask (monday 15 59 10) False, FastRunnerApTask (monday 15 59 20) False]"
  let ?ts' = "[HeartbeatTask ten_minutes (monday 16 8 40), FastRunnerPqpTask (monday 37 45 10) False, FastRunnerApTask (monday 15 59 20) False]"
  let ?s = "\<lparr>ss_tasks = ?ts', ss_wake = monday 15 59 20, ss_log = [\<lparr>rb_task = 1, rb_trigger = monday 15 59 10, rb_now = monday 15 59 10\<rparr>]\<rparr>"
  let ?E = "\<lambda>r. demo_env (rb_now r) demo_world"
  have start: "scheduled_tasks eastern_2025 (\<lambda>_. monday 15 58 40) ''windows'' (Some ''GYANTAL-PC'') = Inr ?ts"
    by (simp add: scheduled_tasks_def fast_runner_pqp_task_new_def fast_runner_ap_task_new_def monday_triggers
        heartbeat_new_def heartbeat_monday schedule_task_def Let_def)
  have "scheduler_step (rq_tasks eastern_2025) (\<lambda>_. False) \<lparr>ss_tasks = ?ts, ss_wake = monday 15 59 10, ss_log = []\<rparr> ?s"
    using monday_step [OF _ monday_turns(2), of "monday 15 59 10" "\<lambda>_. False" "[]"] by simp
  then have reach: "(scheduler_step (rq_tasks eastern_2025) (\<lambda>_. False))\<^sup>*\<^sup>*
      \<lparr>ss_tasks = ?ts, ss_wake = monday 15 59 10, ss_log = []\<rparr> ?s" by (rule r_into_rtranclp)
  have time: "runs_in_time eastern_2025 ?E (ss_log ?s)"
    using gregorian_laws.chrono_laws_axioms by (auto simp: runs_in_time_def run_fits_def ns_per_sec_def intro: exI [of _ 27])
  have "mark_timevalues (cache_at (\<lambda>_ c. c) (start_quote_stream ok (mvc_new t)) i) = mark_timevalues (mvc_new t)" for ok t i
    by (induction i) (simp_all add: start_quote_stream_def Let_def)
  then have "runs_priced ?E (\<lambda>_. demo_state) (ss_log ?s)"
    using demo_usable by (simp add: runs_priced_def run_caches_def usable_world_def get_mark_value_def)
  with trading_day [OF eastern_steady.tz_steady_axioms start reach time, of "\<lambda>_. demo_state" 20255] show ?thesis
    by (intro exI [of _ ?s]) simp
qed

text \<open>C6: However late the scheduler's turns are, as long as each run reads its clock, which comes after its
  \<open>init()\<close>, before the next trigger of its task, and passes the end of its trading loop: a task has at most two
  live runs a day, and all runs of a day submit at most 32 orders, whose buys, when prices are sane, cost at most 2.64
  percent more than 680000 dollars. With a late wake-up there are two.\<close>

theorem worst_trading_day:
  assumes "tz_steady Z (hms 3 0 0)" and "scheduled_tasks Z clk os userdomain = Inr tasks"
    and "(scheduler_step (rq_tasks Z) (\<lambda>_. False))\<^sup>*\<^sup>* \<lparr>ss_tasks = tasks, ss_wake = w, ss_log = []\<rparr> s"
    and "runs_in_order Z E (ss_log s)"
  shows "list_all (\<lambda>i. task_name (ss_tasks s ! i) \<in> fast_runners \<longrightarrow> length (live_of_day Z E i d (ss_log s)) \<le> 2)
      [0..<length (ss_tasks s)] \<and>
    length (day_submissions Z E S s d) \<le> 32 \<and>
    (runs_priced E S (ss_log s) \<longrightarrow> buys_cost (day_submissions Z E S s d) \<le> 10264/10000 * 680000)"
proof -
  note log = scheduler_log [OF tz_steady.axioms(1) [OF assms(1)] assms(2) main_reach [OF assms(3)]]
  have fits: "\<forall>r \<in> set (ss_log s). run_fits Z (E r) r" using assms(4) by (simp add: runs_in_order_def)
  note two = two_live [OF assms(1,4) log(1)]
  from day_bounds [where d = d and S = S, OF assms(1-3) fits two] two show ?thesis by (auto simp: list_all_iff)
qed

text \<open>The late Monday, each run reading the clock when it is begun: both tasks trade twice, which is the most.\<close>

theorem worst_trading_day_witness:
  "map (\<lambda>i. length (live_of_day eastern_2025 (\<lambda>r. demo_env (rb_now r) demo_world) i 20255 (ss_log late_monday))) [1, 2] = [2, 2] \<and>
   length (day_submissions eastern_2025 (\<lambda>r. demo_env (rb_now r) demo_world) (\<lambda>_. demo_state) late_monday 20255) \<le> 32"
proof -
  let ?E = "\<lambda>r. demo_env (rb_now r) demo_world"
  have order: "runs_in_order eastern_2025 ?E (ss_log late_monday)"
    using gregorian_laws.chrono_laws_axioms monday_order
    by (auto simp: runs_in_order_def run_fits_def late_monday_def runs_of_def ns_per_sec_def intro: exI [of _ 27])
  have date: "fst (tz_local eastern_2025 (monday 15 58 40)) = 20255" "fst (tz_local eastern_2025 (monday 15 59 10)) = 20255"
    "fst (tz_local eastern_2025 (monday 15 59 20)) = 20255"
    by (simp_all add: eastern_2025_def eastern_defs monday_def day_ns_def hms_def ns_per_sec_def)
  have "map (\<lambda>i. length (live_of_day eastern_2025 ?E i 20255 (ss_log late_monday))) [1, 2] = [2, 2]"
    by (simp add: live_of_day_def late_monday_def runs_of_def monday_live date)
  with worst_trading_day [OF eastern_steady.tz_steady_axioms late_monday_start late_monday_reach order, of 20255 "\<lambda>_. demo_state"]
  show ?thesis by simp
qed
end
