(* ===== verification/RqConfig.thy ===== *)
theory RqConfig
  imports RustStr
begin

text \<open>
  The configuration: \<open>rqcommon/src/utils/runningenv.rs\<close>, the errors of \<open>rqhelper.rs\<close>, and
  what uses the configuration at the start (\<open>get_rqcore_config\<close> of \<open>main.rs\<close>, the authorized
  users of \<open>main_web.rs\<close>). The operating system, its environment variables and the files are
  arguments. A \<open>OnceLock\<close> is an option that only ever goes from \<open>None\<close> to \<open>Some\<close>.
\<close>

type_synonym rq_core_config = "string \<rightharpoonup> string"

abbreviation newline :: char where "newline \<equiv> CHR 0x0A"

section \<open>\<open>OnceLock\<close> and errors\<close>

definition once_set :: "'a option \<Rightarrow> 'a \<Rightarrow> 'a option" where
  "once_set lock v = (case lock of Some u \<Rightarrow> Some u | None \<Rightarrow> Some v)"

lemma once_set_simps [simp]: "once_set (Some u) v = Some u" "once_set None v = Some v"
  by (simp_all add: once_set_def)

datatype rq_error = General string | Config string | Io string | ArgumentInvalid string

fun rq_error_fmt :: "rq_error \<Rightarrow> string" where
  "rq_error_fmt (General msg) = ''General error: '' @ msg"
| "rq_error_fmt (Config msg) = ''Configuration error: '' @ msg"
| "rq_error_fmt (Io err) = ''IO error: '' @ err"
| "rq_error_fmt (ArgumentInvalid msg) = ''ArgumentInvalid: '' @ msg"

text \<open>\<open>lock().unwrap()\<close> of a poisoned mutex panics, \<open>lock_ignore_poison\<close> gives the data as they are.\<close>

datatype 'a mutex = Mutex (mutex_poisoned: bool) (mutex_data: 'a)

definition lock_unwrap :: "'a mutex \<Rightarrow> 'a outcome" where
  "lock_unwrap m = (if mutex_poisoned m then Inl (Panic ''called Result::unwrap() on an Err value: PoisonError'')
     else Inr (mutex_data m))"

definition lock_ignore_poison :: "'a mutex \<Rightarrow> 'a outcome" where
  "lock_ignore_poison m = Inr (mutex_data m)"

section \<open>\<open>runningenv.rs\<close>\<close>

record host_env =
  env_os :: string
  env_var :: "string \<rightharpoonup> string"
  env_files :: "string \<rightharpoonup> string"

definition h_drive :: string where
  "h_drive = ''h:/.shortcut-targets-by-id/0BzxkV1ug5ZxvVmtic1FsNTM5bHM/GDriveHedgeQuant/shared/GitHubRepos/NonCommitedSensitiveData/RqCore/''"

definition g_drive :: string where
  "g_drive = ''g:/.shortcut-targets-by-id/0BzxkV1ug5ZxvVmtic1FsNTM5bHM/GDriveHedgeQuant/shared/GitHubRepos/NonCommitedSensitiveData/RqCore/''"

definition windows_folder :: "string \<Rightarrow> string outcome" where
  "windows_folder userdomain =
     (if userdomain = ''GYANTAL-PC'' then Inr h_drive
      else if userdomain = ''GYANTAL-LAPTOP'' then Inr h_drive
      else if userdomain = ''BALAZS-PC'' then Inr h_drive
      else if userdomain = ''BALAZS-LAPTOP'' then Inr g_drive
      else if userdomain = ''DAYA-DESKTOP'' then Inr g_drive
      else if userdomain = ''DAYA-LAPTOP'' then Inr g_drive
      else if userdomain = ''DRCHARMAT-LAPTOP'' then Inr ''c:/Agy/NonCommitedSensitiveData/RqCore/''
      else Inl (Panic ''Windows user name is not recognized. Add your username and folder here!''))"

definition sensitive_config_folder_path :: "host_env \<Rightarrow> string outcome" where
  "sensitive_config_folder_path E =
     (if env_os E = ''windows'' then
        bind_out (expect (env_var E ''USERDOMAIN'') ''Failed to get USERDOMAIN environment variable'') windows_folder
      else
        bind_out (expect (env_var E ''LOGNAME'') ''Failed to get LOGNAME environment variable'')
          (\<lambda>username. Inr (''/home/'' @ username @ ''/RQ/sensitive_data/'')))"

text \<open>The loop over the lines; \<open>line_no\<close> counts from 0.\<close>

definition skipped_line :: "string \<Rightarrow> bool" where
  "skipped_line line \<longleftrightarrow> line = [] \<or> str_starts_with ''#'' line"

fun parse_config_lines :: "nat \<Rightarrow> string list \<Rightarrow> rq_core_config \<Rightarrow> string + rq_core_config" where
  "parse_config_lines line_no [] rqconfig = Inr rqconfig"
| "parse_config_lines line_no (l # ls) rqconfig =
     (let line = trim l
      in if skipped_line line then parse_config_lines (Suc line_no) ls rqconfig
         else case split_once CHR ''='' line of
             None \<Rightarrow> Inl (''Invalid config format at line '' @ show_nat (line_no + 1))
           | Some (key, val) \<Rightarrow> parse_config_lines (Suc line_no) ls (rqconfig(trim key \<mapsto> trim val)))"

definition load_rqcore_config :: "host_env \<Rightarrow> (string + rq_core_config) outcome" where
  "load_rqcore_config E =
     bind_out (sensitive_config_folder_path E) (\<lambda>folder.
       Inr (case env_files E (folder @ ''rqcore.config'') of
           None \<Rightarrow> Inl ''Configuration file missing or unreadable''
         | Some content \<Rightarrow> parse_config_lines 0 (str_lines content) Map.empty))"

text \<open>\<open>get_rqcore_config\<close> of \<open>main.rs\<close>: an error of the file gives an empty configuration.\<close>

definition get_rqcore_config :: "host_env \<Rightarrow> rq_core_config option \<Rightarrow> rq_core_config outcome" where
  "get_rqcore_config E lock =
     (case lock of Some cfg \<Rightarrow> Inr cfg
      | None \<Rightarrow> bind_out (load_rqcore_config E) (\<lambda>r. Inr (case r of Inl _ \<Rightarrow> Map.empty | Inr cfg \<Rightarrow> cfg)))"

text \<open>The authorized users of \<open>main_web.rs\<close>.\<close>

definition init_authorized_users :: "string set option \<Rightarrow> rq_core_config \<Rightarrow> string set option" where
  "init_authorized_users lock cfg =
     once_set lock ((\<lambda>key. the (cfg key)) ` {key \<in> dom cfg. str_starts_with ''email_'' key})"

definition get_authorized_users :: "string set option \<Rightarrow> string set" where
  "get_authorized_users lock = (case lock of Some users \<Rightarrow> users | None \<Rightarrow> {})"

section \<open>Lines and trimming\<close>

lemma char_of_10: "char_of (10::nat) = newline"
  using char_of_char [of newline, where 'a = nat] by simp

lemma str_lines_append:
  assumes "newline \<notin> set l"
  shows "str_lines (l @ newline # rest) = strip_cr l # str_lines rest"
  using split_char_append [OF assms, of rest] split_char_nonempty [of newline rest]
  by (simp add: str_lines_def Let_def char_of_10)

lemma str_lines_Nil [simp]: "str_lines [] = []"
  by (simp add: str_lines_def)

lemma strip_ws_length: "length (strip_ws w s) \<le> length s"
proof (induction w s rule: strip_ws.induct)
  case (1 w s)
  then show ?case by (cases "s \<noteq> [] \<and> 0 < w s") (auto simp: strip_ws.simps [of w s])
qed

lemma strip_ws_idle_iff: "strip_ws w s = s \<longleftrightarrow> s = [] \<or> w s = 0"
proof
  assume same: "strip_ws w s = s"
  show "s = [] \<or> w s = 0" using strip_ws_stops [of w s] same by metis
qed (auto simp: strip_ws.simps [of w s])

lemma trim_id_iff: "trim s = s \<longleftrightarrow> s = [] \<or> (ws_len s = 0 \<and> ws_len_rev (rev s) = 0)"
proof
  assume t: "trim s = s"
  let ?u = "strip_ws ws_len s"
  have "length s \<le> length ?u"
    using strip_ws_length [of ws_len_rev "rev ?u"] arg_cong [OF t, of length] by (simp add: trim_def)
  moreover obtain n where "?u = drop n s"
  proof -
    have "\<exists>n. strip_ws w s = drop n s" for w and s :: string
    proof (induction w s rule: strip_ws.induct)
      case (1 w s)
      show ?case
      proof (cases "s \<noteq> [] \<and> 0 < w s")
        case True
        with 1 obtain n where "strip_ws w (drop (w s) s) = drop n (drop (w s) s)" by blast
        with True show ?thesis by (auto simp: strip_ws.simps [of w s])
      next
        case False
        then show ?thesis by (intro exI [of _ 0]) (auto simp: strip_ws.simps [of w s])
      qed
    qed
    with that show thesis by blast
  qed
  ultimately have u: "?u = s" by (cases "n = 0"; cases s) auto
  then have "strip_ws ws_len_rev (rev s) = rev s" using t by (simp add: trim_def rev_swap)
  then show "s = [] \<or> (ws_len s = 0 \<and> ws_len_rev (rev s) = 0)" using u by (auto simp: strip_ws_idle_iff)
qed (auto simp: trim_id)

lemma not_ws_eq: "\<not> is_ws1 61" "\<not> is_ws2 b 61" "\<not> is_ws3 b 61 d" "\<not> is_ws3 b c 61"
    "\<not> is_ws2 61 c" "\<not> is_ws3 61 c d"
  by (auto simp: is_ws1_def is_ws2_def is_ws3_def)

lemma ws_len_eq: "ws_len (CHR ''='' # s) = 0" "ws_len_rev (CHR ''='' # s) = 0"
  by (cases s; cases "tl s"; simp add: not_ws_eq)+

lemma ws_len_append_eq: "ws_len k = 0 \<Longrightarrow> ws_len (k @ CHR ''='' # v) = 0"
proof (cases k rule: ws_len.cases)
  case (3 b)
  assume "ws_len k = 0"
  with 3 show ?thesis by (cases v) (auto simp: not_ws_eq split: if_splits)
qed (auto simp: not_ws_eq ws_len_eq split: if_splits)

lemma ws_len_rev_append_eq: "ws_len_rev k = 0 \<Longrightarrow> ws_len_rev (k @ CHR ''='' # v) = 0"
proof (cases k rule: ws_len_rev.cases)
  case (3 b)
  assume "ws_len_rev k = 0"
  with 3 show ?thesis by (cases v) (auto simp: not_ws_eq split: if_splits)
qed (auto simp: not_ws_eq ws_len_eq split: if_splits)

lemma trim_key_value: "trim k = k \<Longrightarrow> trim v = v \<Longrightarrow> trim (k @ CHR ''='' # v) = k @ CHR ''='' # v"
  using ws_len_append_eq [of k v] ws_len_rev_append_eq [of "rev v" "rev k"]
  by (auto simp: trim_id_iff)

section \<open>The parser\<close>

text \<open>What a line means: nothing, an error, or an entry.\<close>

definition bad_line :: "string \<Rightarrow> bool" where
  "bad_line l \<longleftrightarrow> \<not> skipped_line (trim l) \<and> CHR ''='' \<notin> set (trim l)"

definition line_entry :: "string \<Rightarrow> (string \<times> string) option" where
  "line_entry l = (if skipped_line (trim l) then None
     else map_option (\<lambda>(k, v). (trim k, trim v)) (split_once CHR ''='' (trim l)))"

lemma parse_config_lines_spec:
  "parse_config_lines n ls m =
     (if list_ex bad_line ls
      then Inl (''Invalid config format at line '' @ show_nat (n + length (takeWhile (\<lambda>l. \<not> bad_line l) ls) + 1))
      else Inr (insert_all (List.map_filter line_entry ls) m))"
proof (induction ls arbitrary: n m)
  case Nil
  then show ?case by (simp add: List.map_filter_def)
next
  case (Cons l ls)
  show ?case
  proof (cases "skipped_line (trim l)")
    case True
    then have "\<not> bad_line l" "line_entry l = None" by (simp_all add: bad_line_def line_entry_def)
    with Cons True show ?thesis by (simp add: List.map_filter_def)
  next
    case False
    show ?thesis
    proof (cases "split_once CHR ''='' (trim l)")
      case None
      with False have "bad_line l" by (simp add: bad_line_def split_once_None_iff)
      with None False show ?thesis by simp
    next
      case (Some kv)
      obtain k v where kv: "kv = (k, v)" by (cases kv)
      have "CHR ''='' \<in> set (trim l)"
        using Some split_once_None_iff [of "CHR ''=''" "trim l"] by auto
      then have "\<not> bad_line l" by (simp add: bad_line_def)
      moreover have "line_entry l = Some (trim k, trim v)" using False Some kv by (simp add: line_entry_def)
      ultimately show ?thesis using Cons False Some kv by (simp add: List.map_filter_def)
    qed
  qed
qed

text \<open>An entry a file can hold: the key and the value trimmed, on one line, the key no comment.\<close>

definition clean_entry :: "string \<times> string \<Rightarrow> bool" where
  "clean_entry kv = (case kv of (k, v) \<Rightarrow> trim k = k \<and> trim v = v \<and> newline \<notin> set (k @ v) \<and>
     CHR ''='' \<notin> set k \<and> \<not> str_starts_with ''#'' k)"

definition config_text :: "(string \<times> string) list \<Rightarrow> string" where
  "config_text kvs = concat (map (\<lambda>(k, v). k @ ''='' @ v @ [newline]) kvs)"

lemma strip_cr_trimmed: "trim l = l \<Longrightarrow> strip_cr l = l"
  by (cases l rule: rev_cases) (auto simp: strip_cr_def trim_id_iff is_ws1_def elim: ws_len_rev.elims split: if_splits)

lemma entry_line:
  assumes "clean_entry (k, v)"
  shows "line_entry (k @ CHR ''='' # v) = Some (k, v)" and "\<not> bad_line (k @ CHR ''='' # v)"
    and "strip_cr (k @ CHR ''='' # v) = k @ CHR ''='' # v"
proof -
  have c: "trim k = k" "trim v = v" "CHR ''='' \<notin> set k" "\<not> str_starts_with ''#'' k"
    using assms by (auto simp: clean_entry_def)
  have t: "trim (k @ CHR ''='' # v) = k @ CHR ''='' # v" using c by (intro trim_key_value)
  have "\<not> skipped_line (k @ CHR ''='' # v)" using c(4) by (cases k) (auto simp: skipped_line_def str_starts_with_def)
  then show "line_entry (k @ CHR ''='' # v) = Some (k, v)" "\<not> bad_line (k @ CHR ''='' # v)"
    using c by (simp_all add: line_entry_def bad_line_def t split_once_append)
  show "strip_cr (k @ CHR ''='' # v) = k @ CHR ''='' # v" by (rule strip_cr_trimmed [OF t])
qed

lemma str_lines_config_text:
  "list_all clean_entry kvs \<Longrightarrow> str_lines (config_text kvs) = map (\<lambda>(k, v). k @ CHR ''='' # v) kvs"
proof (induction kvs)
  case Nil
  then show ?case by (simp add: config_text_def)
next
  case (Cons kv kvs)
  obtain k v where kv: "kv = (k, v)" by (cases kv)
  have c: "clean_entry (k, v)" using Cons.prems kv by simp
  then have "newline \<notin> set (k @ CHR ''='' # v)" by (auto simp: clean_entry_def)
  from str_lines_append [OF this, of "config_text kvs"]
  show ?case using Cons entry_line(3) [OF c] kv by (simp add: config_text_def)
qed

lemma parse_config_text:
  assumes "list_all clean_entry kvs"
  shows "parse_config_lines 0 (str_lines (config_text kvs)) Map.empty = Inr (insert_all kvs Map.empty)"
proof -
  have "List.map_filter line_entry (map (\<lambda>(k, v). k @ CHR ''='' # v) kvs) = kvs"
    using assms by (induction kvs) (auto simp: List.map_filter_def entry_line)
  moreover have "\<not> list_ex bad_line (map (\<lambda>(k, v). k @ CHR ''='' # v) kvs)"
    using assms by (induction kvs) (auto simp: entry_line)
  ultimately show ?thesis using assms by (simp add: parse_config_lines_spec str_lines_config_text)
qed

section \<open>Properties\<close>

text \<open>C25: A configuration written as \<open>key=value\<close> lines (keys and values trimmed
  and on one line, no key with an equals sign or starting with a number sign) loads as exactly its entries,
  the last one of each key; empty keys and values included.\<close>

theorem config_round_trip:
  assumes "sensitive_config_folder_path E = Inr folder"
    and "env_files E (folder @ ''rqcore.config'') = Some (config_text kvs)" and "list_all clean_entry kvs"
  shows "load_rqcore_config E = Inr (Inr (insert_all kvs Map.empty))"
  using assms by (simp add: load_rqcore_config_def parse_config_text)

definition demo_host :: host_env where
  "demo_host = \<lparr>env_os = ''linux'', env_var = [''LOGNAME'' \<mapsto> ''rquser''],
     env_files = [''/home/rquser/RQ/sensitive_data/rqcore.config'' \<mapsto> config_text [(''a'', ''b=c d''), (''x'', []), (''a'', ''2'')]]\<rparr>"

lemma demo_folder: "sensitive_config_folder_path demo_host = Inr ''/home/rquser/RQ/sensitive_data/''"
  by (simp add: sensitive_config_folder_path_def demo_host_def)

theorem config_round_trip_witness:
  "load_rqcore_config demo_host = Inr (Inr [''a'' \<mapsto> ''2'', ''x'' \<mapsto> []])"
  using config_round_trip [OF demo_folder, of "[(''a'', ''b=c d''), (''x'', []), (''a'', ''2'')]"]
  by (simp add: demo_host_def clean_entry_def trim_id_iff is_ws1_def is_ws2_def is_ws3_def str_starts_with_def fun_upd_twist)

text \<open>C26: For every file: loading fails exactly when a line that is neither blank nor
  a comment has no equals sign, and the message names the first such line, counted from one; otherwise the
  configuration has the trimmed entries of the other lines, split at their first equals sign, the last entry
  of a key winning. A missing file is an error, never a panic.\<close>

theorem load_config_spec:
  "load_rqcore_config E = bind_out (sensitive_config_folder_path E) (\<lambda>folder. Inr
     (case env_files E (folder @ ''rqcore.config'') of
        None \<Rightarrow> Inl ''Configuration file missing or unreadable''
      | Some content \<Rightarrow>
          (let ls = str_lines content
           in if list_ex bad_line ls
              then Inl (''Invalid config format at line '' @ show_nat (length (takeWhile (\<lambda>l. \<not> bad_line l) ls) + 1))
              else Inr (map_of (rev (List.map_filter line_entry ls))))))"
  unfolding load_rqcore_config_def parse_config_lines_spec insert_all_empty Let_def add_0 ..

text \<open>The authorized users are the values of all keys that start with
  \<open>email_\<close>. The password of the mail account is stored under such a key, so it is one of them, as is the
  server's own sender address.\<close>

lemma email_keys_spec:
  "get_authorized_users (init_authorized_users None cfg) = {v. \<exists>k. cfg (''email_'' @ k) = Some v}"
  by (force simp: get_authorized_users_def init_authorized_users_def str_starts_with_def prefix_def image_iff)

theorem email_keys_authorized:
  "{addr, pwd} \<subseteq> get_authorized_users (init_authorized_users None
     (cfg(''email_hqserver'' \<mapsto> addr, ''email_hqserver_pwd'' \<mapsto> pwd)))"
  unfolding email_keys_spec by (auto intro: exI [of _ "''hqserver''"] exI [of _ "''hqserver_pwd''"])
end
