(* ===== verification/GSheets.thy ===== *)
theory GSheets
  imports RqConfig "HOL-Library.Word"
begin

text \<open>
  \<open>rqcommon/src/utils/rqgsheets.rs\<close>: Google sheets read and written by cell. Row and column numbers
  are machine words (\<open>usize\<close> is 64 bits); \<open>checks\<close> tells whether the build checks overflow, as a
  debug build does, or wraps around, as a release build does. The HTTP download, the CSV reader and the
  Sheets API are parameters.
\<close>

type_synonym u32 = "32 word"
type_synonym usize = "64 word"

section \<open>Checked arithmetic\<close>

definition word_sub :: "bool \<Rightarrow> 'a::len word \<Rightarrow> 'a word \<Rightarrow> 'a word outcome" where
  "word_sub checks a b =
     (if checks \<and> a < b then Inl (Panic ''attempt to subtract with overflow'') else Inr (a - b))"

definition word_mul_add :: "bool \<Rightarrow> 'a::len word \<Rightarrow> 'a word \<Rightarrow> 'a word \<Rightarrow> 'a word outcome" where
  "word_mul_add checks a b c =
     (if checks \<and> 2 ^ LENGTH('a) \<le> unat a * unat b then Inl (Panic ''attempt to multiply with overflow'')
      else if checks \<and> 2 ^ LENGTH('a) \<le> unat (a * b) + unat c then Inl (Panic ''attempt to add with overflow'')
      else Inr (a * b + c))"

section \<open>Cell names\<close>

lemma column_num_less:
  fixes n :: u32
  assumes "n > 0"
  shows "unat ((n - 1) div 26) < unat n"
proof -
  have "unat (n - 1) < unat n" using assms by (simp add: unat_minus_one word_gt_0 unat_gt_0)
  moreover have "unat ((n - 1) div 26) \<le> unat (n - 1)" by (simp add: unat_div)
  ultimately show ?thesis by simp
qed

function column_letters :: "u32 \<Rightarrow> string \<Rightarrow> string" where
  "column_letters column_num column_name =
     (if column_num > 0
      then column_letters ((column_num - 1) div 26) (char_of (65 + unat ((column_num - 1) mod 26)) # column_name)
      else column_name)"
  by pat_completeness auto

termination
  by (relation "measure (\<lambda>(n, _). unat n)") (simp_all add: column_num_less)

declare column_letters.simps [simp del]

definition column_number_to_letter :: "u32 \<Rightarrow> string" where
  "column_number_to_letter column_num = column_letters column_num []"

fun col_index_loop :: "bool \<Rightarrow> usize \<Rightarrow> string \<Rightarrow> usize outcome" where
  "col_index_loop checks col_index [] = Inr col_index"
| "col_index_loop checks col_index (c # cs) =
     bind_out (word_mul_add checks col_index 26 (word_of_nat (byte c) - 65 + 1))
       (\<lambda>col_index. col_index_loop checks col_index cs)"

definition parse_cell_id :: "bool \<Rightarrow> string \<Rightarrow> (usize \<times> usize) outcome" where
  "parse_cell_id checks cell =
     (let col_label_str = filter is_ascii_alphabetic cell;
          row_number_str = filter is_ascii_digit cell
      in bind_out (col_index_loop checks 0 (map to_ascii_upper col_label_str)) (\<lambda>col_index.
         (let row_index = (case parse_usize row_number_str of Some n \<Rightarrow> word_of_nat n | None \<Rightarrow> 1)
          in bind_out (word_sub checks row_index 1) (\<lambda>row.
             bind_out (word_sub checks col_index 1) (\<lambda>col. Inr (row, col))))))"

section \<open>Addresses\<close>

text \<open>\<open>url.split("/d/").nth(1).and_then(|s| s.split('/').next())\<close>, and the same for \<open>gid\<close>.\<close>

definition spreadsheet_id :: "string \<Rightarrow> string option" where
  "spreadsheet_id url = map_option (\<lambda>s. hd (split_char CHR ''/'' s)) (list_nth (split_str ''/d/'' url) 1)"

definition url_gid :: "string \<Rightarrow> string option" where
  "url_gid url = map_option (\<lambda>s. hd (split_char CHR ''&'' s)) (list_nth (split_str ''gid='' url) 1)"

definition convert_to_csv_export_url :: "string \<Rightarrow> string" where
  "convert_to_csv_export_url url =
     (let sheet_id = (case spreadsheet_id url of Some s \<Rightarrow> s | None \<Rightarrow> []);
          gid = (case url_gid url of Some s \<Rightarrow> s | None \<Rightarrow> ''0'')
      in ''https://docs.google.com/spreadsheets/d/'' @ sheet_id @ ''/export?format=csv&gid='' @ gid)"

section \<open>Reading and writing\<close>

record rq_gsheets =
  gsheet_client_email :: string
  gsheet_private_key :: string

definition gsheets_init :: "string \<Rightarrow> string \<Rightarrow> rq_gsheets option \<Rightarrow> rq_gsheets option" where
  "gsheets_init client_email private_key lock =
     once_set lock \<lparr>gsheet_client_email = client_email, gsheet_private_key = private_key\<rparr>"

text \<open>
  The world of a call: \<open>gw_get\<close> is \<open>reqwest::get(url)\<close> with the text of the answer, \<open>gw_csv\<close> the
  records of the CSV reader (each may be an error), \<open>gw_auth\<close> and \<open>gw_roots\<close> the authenticator and the
  certificates, \<open>gw_update\<close> the answer to an update of a range.
\<close>

record 'e gsheet_world =
  gw_get :: "string \<Rightarrow> 'e + string"
  gw_text :: "string \<Rightarrow> 'e + string"
  gw_csv :: "string \<Rightarrow> ('e + string list) list"
  gw_auth :: "rq_gsheets \<Rightarrow> 'e + unit"
  gw_roots :: "'e + unit"
  gw_update :: "string \<Rightarrow> string \<Rightarrow> string \<Rightarrow> 'e + unit"

record cell_update =
  cu_sheet :: string
  cu_range :: string
  cu_value :: string

text \<open>The error and the updates sent, at most one.\<close>

definition set_single_cell :: "'e gsheet_world \<Rightarrow> rq_gsheets option \<Rightarrow> string \<Rightarrow> u32 \<Rightarrow> u32 \<Rightarrow> string
    \<Rightarrow> ((rq_error + 'e) + unit) \<times> cell_update list" where
  "set_single_cell w lock url col_num row_num val =
     (let range = ''Sheet1!'' @ column_number_to_letter col_num @ show_nat (unat row_num)
      in case lock of
        None \<Rightarrow> (Inl (Inl (Config ''RqGsheets not initialized'')), [])
      | Some cfg \<Rightarrow>
        (case spreadsheet_id url of
           None \<Rightarrow> (Inl (Inl (ArgumentInvalid ''Invalid Google Sheets URL'')), [])
         | Some sheet \<Rightarrow>
           (case gw_auth w cfg of
              Inl e \<Rightarrow> (Inl (Inr e), [])
            | Inr _ \<Rightarrow>
              (case gw_roots w of
                 Inl e \<Rightarrow> (Inl (Inr e), [])
               | Inr _ \<Rightarrow>
                 (case gw_update w sheet range val of
                    Inl e \<Rightarrow> (Inl (Inr e), [\<lparr>cu_sheet = sheet, cu_range = range, cu_value = val\<rparr>])
                  | Inr _ \<Rightarrow> (Inr (), [\<lparr>cu_sheet = sheet, cu_range = range, cu_value = val\<rparr>]))))))"

definition http_text :: "'e gsheet_world \<Rightarrow> string \<Rightarrow> 'e + string" where
  "http_text w url = (case gw_get w url of Inl e \<Rightarrow> Inl e | Inr resp \<Rightarrow> gw_text w resp)"

definition get_single_cell :: "bool \<Rightarrow> 'e gsheet_world \<Rightarrow> string \<Rightarrow> u32 \<Rightarrow> u32 \<Rightarrow> string outcome" where
  "get_single_cell checks w url column_num row_num =
     (if \<not> str_contains ''export?format=csv'' url then Inr []
      else case http_text w url of
          Inl _ \<Rightarrow> Inr []
        | Inr csv_text \<Rightarrow>
            bind_out (word_sub checks row_num 1) (\<lambda>r.
              case list_nth (gw_csv w csv_text) (unat r) of
                Some (Inr rec) \<Rightarrow> bind_out (word_sub checks column_num 1) (\<lambda>c.
                  Inr (case list_nth rec (unat c) of Some v \<Rightarrow> v | None \<Rightarrow> []))
              | _ \<Rightarrow> Inr []))"

fun collect_rows :: "('e + string list) list \<Rightarrow> 'e + string list list" where
  "collect_rows [] = Inr []"
| "collect_rows (Inl e # rs) = Inl e"
| "collect_rows (Inr rec # rs) = (case collect_rows rs of Inl e \<Rightarrow> Inl e | Inr rows \<Rightarrow> Inr (map trim rec # rows))"

definition download_google_sheet :: "'e gsheet_world \<Rightarrow> string \<Rightarrow> 'e + string list list" where
  "download_google_sheet w csv_export_url =
     (case http_text w csv_export_url of Inl e \<Rightarrow> Inl e | Inr csv_text \<Rightarrow> collect_rows (gw_csv w csv_text))"

definition get_cell :: "bool \<Rightarrow> 'e gsheet_world \<Rightarrow> string \<Rightarrow> string \<Rightarrow> ('e + string) outcome" where
  "get_cell checks w url cell =
     (case download_google_sheet w (convert_to_csv_export_url url) of
        Inl e \<Rightarrow> Inr (Inl e)
      | Inr gsheet_data \<Rightarrow>
          bind_out (parse_cell_id checks cell) (\<lambda>(row, col).
            Inr (Inr (case list_nth gsheet_data (unat row) of
                None \<Rightarrow> []
              | Some row_vec \<Rightarrow> (case list_nth row_vec (unat col) of Some v \<Rightarrow> v | None \<Rightarrow> [])))))"

section \<open>Cell names, read back\<close>

text \<open>The number of a column label, as a natural number: \<open>A\<close> is 1, \<open>Z\<close> 26, \<open>AA\<close> 27.\<close>

definition col_step :: "nat \<Rightarrow> char \<Rightarrow> nat" where
  "col_step a c = a * 26 + (byte c - 64)"

definition col_val :: "string \<Rightarrow> nat" where
  "col_val cs = foldl col_step 0 cs"

lemma col_step_le: "a \<le> foldl col_step a cs"
proof (induction cs arbitrary: a)
  case (Cons c cs)
  have "a \<le> col_step a c" by (simp add: col_step_def)
  also have "\<dots> \<le> foldl col_step (col_step a c) cs" by (rule Cons)
  finally show ?case by simp
qed simp

lemma col_val_snoc: "col_val (cs @ [c]) = col_val cs * 26 + (byte c - 64)"
  by (simp add: col_val_def col_step_def)

lemma upper_letter_word:
  assumes "is_ascii_upper c"
  shows "(word_of_nat (byte c) - 65 + 1 :: usize) = word_of_nat (byte c - 64)"
proof -
  have "64 \<le> byte c" using assms by (simp add: is_ascii_upper_def)
  then obtain d where d: "byte c = 64 + d" using le_Suc_ex by blast
  then show ?thesis by simp
qed

lemma col_index_loop_val:
  assumes "list_all is_ascii_upper cs" and "foldl col_step (unat a) cs < 2 ^ 64"
  shows "col_index_loop checks a cs = Inr (word_of_nat (foldl col_step (unat a) cs))"
  using assms
proof (induction cs arbitrary: a)
  case Nil
  then show ?case by simp
next
  case (Cons c cs)
  let ?d = "byte c - 64"
  have up: "is_ascii_upper c" and d: "?d < 256" using Cons.prems by (auto simp: of_char_def)
  have lt: "unat a * 26 + ?d < 2 ^ 64"
  proof -
    have "col_step (unat a) c < 2 ^ 64" using col_step_le [of "col_step (unat a) c" cs] Cons.prems(2) by simp
    then show ?thesis by (simp add: col_step_def)
  qed
  then have ua: "unat (a * 26) = unat a * 26" by (simp add: unat_word_ariths)
  have ud: "unat (word_of_nat ?d :: usize) = ?d" using d by (simp add: unat_of_nat)
  let ?n = "a * 26 + word_of_nat ?d"
  have s: "word_mul_add checks a 26 (word_of_nat (byte c) - 65 + 1) = Inr ?n"
    using lt unfolding upper_letter_word [OF up] by (simp add: word_mul_add_def ua ud)
  have un: "unat ?n = col_step (unat a) c" using lt by (simp add: unat_word_ariths ua ud col_step_def)
  have "col_index_loop checks a (c # cs) = col_index_loop checks ?n cs"
    by (simp only: col_index_loop.simps s bind_out_simps)
  then show ?case using Cons.IH [of ?n] Cons.prems by (simp add: un)
qed

lemma column_letters_append: "column_letters n s = column_letters n [] @ s"
proof (induction "unat n" arbitrary: n s rule: less_induct)
  case less
  show ?case
  proof (cases "n > 0")
    case True
    note IH = less.hyps [OF column_num_less [OF True]]
    let ?c = "char_of (65 + unat ((n - 1) mod 26))" and ?m = "(n - 1) div 26"
    have "column_letters n s = column_letters ?m [] @ ?c # s" for s
      using True IH [of "?c # s"] by (simp add: column_letters.simps [of n s])
    from this [of s] this [of "[]"] show ?thesis by simp
  qed (simp add: column_letters.simps)
qed

lemma column_number_step:
  "n > 0 \<Longrightarrow> column_number_to_letter n =
     column_number_to_letter ((n - 1) div 26) @ [char_of (65 + unat ((n - 1) mod 26))]"
  unfolding column_number_to_letter_def
  by (subst column_letters.simps) (simp add: column_letters_append [of _ "[_]"])

lemma column_number_to_letter_0: "column_number_to_letter 0 = []"
  by (simp add: column_number_to_letter_def column_letters.simps)

lemma column_letter:
  fixes n :: u32
  shows "byte (char_of (65 + unat (n mod 26)) :: char) = 65 + unat (n mod 26)" and "unat (n mod 26) < 26"
proof -
  show "unat (n mod 26) < 26" by (simp add: unat_mod)
  then show "byte (char_of (65 + unat (n mod 26)) :: char) = 65 + unat (n mod 26)" by simp
qed

lemma column_number_to_letter_val:
  "col_val (column_number_to_letter n) = unat n \<and> list_all is_ascii_upper (column_number_to_letter n)"
proof (induction "unat n" arbitrary: n rule: less_induct)
  case less
  show ?case
  proof (cases "n > 0")
    case True
    let ?m = "(n - 1) div 26" and ?r = "(n - 1) mod 26"
    have IH: "col_val (column_number_to_letter ?m) = unat ?m" "list_all is_ascii_upper (column_number_to_letter ?m)"
      using less.hyps [OF column_num_less [OF True]] by simp_all
    have "unat ?m * 26 + unat ?r = unat (n - 1)" by (simp add: unat_div unat_mod)
    moreover have "unat (n - 1) + 1 = unat n" using True by (simp add: unat_minus_one word_gt_0 unat_gt_0)
    ultimately have "col_val (column_number_to_letter n) = unat n"
      using column_letter(2) [of "n - 1"] by (simp add: column_number_step [OF True] col_val_snoc IH(1))
    moreover have "is_ascii_upper (char_of (65 + unat ?r))"
      using column_letter [of "n - 1"] by (simp add: is_ascii_upper_def)
    ultimately show ?thesis using IH(2) by (simp add: column_number_step [OF True])
  next
    case False
    then have "n = 0" by (simp add: word_gt_0)
    then show ?thesis by (simp add: column_number_to_letter_0 col_val_def)
  qed
qed

lemma upper_ascii:
  assumes "list_all is_ascii_upper cs"
  shows "filter is_ascii_alphabetic cs = cs" "filter is_ascii_digit cs = []" "map to_ascii_upper cs = cs"
  using assms
  by (induction cs) (auto simp: is_ascii_alphabetic_def is_ascii_upper_def is_ascii_digit_def to_ascii_upper_def is_ascii_lower_def)

lemma digits_ascii:
  assumes "list_all is_ascii_digit cs"
  shows "filter is_ascii_alphabetic cs = []" "filter is_ascii_digit cs = cs"
  using assms
  by (induction cs) (auto simp: is_ascii_alphabetic_def is_ascii_upper_def is_ascii_digit_def is_ascii_lower_def)

lemma u32_fits: "unat (n :: u32) < 2 ^ 64" "unat n \<le> usize_max"
  using unsigned_less [of n, where 'a = nat] by (simp_all add: usize_max_def)

lemma parse_cell_name:
  fixes col row :: u32
  shows "parse_cell_id checks (column_number_to_letter col @ show_nat (unat row)) =
     bind_out (word_sub checks (word_of_nat (unat row)) 1) (\<lambda>r.
     bind_out (word_sub checks (word_of_nat (unat col)) 1) (\<lambda>c. Inr (r, c)))"
proof -
  note up = column_number_to_letter_val [of col]
  have "col_index_loop checks 0 (column_number_to_letter col) = Inr (word_of_nat (unat col))"
    using up u32_fits [of col] col_index_loop_val [of "column_number_to_letter col" 0 checks] by (simp add: col_val_def)
  moreover have "parse_usize (show_nat (unat row)) = Some (unat row)"
    by (rule parse_usize_show_nat [OF u32_fits(2)])
  ultimately show ?thesis
    using up show_nat_digits [of "unat row"]
    by (simp add: parse_cell_id_def upper_ascii digits_ascii)
qed

lemma word_sub_one:
  "word_sub checks (word_of_nat (unat (n :: u32)) :: usize) 1 =
     (if n = 0 then (if checks then Inl (Panic ''attempt to subtract with overflow'') else Inr (- 1))
      else Inr (word_of_nat (unat n - 1)))"
proof (cases "n = 0")
  case True
  then show ?thesis by (simp add: word_sub_def)
next
  case False
  then have "0 < unat n" by (simp add: unat_gt_0)
  then obtain m where m: "unat n = Suc m" using gr0_implies_Suc by blast
  then have "Suc m < 2 ^ 64" using u32_fits [of n] by simp
  then have "unat (word_of_nat (Suc m) :: usize) = Suc m" unfolding unat_of_nat by simp
  then have "\<not> (word_of_nat (Suc m) :: usize) < 1" by (simp add: word_less_nat_alt)
  with m False show ?thesis by (simp add: word_sub_def)
qed

text \<open>Without overflow checks \<open>parse_cell_id\<close> always returns.\<close>

lemma col_index_loop_unchecked: "\<exists>n. col_index_loop False a cs = Inr n"
  by (induction cs arbitrary: a) (auto simp: word_mul_add_def)

lemma parse_cell_unchecked: "\<exists>r c. parse_cell_id False cell = Inr (r, c)"
  using col_index_loop_unchecked [of 0] by (auto simp: parse_cell_id_def word_sub_def Let_def) (metis bind_out_simps(2))

section \<open>Addresses\<close>

lemma split_str_skip:
  assumes "pat \<noteq> []" and "\<not> prefix pat (x # s)"
  shows "split_str pat (x # s) = (x # hd (split_str pat s)) # tl (split_str pat s)"
proof -
  have "split_str pat s \<noteq> []" by (subst split_str.simps) (auto split: list.splits)
  with assms show ?thesis by (subst split_str.simps) (auto split: list.splits)
qed

text \<open>The first occurrence of the pattern splits the text; without one there is one piece.\<close>

lemma split_str_first:
  assumes "pat \<noteq> []" and "\<And>i. i < length s \<Longrightarrow> \<not> prefix pat (drop i (s @ pat @ t))"
  shows "split_str pat (s @ pat @ t) = s # split_str pat t"
  using assms(2)
proof (induction s)
  case Nil
  then show ?case using assms(1) by (subst split_str.simps) simp
next
  case (Cons x s)
  have "\<not> prefix pat (x # (s @ pat @ t))" using Cons.prems [of 0] by simp
  moreover have "split_str pat (s @ pat @ t) = s # split_str pat t"
    using Cons.prems [of "Suc _"] by (intro Cons.IH) auto
  ultimately show ?case using assms(1) by (simp add: split_str_skip)
qed

lemma split_str_none:
  assumes "pat \<noteq> []" and "\<not> sublist pat s"
  shows "split_str pat s = [s]"
  using assms(2)
proof (induction s)
  case Nil
  show ?case by (subst split_str.simps) (simp add: assms(1))
next
  case (Cons x s)
  then have "\<not> prefix pat (x # s)" "\<not> sublist pat s" by (auto simp: sublist_Cons_right)
  with Cons.IH assms(1) show ?case by (simp add: split_str_skip)
qed

lemma split_str_nonempty [simp]: "split_str pat s \<noteq> []"
  by (subst split_str.simps) (auto split: list.splits)

lemma split_str_match: "pat \<noteq> [] \<Longrightarrow> split_str pat (pat @ t) = [] # split_str pat t"
  by (subst split_str.simps) simp

lemma split_str_step: "\<not> prefix pat (x # s) \<Longrightarrow> split_str pat s = p # ps \<Longrightarrow> split_str pat (x # s) = (x # p) # ps"
  by (cases "pat = []") (simp_all add: split_str_skip)

lemma split_slash_d:
  "split_str ''/d/'' (''https://docs.google.com/spreadsheets/d/'' @ rest) =
     ''https://docs.google.com/spreadsheets'' # split_str ''/d/'' rest"
  unfolding append.simps
  by (rule split_str_step, simp)+ (rule split_str_match [of "''/d/''", simplified])

lemma hd_split_char_Cons: "x \<noteq> c \<Longrightarrow> hd (split_char c (x # s)) = x # hd (split_char c s)"
  using split_char_nonempty [of c s] by (simp split: list.splits)

lemma first_segment:
  "CHR ''/'' \<notin> set sid \<Longrightarrow> hd (split_char CHR ''/'' (hd (split_str ''/d/'' (sid @ CHR ''/'' # r)))) = sid"
proof (induction sid)
  case Nil
  show ?case
  proof (cases "prefix ''/d/'' (CHR ''/'' # r)")
    case True
    then show ?thesis by (subst split_str.simps) simp
  next
    case False
    then show ?thesis by (simp add: split_str_skip)
  qed
next
  case (Cons x sid)
  then have "\<not> prefix ''/d/'' (x # (sid @ CHR ''/'' # r))" "x \<noteq> CHR ''/''" by auto
  with Cons show ?case by (simp add: split_str_skip hd_split_char_Cons del: split_char.simps)
qed

lemma spreadsheet_id_url:
  assumes "CHR ''/'' \<notin> set sid"
  shows "spreadsheet_id (''https://docs.google.com/spreadsheets/d/'' @ sid @ CHR ''/'' # r) = Some sid"
  using first_segment [OF assms, of r] unfolding spreadsheet_id_def split_slash_d by (simp add: list_nth_def hd_conv_nth)

lemma no_gid_before:
  assumes "CHR ''='' \<notin> set s" and "i < length s"
  shows "\<not> prefix ''gid='' (drop i (s @ ''gid='' @ t))"
proof
  let ?u = "''gid='' @ t"
  assume "prefix ''gid='' (drop i (s @ ?u))"
  then obtain u where "drop i (s @ ?u) = ''gid='' @ u" unfolding prefix_def by blast
  then have "drop i (s @ ?u) ! 3 = CHR ''=''" by simp
  moreover have "i \<le> length (s @ ?u)" using assms(2) by simp
  ultimately have e: "(s @ ?u) ! (i + 3) = CHR ''=''" by (metis nth_drop)
  consider "i + 3 < length s" | "i + 3 = length s" | "i + 3 = length s + 1" | "i + 3 = length s + 2"
    using assms(2) by linarith
  then show False
  proof cases
    case 1
    then have "s ! (i + 3) = CHR ''=''" using e by (simp add: nth_append)
    with 1 assms(1) show ?thesis by (metis nth_mem)
  qed (use e in \<open>simp_all add: nth_append\<close>)
qed

lemma split_gid: "CHR ''='' \<notin> set s \<Longrightarrow> split_str ''gid='' (s @ ''gid='' @ t) = s # split_str ''gid='' t"
  by (rule split_str_first) (auto dest: no_gid_before)

lemma split_gid_none: "CHR ''='' \<notin> set s \<Longrightarrow> split_str ''gid='' s = [s]"
  by (rule split_str_none) (auto simp: sublist_def)

lemma url_gid_url:
  assumes "CHR ''='' \<notin> set s" and "CHR ''='' \<notin> set gid" and "CHR ''&'' \<notin> set gid"
  shows "url_gid (s @ ''gid='' @ gid) = Some gid" and "url_gid (s @ ''gid='' @ gid @ ''#gid='' @ t) = Some (gid @ ''#'')"
proof -
  have "split_str ''gid='' ((gid @ ''#'') @ ''gid='' @ t) = (gid @ ''#'') # split_str ''gid='' t"
    using assms by (intro split_gid) simp
  then show "url_gid (s @ ''gid='' @ gid @ ''#gid='' @ t) = Some (gid @ ''#'')"
    using split_gid [OF assms(1), of "gid @ ''#gid='' @ t"] assms(3) by (simp add: url_gid_def list_nth_def split_char_fresh)
  show "url_gid (s @ ''gid='' @ gid) = Some gid"
    using split_gid [OF assms(1), of gid] split_gid_none [OF assms(2)] assms(3) by (simp add: url_gid_def list_nth_def split_char_fresh)
qed

section \<open>Bounds of cell names\<close>

lemma alphabetic_upper: "is_ascii_alphabetic c \<Longrightarrow> is_ascii_upper (to_ascii_upper c)"
  by (auto simp: is_ascii_alphabetic_def is_ascii_upper_def is_ascii_lower_def to_ascii_upper_def)

lemma upper_label: "list_all is_ascii_upper (map to_ascii_upper (filter is_ascii_alphabetic cell))"
  by (simp add: list_all_iff alphabetic_upper)

lemma col_step_upper: "is_ascii_upper c \<Longrightarrow> a * 26 + 1 \<le> col_step a c \<and> col_step a c \<le> a * 26 + 26"
  by (auto simp: is_ascii_upper_def col_step_def)

lemma col_val_bounds:
  "list_all is_ascii_upper cs \<Longrightarrow> col_val cs < 27 ^ length cs \<and> (col_val cs = 0 \<longleftrightarrow> cs = [])"
proof (induction cs rule: rev_induct)
  case Nil
  then show ?case by (simp add: col_val_def)
next
  case (snoc c cs)
  then have up: "is_ascii_upper c" and IH: "col_val cs < 27 ^ length cs" by simp_all
  have "col_val (cs @ [c]) = col_step (col_val cs) c" by (simp add: col_val_def)
  with col_step_upper [OF up, of "col_val cs"] IH show ?case by simp
qed

text \<open>A label whose number does not fit 64 bits: the step at which it gets too large panics.\<close>

lemma col_index_loop_panics:
  assumes "list_all is_ascii_upper cs" and "2 ^ 64 \<le> foldl col_step (unat a) cs"
  shows "\<exists>msg. col_index_loop True a cs = Inl (Panic msg)"
  using assms
proof (induction cs arbitrary: a)
  case Nil
  then show ?case using unsigned_less [of a, where 'a = nat] by simp
next
  case (Cons c cs)
  define k where "k = byte c - 64"
  have up: "is_ascii_upper c" and d: "k < 256" using Cons.prems by (auto simp: k_def of_char_def)
  have ud: "unat (word_of_nat k :: usize) = k" using d by (simp add: unat_of_nat)
  let ?n = "a * 26 + word_of_nat k"
  have step: "col_index_loop True a (c # cs) = bind_out (word_mul_add True a 26 (word_of_nat k)) (\<lambda>n. col_index_loop True n cs)"
    by (simp only: col_index_loop.simps upper_letter_word [OF up] k_def)
  show ?case
  proof (cases "col_step (unat a) c < 2 ^ 64")
    case True
    then have ua: "unat (a * 26) = unat a * 26" by (simp add: unat_word_ariths col_step_def flip: k_def)
    have "word_mul_add True a 26 (word_of_nat k) = Inr ?n" using True by (simp add: word_mul_add_def ua ud col_step_def flip: k_def)
    moreover have "unat ?n = col_step (unat a) c" using True by (simp add: unat_word_ariths ua ud col_step_def flip: k_def)
    ultimately show ?thesis using Cons.IH [of ?n] Cons.prems step by simp
  next
    case False
    have "\<exists>msg. word_mul_add True a 26 (word_of_nat k) = Inl (Panic msg)"
    proof (cases "unat a * 26 < 2 ^ 64")
      case True
      then have "unat (a * 26) = unat a * 26" by (simp add: unat_word_ariths)
      with False show ?thesis by (simp add: word_mul_add_def ud col_step_def flip: k_def)
    qed (simp add: word_mul_add_def)
    then show ?thesis unfolding step by auto
  qed
qed

lemma word_sub_one_nat:
  assumes "n < 2 ^ 64"
  shows "word_sub checks (word_of_nat n :: usize) 1 =
    (if n = 0 then if checks then Inl (Panic ''attempt to subtract with overflow'') else Inr (- 1) else Inr (word_of_nat (n - 1)))"
proof (cases n)
  case (Suc m)
  have "unat (word_of_nat (Suc m) :: usize) = Suc m" unfolding unat_of_nat using assms Suc by simp
  then have "\<not> (word_of_nat (Suc m) :: usize) < 1" by (simp add: word_less_nat_alt)
  with Suc show ?thesis by (simp add: word_sub_def)
qed (simp add: word_sub_def)

lemma parse_usize_bound: "parse_usize s = Some n \<Longrightarrow> n < 2 ^ 64"
  by (auto simp: parse_usize_def usize_max_def Let_def split: if_splits)

section \<open>Properties\<close>

text \<open>C27: The cell name \<open>set_single_cell\<close> builds from a column and a row number,
  both counted from one, is read by \<open>parse_cell_id\<close> as these numbers less one, for every number of 32
  bits, with overflow checks and without.\<close>

theorem cell_name_round_trip:
  fixes col row :: u32
  assumes "0 < col" and "0 < row"
  shows "parse_cell_id checks (column_number_to_letter col @ show_nat (unat row)) =
    Inr (word_of_nat (unat row - 1), word_of_nat (unat col - 1))"
  using assms unfolding parse_cell_name word_sub_one by (simp add: word_gt_0)

theorem cell_name_round_trip_witness: "parse_cell_id True ''AB12'' = Inr (11, 27)"
proof -
  have "column_number_to_letter 28 = ''AB''" using char_of_char [of "CHR ''A''", where 'a = nat] char_of_char [of "CHR ''B''", where 'a = nat]
    by (simp add: column_number_to_letter_def column_letters.simps)
  moreover have "show_nat 12 = ''12''"
    using char_of_char [of "CHR ''1''", where 'a = nat] char_of_char [of "CHR ''2''", where 'a = nat]
    by (simp add: show_nat.simps digit_char_def)
  ultimately show ?thesis using cell_name_round_trip [of 28 12 True] by simp
qed

text \<open>C28: On any text: when the row number (1 where there is none that can be read) is not zero, there is a letter, and
  the number of the column label fits 64 bits, the cell's zero-based row and column are returned, with overflow checks or
  without; otherwise a build with overflow checks panics, and one without returns something.\<close>

theorem parse_cell_id_panics:
  "let col = col_val (map to_ascii_upper (filter is_ascii_alphabetic cell));
       row = (case parse_usize (filter is_ascii_digit cell) of Some n \<Rightarrow> n | None \<Rightarrow> 1)
   in (if row \<noteq> 0 \<and> filter is_ascii_alphabetic cell \<noteq> [] \<and> col < 2 ^ 64
       then list_all (\<lambda>checks. parse_cell_id checks cell = Inr (word_of_nat (row - 1), word_of_nat (col - 1))) [True, False]
       else (\<exists>msg. parse_cell_id True cell = Inl (Panic msg)) \<and> (\<exists>r c. parse_cell_id False cell = Inr (r, c)))"
proof -
  define l where "l = map to_ascii_upper (filter is_ascii_alphabetic cell)"
  define n where "n = (case parse_usize (filter is_ascii_digit cell) of Some n \<Rightarrow> n | None \<Rightarrow> 1)"
  have upper: "list_all is_ascii_upper l" unfolding l_def by (rule upper_label)
  have n: "n < 2 ^ 64" by (auto simp: n_def split: option.split dest: parse_usize_bound)
  have "(case parse_usize (filter is_ascii_digit cell) of Some n \<Rightarrow> word_of_nat n | None \<Rightarrow> 1) = (word_of_nat n :: usize)"
    by (simp add: n_def split: option.split)
  then have p: "parse_cell_id checks cell = bind_out (col_index_loop checks 0 l) (\<lambda>c.
      bind_out (word_sub checks (word_of_nat n) 1) (\<lambda>r. bind_out (word_sub checks c 1) (\<lambda>c. Inr (r, c))))" for checks
    by (simp add: parse_cell_id_def l_def)
  have fits: "col_index_loop checks 0 l = Inr (word_of_nat (col_val l))" if "col_val l < 2 ^ 64" for checks
    using col_index_loop_val [OF upper, of 0 checks] that by (simp add: col_val_def)
  have large: "\<exists>msg. col_index_loop True 0 l = Inl (Panic msg)" if "\<not> col_val l < 2 ^ 64"
    using col_index_loop_panics [OF upper, of 0] that by (simp add: col_val_def)
  have label: "col_val l = 0 \<longleftrightarrow> filter is_ascii_alphabetic cell = []" using col_val_bounds [OF upper] by (simp add: l_def)
  have "list_all (\<lambda>checks. parse_cell_id checks cell = Inr (word_of_nat (n - 1), word_of_nat (col_val l - 1))) [True, False]"
    if "n \<noteq> 0" "col_val l \<noteq> 0" "col_val l < 2 ^ 64"
    using that by (simp add: p fits word_sub_one_nat [OF n] word_sub_one_nat [OF that(3)] del: of_nat_diff)
  moreover have "\<exists>msg. parse_cell_id True cell = Inl (Panic msg)" if "\<not> (n \<noteq> 0 \<and> col_val l \<noteq> 0 \<and> col_val l < 2 ^ 64)"
  proof (cases "col_val l < 2 ^ 64")
    case True
    with that show ?thesis by (auto simp: p fits word_sub_one_nat [OF n] word_sub_one_nat [OF True])
  next
    case False
    with large show ?thesis by (auto simp: p)
  qed
  moreover note parse_cell_unchecked [of cell]
  ultimately show ?thesis unfolding Let_def n_def [symmetric] l_def [symmetric] label [symmetric] by simp
qed

text \<open>The browser address of a sheet becomes its CSV export address with the
  same sheet and page numbers, and an export address stays as it is; but with the fragment browsers append
  (\<open>#gid=..\<close>) the page number keeps a trailing number sign, where the comment on the function promises
  \<open>gid="0"\<close>.\<close>

theorem sheet_url_conversion:
  assumes "CHR ''/'' \<notin> set sid" and "CHR ''='' \<notin> set sid" and "CHR ''='' \<notin> set gid" and "CHR ''&'' \<notin> set gid"
  shows "convert_to_csv_export_url (''https://docs.google.com/spreadsheets/d/'' @ sid @ ''/edit?gid='' @ gid) =
      ''https://docs.google.com/spreadsheets/d/'' @ sid @ ''/export?format=csv&gid='' @ gid \<and>
    convert_to_csv_export_url (''https://docs.google.com/spreadsheets/d/'' @ sid @ ''/edit?gid='' @ gid @ ''#gid='' @ gid) =
      ''https://docs.google.com/spreadsheets/d/'' @ sid @ ''/export?format=csv&gid='' @ gid @ ''#''"
proof -
  let ?s = "''https://docs.google.com/spreadsheets/d/'' @ sid @ ''/edit?''"
  have "CHR ''='' \<notin> set ?s" using assms(2) by simp
  note g = url_gid_url [OF this assms(3,4)]
  have i: "spreadsheet_id (?s @ r) = Some sid" for r
    using spreadsheet_id_url [OF assms(1), of "''edit?'' @ r"] by simp
  show ?thesis using g(1) g(2) [of gid] i [of "''gid='' @ gid"] i [of "''gid='' @ gid @ ''#gid='' @ gid"]
    by (simp add: convert_to_csv_export_url_def)
qed

theorem sheet_url_conversion_witness:
  "convert_to_csv_export_url (''https://docs.google.com/spreadsheets/d/1NP8Tg08/edit?gid=0#gid=0'') =
     ''https://docs.google.com/spreadsheets/d/1NP8Tg08/export?format=csv&gid=0#''"
  using sheet_url_conversion [of "''1NP8Tg08''" "''0''"] by simp
end
