(* ===== verification/RqEmail.thy ===== *)
theory RqEmail
  imports RqConfig
begin

text \<open>
  \<open>rqcommon/src/utils/rqemail.rs\<close>. What the crate \<open>lettre\<close> does is the record \<open>mail_lib\<close>: parsing
  addresses, building a message, opening the relay and sending.
\<close>

record rq_email =
  sender_email :: string
  sender_password :: string

definition rqemail_init :: "string \<Rightarrow> string \<Rightarrow> rq_email option \<Rightarrow> rq_email option" where
  "rqemail_init email pwd lock = once_set lock \<lparr>sender_email = email, sender_password = pwd\<rparr>"

record ('b, 'm, 't) mail_lib =
  parse_mailbox :: "string \<Rightarrow> 'b option"
  build_message :: "'b \<Rightarrow> 'b \<Rightarrow> string \<Rightarrow> bool \<Rightarrow> string \<Rightarrow> 'm option"
  open_relay :: "string \<Rightarrow> 't option"
  send_message :: "'t \<Rightarrow> string \<times> string \<Rightarrow> 'm \<Rightarrow> bool"

datatype mail_error = NotInitialized | InvalidSender | InvalidRecipient | BuildFailed | RelayFailed | SendFailed

text \<open>The result, and the messages handed to the transport with the credentials.\<close>

definition email_send :: "('b, 'm, 't) mail_lib \<Rightarrow> rq_email option \<Rightarrow> string \<Rightarrow> string \<Rightarrow> string \<Rightarrow> bool
    \<Rightarrow> (mail_error + unit) \<times> ((string \<times> string) \<times> 'm) list" where
  "email_send M lock to_address subject body is_body_html =
     (case lock of
        None \<Rightarrow> (Inl NotInitialized, [])
      | Some g_rqemail \<Rightarrow>
        (case parse_mailbox M (sender_email g_rqemail) of
           None \<Rightarrow> (Inl InvalidSender, [])
         | Some from_mailbox \<Rightarrow>
           (case parse_mailbox M to_address of
              None \<Rightarrow> (Inl InvalidRecipient, [])
            | Some to_mailbox \<Rightarrow>
              (case build_message M from_mailbox to_mailbox subject is_body_html body of
                 None \<Rightarrow> (Inl BuildFailed, [])
               | Some message \<Rightarrow>
                 (let creds = (sender_email g_rqemail, sender_password g_rqemail)
                  in case open_relay M ''smtp.gmail.com'' of
                       None \<Rightarrow> (Inl RelayFailed, [])
                     | Some mailer \<Rightarrow>
                         (if \<not> send_message M mailer creds message then (Inl SendFailed, [(creds, message)])
                          else (Inr (), [(creds, message)])))))))"

definition email_send_text where
  "email_send_text M lock to_address subject body = email_send M lock to_address subject body False"

definition email_send_html where
  "email_send_html M lock to_address subject body = email_send M lock to_address subject body True"

text \<open>A mail goes to the transport, at most once and with the credentials of the first
  \<open>init\<close>, exactly when both addresses parse, the message can be built and the relay opens; the result is
  an error unless it was delivered, and a later \<open>init\<close> changes nothing.\<close>

theorem mail_sent_iff:
  fixes M e1 p1 e2 p2 and html :: bool
  defines "lock \<equiv> rqemail_init e2 p2 (rqemail_init e1 p1 None)"
  shows "case email_send M lock to_address subject body html of (r, sent) \<Rightarrow>
    (\<forall>creds m. (creds, m) \<in> set sent \<longleftrightarrow> creds = (e1, p1) \<and> (\<exists>f t mailer. parse_mailbox M e1 = Some f \<and> parse_mailbox M to_address = Some t \<and>
       build_message M f t subject html body = Some m \<and> open_relay M ''smtp.gmail.com'' = Some mailer)) \<and>
    length sent \<le> 1 \<and>
    (r = Inr () \<longleftrightarrow> (\<exists>m mailer. sent = [((e1, p1), m)] \<and> open_relay M ''smtp.gmail.com'' = Some mailer \<and> send_message M mailer (e1, p1) m)) \<and>
    (r = Inl SendFailed \<longleftrightarrow> sent \<noteq> [] \<and> r \<noteq> Inr ())"
  by (auto simp: email_send_def lock_def rqemail_init_def Let_def split: option.split)
end
