(* ===== verification/UserAccount.thy ===== *)
theory UserAccount
  imports RqConfig
begin

text \<open>
  \<open>rqcoresrv/src/middleware/user_account.rs\<close>: login with a Google account, its callback, logout
  and the pages that depend on the user. A browser's session is its cookie (\<open>web_session\<close>: the values
  and the identity that \<open>actix_session\<close> and \<open>actix_identity\<close> keep in it); a handler takes the
  request and the session and gives the response and the session. Google's two endpoints, the static pages and
  the crate \<open>percent_encoding\<close> are parameters.
\<close>

section \<open>Percent encoding\<close>

text \<open>
  What the program uses of \<open>percent_encoding\<close>: \<open>percent_encode(_, NON_ALPHANUMERIC)\<close> and the bytes
  of \<open>percent_decode_str(_)\<close>, with the documented laws.
\<close>

record percent_lib =
  percent_encode :: "string \<Rightarrow> string"
  percent_decode :: "string \<Rightarrow> string"

locale percent_laws =
  fixes L :: percent_lib
  assumes decode_encode: "percent_decode L (percent_encode L s) = s"
    and encode_plain: "list_all (\<lambda>c. is_ascii_alphabetic c \<or> is_ascii_digit c \<or> c = CHR ''%'') (percent_encode L s)"
    and decode_plain: "CHR ''%'' \<notin> set s \<Longrightarrow> percent_decode L s = s"

text \<open>The encoding of RFC 3986, on which the laws are interpreted.\<close>

definition hex_digit :: "nat \<Rightarrow> char" where
  "hex_digit n = (if n < 10 then char_of (48 + n) else char_of (55 + n))"

definition hex_value :: "char \<Rightarrow> nat option" where
  "hex_value c =
     (let b = byte c
      in if 48 \<le> b \<and> b \<le> 57 then Some (b - 48) else if 65 \<le> b \<and> b \<le> 70 then Some (b - 55)
         else if 97 \<le> b \<and> b \<le> 102 then Some (b - 87) else None)"

definition rfc_encode :: "string \<Rightarrow> string" where
  "rfc_encode s = concat (map (\<lambda>c. if is_ascii_alphabetic c \<or> is_ascii_digit c then [c]
     else [CHR ''%'', hex_digit (byte c div 16), hex_digit (byte c mod 16)]) s)"

fun rfc_decode :: "string \<Rightarrow> string" where
  "rfc_decode (p # h # l # s) =
     (if p = CHR ''%'' then
        (case (hex_value h, hex_value l) of
           (Some x, Some y) \<Rightarrow> char_of (16 * x + y) # rfc_decode s
         | _ \<Rightarrow> p # rfc_decode (h # l # s))
      else p # rfc_decode (h # l # s))"
| "rfc_decode s = s"

definition rfc3986 :: percent_lib where
  "rfc3986 = \<lparr>percent_encode = rfc_encode, percent_decode = rfc_decode\<rparr>"

lemma nibbles: "byte c div 16 < 16" "byte c mod 16 < 16"
proof -
  have "byte c < 256" by (simp add: of_char_def)
  then show "byte c div 16 < 16" by (simp add: less_mult_imp_div_less)
qed simp

lemma hex_value_digit: "n < 16 \<Longrightarrow> hex_value (hex_digit n) = Some n"
  by (auto simp: hex_value_def hex_digit_def Let_def)

lemma rfc_decode_Cons: "p \<noteq> CHR ''%'' \<Longrightarrow> rfc_decode (p # s) = p # rfc_decode s"
  by (cases s; cases "tl s") auto

lemma rfc_round_trip: "rfc_decode (rfc_encode s) = s"
proof (induction s)
  case Nil
  then show ?case by (simp add: rfc_encode_def)
next
  case (Cons c s)
  show ?case
  proof (cases "is_ascii_alphabetic c \<or> is_ascii_digit c")
    case True
    then have "c \<noteq> CHR ''%''"
      by (auto simp: is_ascii_alphabetic_def is_ascii_upper_def is_ascii_lower_def is_ascii_digit_def)
    with Cons True show ?thesis by (simp add: rfc_encode_def rfc_decode_Cons)
  next
    case False
    with Cons hex_value_digit [OF nibbles(1) [of c]] hex_value_digit [OF nibbles(2) [of c]] show ?thesis by (simp add: rfc_encode_def)
  qed
qed

lemma hex_digit_plain: "n < 16 \<Longrightarrow> is_ascii_alphabetic (hex_digit n) \<or> is_ascii_digit (hex_digit n)"
  by (auto simp: hex_digit_def is_ascii_alphabetic_def is_ascii_upper_def is_ascii_digit_def)

lemma rfc_decode_plain: "CHR ''%'' \<notin> set s \<Longrightarrow> rfc_decode s = s"
  by (induction s) (auto simp: rfc_decode_Cons)

interpretation rfc: percent_laws rfc3986
proof
  show "list_all (\<lambda>c. is_ascii_alphabetic c \<or> is_ascii_digit c \<or> c = CHR ''%'') (percent_encode rfc3986 s)" for s
    using hex_digit_plain [OF nibbles(1)] hex_digit_plain [OF nibbles(2)] by (auto simp: rfc3986_def rfc_encode_def list_all_iff split: if_splits)
qed (simp_all add: rfc3986_def rfc_round_trip rfc_decode_plain)

text \<open>\<open>decode_utf8\<close> succeeds on well-formed UTF-8 only.\<close>

definition in_bytes :: "nat \<Rightarrow> nat \<Rightarrow> char \<Rightarrow> bool" where
  "in_bytes lo hi c \<longleftrightarrow> lo \<le> byte c \<and> byte c \<le> hi"

fun utf8_valid :: "string \<Rightarrow> bool" where
  "utf8_valid [] \<longleftrightarrow> True"
| "utf8_valid (a # s) \<longleftrightarrow>
     (if byte a < 128 then utf8_valid s
      else case s of [] \<Rightarrow> False
        | b # s \<Rightarrow>
          if in_bytes 194 223 a then is_utf8_cont b \<and> utf8_valid s
          else case s of [] \<Rightarrow> False
            | c # s \<Rightarrow>
              if in_bytes 224 239 a then
                (if byte a = 224 then in_bytes 160 191 b else if byte a = 237 then in_bytes 128 159 b else is_utf8_cont b) \<and>
                is_utf8_cont c \<and> utf8_valid s
              else case s of [] \<Rightarrow> False
                | d # s \<Rightarrow>
                  in_bytes 240 244 a \<and>
                  (if byte a = 240 then in_bytes 144 191 b else if byte a = 244 then in_bytes 128 143 b else is_utf8_cont b) \<and>
                  is_utf8_cont c \<and> is_utf8_cont d \<and> utf8_valid s)"

section \<open>Requests, sessions and responses\<close>

text \<open>\<open>hr_scheme\<close> and \<open>hr_host\<close> are the request's \<open>connection_info()\<close>, \<open>hr_query\<close> its decoded query.\<close>

record http_request =
  hr_scheme :: string
  hr_host :: string
  hr_query :: "string \<rightharpoonup> string"

record http_response =
  status :: nat
  headers :: "(string \<times> string) list"
  body :: string

datatype session_value = SessionString string | SessionOther

datatype identity = Identity (identity_id: "string option")

record web_session =
  ws_values :: "string \<rightharpoonup> session_value"
  ws_identity :: "identity option"

definition new_session :: web_session where
  "new_session = \<lparr>ws_values = Map.empty, ws_identity = None\<rparr>"

text \<open>\<open>session.get::<String>(key)\<close>: a value that is no string is an error.\<close>

definition session_get :: "web_session \<Rightarrow> string \<Rightarrow> unit + string option" where
  "session_get s key =
     (case ws_values s key of None \<Rightarrow> Inr None | Some (SessionString v) \<Rightarrow> Inr (Some v) | Some SessionOther \<Rightarrow> Inl ())"

definition session_insert :: "bool \<Rightarrow> string \<Rightarrow> string \<Rightarrow> web_session \<Rightarrow> web_session" where
  "session_insert ok key v s = (if ok then s\<lparr>ws_values := (ws_values s)(key \<mapsto> SessionString v)\<rparr> else s)"

definition identity_logout :: "web_session \<Rightarrow> web_session" where
  "identity_logout s = s\<lparr>ws_identity := None\<rparr>"

text \<open>The identity lives in the session, so clearing the session removes it too.\<close>

definition session_clear :: "web_session \<Rightarrow> web_session" where
  "session_clear s = s\<lparr>ws_values := Map.empty, ws_identity := None\<rparr>"

definition response :: "nat \<Rightarrow> string \<Rightarrow> http_response" where
  "response st b = \<lparr>status = st, headers = [], body = b\<rparr>"

definition found :: "(string \<times> string) list \<Rightarrow> http_response" where
  "found hs = \<lparr>status = 302, headers = hs, body = []\<rparr>"

definition html_page :: "string \<Rightarrow> http_response" where
  "html_page b = \<lparr>status = 200, headers = [(''content-type'', ''text/html; charset=utf-8'')], body = b\<rparr>"

section \<open>The handlers\<close>

definition get_google_redirect_uri :: "http_request \<Rightarrow> string" where
  "get_google_redirect_uri req = hr_scheme req @ ''://'' @ hr_host req @ ''/useraccount/login/callback''"

definition get_google_oauth_config :: "rq_core_config \<Rightarrow> http_request \<Rightarrow> http_response + (string \<times> string)" where
  "get_google_oauth_config cfg req =
     (let (id_key, secret_key) =
        (if str_contains ''thetaconite.com'' (hr_host req)
         then (''taconite_google_client_id'', ''taconite_google_client_secret'')
         else (''rqcore_google_client_id'', ''rqcore_google_client_secret''))
      in case cfg id_key of
           None \<Rightarrow> Inl (response 500 ''OAuth config error'')
         | Some client_id \<Rightarrow>
             (case cfg secret_key of
                None \<Rightarrow> Inl (response 500 ''OAuth config error'')
              | Some client_secret \<Rightarrow> Inr (client_id, client_secret)))"

definition return_url_of :: "http_request \<Rightarrow> string" where
  "return_url_of req = (case hr_query req ''returnUrl'' of Some u \<Rightarrow> u | None \<Rightarrow> ''/'')"

definition google_auth_url :: "percent_lib \<Rightarrow> string \<Rightarrow> string \<Rightarrow> string \<Rightarrow> string" where
  "google_auth_url L client_id redirect_uri return_url =
     ''https://accounts.google.com/o/oauth2/v2/auth?client_id='' @ client_id @ ''&redirect_uri='' @ redirect_uri @
     ''&response_type=code&scope='' @
     percent_encode L ''https://www.googleapis.com/auth/userinfo.email https://www.googleapis.com/auth/userinfo.profile'' @
     ''&access_type=offline&prompt=consent&state='' @ percent_encode L return_url"

definition login :: "percent_lib \<Rightarrow> rq_core_config \<Rightarrow> http_request \<Rightarrow> web_session \<Rightarrow> http_response" where
  "login L cfg req s =
     (if ws_identity s \<noteq> None then found [(''Location'', return_url_of req)]
      else case get_google_oauth_config cfg req of
          Inl resp \<Rightarrow> resp
        | Inr (client_id, _) \<Rightarrow> found [(''clear-site-data'', ''\"cache\"''),
            (''Location'', google_auth_url L client_id (get_google_redirect_uri req) (return_url_of req))])"

text \<open>
  The world of a callback: \<open>google_token\<close> and \<open>google_userinfo\<close> are the two HTTP calls (not sent, an
  answer that does not parse, or an answer), the flags tell whether the session and the identity could be
  written.
\<close>

datatype 'a http_call = NotSent | Unparsed | Answer 'a

record google_world =
  google_token :: "(string \<times> string) list \<Rightarrow> string http_call"
  google_userinfo :: "string \<Rightarrow> (string \<times> string) http_call"
  insert_ok :: "string \<Rightarrow> bool"
  identity_ok :: bool

definition callback_redirect :: "percent_lib \<Rightarrow> http_request \<Rightarrow> string" where
  "callback_redirect L req =
     (case hr_query req ''state'' of
        Some encoded \<Rightarrow> if utf8_valid (percent_decode L encoded) then percent_decode L encoded else ''/''
      | None \<Rightarrow> ''/'')"

definition finish_login :: "percent_lib \<Rightarrow> google_world \<Rightarrow> http_request \<Rightarrow> string \<times> string \<Rightarrow> web_session
    \<Rightarrow> http_response \<times> web_session" where
  "finish_login L g req user s =
     (case user of (email, name) \<Rightarrow>
       (let s = session_insert (insert_ok g ''user_email'') ''user_email'' email s;
            s = session_insert (insert_ok g ''user_name'') ''user_name'' name s
        in if \<not> identity_ok g then (response 500 ''Login failed'', s)
           else (found [(''location'', callback_redirect L req)], s\<lparr>ws_identity := Some (Identity (Some email))\<rparr>)))"

definition google_callback :: "percent_lib \<Rightarrow> rq_core_config \<Rightarrow> google_world \<Rightarrow> http_request \<Rightarrow> web_session
    \<Rightarrow> http_response \<times> web_session" where
  "google_callback L cfg g req s =
     (case hr_query req ''code'' of
        None \<Rightarrow> (\<lparr>status = 400, headers = [(''content-type'', ''text/plain'')], body = ''Missing authorization code''\<rparr>, s)
      | Some code \<Rightarrow>
        (case get_google_oauth_config cfg req of
           Inl resp \<Rightarrow> (resp, s)
         | Inr (client_id, client_secret) \<Rightarrow>
           (case google_token g [(''code'', code), (''client_id'', client_id), (''client_secret'', client_secret),
                (''redirect_uri'', get_google_redirect_uri req), (''grant_type'', ''authorization_code'')] of
              NotSent \<Rightarrow> (response 500 ''Token exchange failed'', s)
            | Unparsed \<Rightarrow> (response 500 ''Token parsing failed'', s)
            | Answer token \<Rightarrow>
              (case google_userinfo g token of
                 NotSent \<Rightarrow> (response 500 ''Failed to fetch user info'', s)
               | Unparsed \<Rightarrow> (response 500 ''Failed to parse user info'', s)
               | Answer user \<Rightarrow> finish_login L g req user s))))"

definition logout :: "web_session \<Rightarrow> http_response \<times> web_session" where
  "logout s =
     (let s = (if ws_identity s \<noteq> None then identity_logout s else s)
      in (found [(''clear-site-data'', ''\"cache\", \"cookies\", \"storage\"''), (''location'', ''/'')], session_clear s))"

definition user_infor :: "web_session \<Rightarrow> http_response" where
  "user_infor s =
     (case session_get s ''user_email'' of
        Inr (Some email) \<Rightarrow>
          (case session_get s ''user_name'' of
             Inl _ \<Rightarrow> response 500 ''Session error''
           | Inr name \<Rightarrow> html_page (''<h2>Hello, '' @ (case name of Some n \<Rightarrow> n | None \<Rightarrow> ''User'') @ ''!</h2><p>Email: '' @ email @
               ''</p><a href=\"/useraccount/logout\">Logout</a>''))
      | Inr None \<Rightarrow> response 401 ''Not logged in''
      | Inl _ \<Rightarrow> response 500 ''Session error'')"

definition authorized_sample :: "string set \<Rightarrow> web_session \<Rightarrow> http_response" where
  "authorized_sample auth_users s =
     (case session_get s ''user_email'' of
        Inr (Some email) \<Rightarrow>
          if email \<in> auth_users then response 200 (''Welcome, authorized user: '' @ email)
          else response 403 (''Access denied: '' @ email)
      | _ \<Rightarrow> response 401 ''Login required'')"

record static_pages =
  rqcore_index :: string
  rqcore_nouser :: string
  taconite_index :: string
  taconite_nouser :: string

definition unauthorized_index :: string where
  "unauthorized_index = ''You are logged in as {email}, but your user is not <b>authorized</b>.<p>Please logout and login with another user. <a href=\"/useraccount/logout\">Logout</a></p>''"

definition root_index :: "static_pages \<Rightarrow> string set \<Rightarrow> http_request \<Rightarrow> web_session \<Rightarrow> http_response" where
  "root_index pages auth_users req s =
     (let is_logged_in = (case ws_identity s of Some i \<Rightarrow> identity_id i \<noteq> None | None \<Rightarrow> False);
          (index, index_nouser) = (if str_contains ''thetaconite.com'' (hr_host req)
            then (taconite_index pages, taconite_nouser pages) else (rqcore_index pages, rqcore_nouser pages))
      in if \<not> is_logged_in then html_page index_nouser
         else case session_get s ''user_email'' of
             Inr None \<Rightarrow> response 401 ''Login required''
           | Inl _ \<Rightarrow> response 500 ''Session error''
           | Inr (Some email) \<Rightarrow>
               html_page (if email \<in> auth_users then str_replace ''{{USER_EMAIL}}'' email index
                          else str_replace ''{email}'' email unauthorized_index))"

section \<open>A browser's session over time\<close>

datatype web_event =
    Login http_request
  | Callback google_world http_request
  | Logout
  | UserInfo
  | AuthorizedSample
  | RootIndex http_request

fun web_step :: "percent_lib \<Rightarrow> rq_core_config \<Rightarrow> static_pages \<Rightarrow> string set \<Rightarrow> web_event \<Rightarrow> web_session
    \<Rightarrow> http_response \<times> web_session" where
  "web_step L cfg pages auth (Login req) s = (login L cfg req s, s)"
| "web_step L cfg pages auth (Callback g req) s = google_callback L cfg g req s"
| "web_step L cfg pages auth Logout s = logout s"
| "web_step L cfg pages auth UserInfo s = (user_infor s, s)"
| "web_step L cfg pages auth AuthorizedSample s = (authorized_sample auth s, s)"
| "web_step L cfg pages auth (RootIndex req) s = (root_index pages auth req s, s)"

fun web_run :: "percent_lib \<Rightarrow> rq_core_config \<Rightarrow> static_pages \<Rightarrow> string set \<Rightarrow> web_event list \<Rightarrow> web_session \<Rightarrow> web_session" where
  "web_run L cfg pages auth [] s = s"
| "web_run L cfg pages auth (ev # evs) s = web_run L cfg pages auth evs (snd (web_step L cfg pages auth ev s))"

section \<open>Whom a session speaks for\<close>

text \<open>
  An address is confirmed when Google's user endpoint answered with it in a callback after which there was no
  logout.
\<close>

definition answered :: "google_world \<Rightarrow> string \<Rightarrow> bool" where
  "answered g e \<longleftrightarrow> (\<exists>token name. google_userinfo g token = Answer (e, name))"

definition confirmed :: "web_event list \<Rightarrow> string \<Rightarrow> bool" where
  "confirmed evs e \<longleftrightarrow>
     (\<exists>before g req after. evs = before @ Callback g req # after \<and> Logout \<notin> set after \<and> answered g e)"

definition session_ok :: "web_event list \<Rightarrow> web_session \<Rightarrow> bool" where
  "session_ok evs s \<longleftrightarrow>
     (\<forall>e. ws_values s ''user_email'' = Some (SessionString e) \<longrightarrow> confirmed evs e) \<and>
     (\<forall>e. ws_identity s = Some (Identity (Some e)) \<longrightarrow> confirmed evs e) \<and>
     SessionOther \<notin> ran (ws_values s) \<and> ws_identity s \<noteq> Some (Identity None)"

lemma confirmed_snoc: "confirmed evs e \<Longrightarrow> ev \<noteq> Logout \<Longrightarrow> confirmed (evs @ [ev]) e"
  unfolding confirmed_def by (metis append.assoc append_Cons in_set_conv_decomp rotate1.simps(2) set_ConsD set_rotate1)

lemma confirmed_callback: "answered g e \<Longrightarrow> confirmed (evs @ [Callback g req]) e"
  unfolding confirmed_def by (metis empty_iff empty_set)

lemma session_ok_mono: "session_ok evs s \<Longrightarrow> ev \<noteq> Logout \<Longrightarrow> session_ok (evs @ [ev]) s"
  unfolding session_ok_def by (metis confirmed_snoc)

lemma session_insert_ok:
  assumes "session_ok evs s" and "key = ''user_email'' \<longrightarrow> confirmed evs v"
  shows "session_ok evs (session_insert ok key v s)"
  using assms by (auto simp: session_ok_def session_insert_def ran_def)

lemma finish_login_ok:
  assumes "session_ok evs s" and "confirmed evs (fst user)"
  shows "session_ok evs (snd (finish_login L g req user s))"
proof -
  obtain e n where u: "user = (e, n)" by (cases user)
  let ?s = "session_insert (insert_ok g ''user_name'') ''user_name'' n
    (session_insert (insert_ok g ''user_email'') ''user_email'' e s)"
  have "session_ok evs ?s" using assms by (intro session_insert_ok) (simp_all add: u)
  then show ?thesis using assms(2) by (auto simp: u finish_login_def session_ok_def Let_def)
qed

lemma google_callback_cases:
  obtains "snd (google_callback L cfg g req s) = s"
  | user token where "google_userinfo g token = Answer user" "google_callback L cfg g req s = finish_login L g req user s"
proof -
  have "snd (google_callback L cfg g req s) = s \<or>
    (\<exists>user token. google_userinfo g token = Answer user \<and> google_callback L cfg g req s = finish_login L g req user s)"
    unfolding google_callback_def by (auto split: option.split sum.split http_call.split)
  then show thesis using that by blast
qed

lemma web_step_ok:
  assumes "session_ok evs s"
  shows "session_ok (evs @ [ev]) (snd (web_step L cfg pages auth ev s))"
proof (cases ev)
  case (Callback g req)
  have s: "session_ok (evs @ [ev]) s" using assms Callback by (intro session_ok_mono) auto
  show ?thesis
  proof (cases rule: google_callback_cases [of L cfg g req s])
    case 1
    with s Callback show ?thesis by simp
  next
    case (2 user token)
    then have "confirmed (evs @ [ev]) (fst user)"
      unfolding Callback by (intro confirmed_callback) (metis answered_def prod.collapse)
    with s 2(2) show ?thesis by (simp add: Callback finish_login_ok)
  qed
next
  case Logout
  then show ?thesis by (simp add: session_ok_def logout_def session_clear_def Let_def)
qed (use assms in \<open>auto intro: session_ok_mono\<close>)

lemma web_run_snoc:
  "web_run L cfg pages auth (evs @ [ev]) s = snd (web_step L cfg pages auth ev (web_run L cfg pages auth evs s))"
  by (induction evs arbitrary: s) auto

lemma web_run_ok: "session_ok evs (web_run L cfg pages auth evs new_session)"
proof (induction evs rule: rev_induct)
  case Nil
  then show ?case by (simp add: session_ok_def new_session_def)
next
  case (snoc ev evs)
  then show ?case unfolding web_run_snoc by (rule web_step_ok)
qed

section \<open>Properties\<close>

text \<open>C22: Whatever a browser asks for, from a new session on: the sample page for
  authorized users and the real start page are only given for an authorized address that Google confirmed in
  a callback since the last logout; an identified browser with another address gets the refusal with that
  address, and the start page never fails with a server error.\<close>

theorem authorized_access:
  fixes L cfg pages auth evs
  defines "s \<equiv> web_run L cfg pages auth evs new_session"
  shows "(status (authorized_sample auth s) \<in> {401, 403} \<or>
      (\<exists>e \<in> auth. confirmed evs e \<and> authorized_sample auth s = response 200 (''Welcome, authorized user: '' @ e))) \<and>
    (root_index pages auth req s \<in> {html_page (rqcore_nouser pages), html_page (taconite_nouser pages), response 401 ''Login required''} \<or>
      (\<exists>e. confirmed evs e \<and> root_index pages auth req s = html_page
        (if e \<in> auth then str_replace ''{{USER_EMAIL}}'' e
           (if str_contains ''thetaconite.com'' (hr_host req) then taconite_index pages else rqcore_index pages)
         else str_replace ''{email}'' e unauthorized_index)))"
proof -
  have ok: "session_ok evs s" unfolding s_def by (rule web_run_ok)
  consider (none) "session_get s ''user_email'' = Inr None"
    | (email) e where "session_get s ''user_email'' = Inr (Some e)" "confirmed evs e"
  proof (cases "ws_values s ''user_email''")
    case None
    then show thesis by (intro none) (simp add: session_get_def)
  next
    case (Some v)
    then show thesis using ok email by (cases v) (auto simp: session_get_def session_ok_def ran_def)
  qed
  then show ?thesis
  proof cases
    case none
    then show ?thesis by (auto simp: authorized_sample_def root_index_def response_def Let_def split: option.split)
  next
    case email
    then have "status (authorized_sample auth s) \<in> {401, 403} \<or>
      (\<exists>e \<in> auth. confirmed evs e \<and> authorized_sample auth s = response 200 (''Welcome, authorized user: '' @ e))"
      by (auto simp: authorized_sample_def response_def)
    with email show ?thesis by (auto simp: root_index_def Let_def split: option.split)
  qed
qed

text \<open>After a logout nothing of the user is left, however the session looked: the sample
  page and the user page ask for a login, the start page is the one for strangers, and the next login goes
  to Google or fails on the configuration, never straight to the return address.\<close>

theorem logout_forgets:
  fixes s :: web_session
  defines "t \<equiv> snd (logout s)"
  shows "authorized_sample auth t = response 401 ''Login required'' \<and> user_infor t = response 401 ''Not logged in'' \<and>
    root_index pages auth req t = html_page (if str_contains ''thetaconite.com'' (hr_host req)
      then taconite_nouser pages else rqcore_nouser pages) \<and>
    (case get_google_oauth_config cfg req of
       Inl resp \<Rightarrow> login L cfg req t = resp \<and> status resp = 500
     | Inr (client_id, _) \<Rightarrow> map_of (headers (login L cfg req t)) ''Location'' =
         Some (google_auth_url L client_id (get_google_redirect_uri req) (return_url_of req)))"
proof -
  have t: "ws_values t = Map.empty" "ws_identity t = None"
    by (simp_all add: t_def logout_def session_clear_def Let_def)
  have "authorized_sample auth t = response 401 ''Login required''" "user_infor t = response 401 ''Not logged in''"
    by (simp_all add: authorized_sample_def user_infor_def session_get_def t)
  moreover have "root_index pages auth req t = html_page (if str_contains ''thetaconite.com'' (hr_host req)
      then taconite_nouser pages else rqcore_nouser pages)"
    by (simp add: root_index_def t Let_def)
  moreover have "status resp = 500" if "get_google_oauth_config cfg req = Inl resp" for resp
    using that by (auto simp: get_google_oauth_config_def response_def Let_def split: if_splits option.splits)
  ultimately show ?thesis by (simp add: login_def t found_def split: sum.split prod.split)
qed

text \<open>C31: The state that login sends to Google decodes to the return address and has only
  letters, digits and percent signs; when Google hands the decoded state back, the callback redirects to the
  return address, if that is well-formed UTF-8 without a percent sign.\<close>

theorem login_state:
  assumes "percent_laws L" and "ws_identity s = None" and "get_google_oauth_config cfg req = Inr (client_id, secret)"
    and "hr_query back ''state'' = Some (return_url_of req)" and "CHR ''%'' \<notin> set (return_url_of req)"
    and "utf8_valid (return_url_of req)"
  shows "\<exists>url state. map_of (headers (login L cfg req s)) ''Location'' = Some (url @ ''&state='' @ state) \<and>
    percent_decode L state = return_url_of req \<and>
    list_all (\<lambda>c. is_ascii_alphabetic c \<or> is_ascii_digit c \<or> c = CHR ''%'') state \<and>
    callback_redirect L back = return_url_of req"
proof -
  note laws = percent_laws.decode_encode [OF assms(1)] percent_laws.encode_plain [OF assms(1)]
  let ?url = "''https://accounts.google.com/o/oauth2/v2/auth?client_id='' @ client_id @ ''&redirect_uri='' @
     get_google_redirect_uri req @ ''&response_type=code&scope='' @
     percent_encode L ''https://www.googleapis.com/auth/userinfo.email https://www.googleapis.com/auth/userinfo.profile'' @
     ''&access_type=offline&prompt=consent''"
  have "map_of (headers (login L cfg req s)) ''Location'' = Some (?url @ ''&state='' @ percent_encode L (return_url_of req))"
    by (simp add: login_def assms(2,3) found_def google_auth_url_def)
  moreover have "callback_redirect L back = return_url_of req"
    using assms(4,6) percent_laws.decode_plain [OF assms(1,5)] by (simp add: callback_redirect_def)
  ultimately show ?thesis using laws by blast
qed

definition demo_request :: "(string \<rightharpoonup> string) \<Rightarrow> http_request" where
  "demo_request q = \<lparr>hr_scheme = ''https'', hr_host = ''rqcore.com'', hr_query = q\<rparr>"

definition demo_google_config :: rq_core_config where
  "demo_google_config = [''rqcore_google_client_id'' \<mapsto> ''id'', ''rqcore_google_client_secret'' \<mapsto> ''secret'']"

theorem login_state_witness:
  "callback_redirect rfc3986 (demo_request [''state'' \<mapsto> ''/robotrader?x=1'']) = ''/robotrader?x=1''"
proof -
  have c: "get_google_oauth_config demo_google_config (demo_request [''returnUrl'' \<mapsto> ''/robotrader?x=1'']) = Inr (''id'', ''secret'')"
    by (simp add: get_google_oauth_config_def demo_google_config_def demo_request_def str_contains_def sublist_Cons_right)
  have u: "return_url_of (demo_request [''returnUrl'' \<mapsto> ''/robotrader?x=1'']) = ''/robotrader?x=1''"
    by (simp add: return_url_of_def demo_request_def)
  have q: "hr_query (demo_request [''state'' \<mapsto> ''/robotrader?x=1'']) ''state'' =
      Some (return_url_of (demo_request [''returnUrl'' \<mapsto> ''/robotrader?x=1'']))"
    unfolding u by (simp add: demo_request_def)
  have "ws_identity new_session = None" by (simp add: new_session_def)
  from login_state [OF rfc.percent_laws_axioms this c q, unfolded u] show ?thesis by auto
qed

text \<open>The callback decodes the state once more than login encoded it: the query
  parameter is already decoded, so a return address with an escape of its own comes back changed
  (\<open>100%25\<close> becomes \<open>100%\<close>); and neither login nor the callback checks where the address leads, so
  both redirect to any other site.\<close>

theorem state_decoded_twice:
  "callback_redirect rfc3986 (demo_request [''state'' \<mapsto> ''/find?q=100%25'']) = ''/find?q=100%'' \<and>
   callback_redirect rfc3986 (demo_request [''state'' \<mapsto> ''https://evil.example/'']) = ''https://evil.example/'' \<and>
   login rfc3986 demo_google_config (demo_request [''returnUrl'' \<mapsto> ''https://evil.example/''])
     \<lparr>ws_values = Map.empty, ws_identity = Some (Identity (Some e))\<rparr> = found [(''Location'', ''https://evil.example/'')]"
  using char_of_char [of "CHR ''%''", where 'a = nat]
  by (simp add: callback_redirect_def demo_request_def rfc3986_def login_def return_url_of_def hex_value_def)
end
