(* ===== verification/F64Text.thy ===== *)
theory F64Text
  imports RustStr
begin

text \<open>
  How Rust prints numbers. \<open>{}\<close> of a double is the shortest decimal that is read back as the same double, the
  closest one of that length, without an exponent; \<open>{:.2}\<close> is the exact value rounded to hundredths, ties to even.
  Seventeen digits are always enough, and what is printed is read back exactly.
\<close>

section \<open>Integers\<close>

definition show_int :: "int \<Rightarrow> string" where
  "show_int n = (if n < 0 then ''-'' @ show_nat (nat (- n)) else show_nat (nat n))"

section \<open>The shortest decimal\<close>

text \<open>\<open>ilog10 x\<close> is the exponent \<open>k\<close> with \<open>10 powi k \<le> x < 10 powi (k + 1)\<close>.\<close>

definition ilog10 :: "rat \<Rightarrow> int" where
  "ilog10 x = (let (p, q) = quotient_of x; k = int (length (show_nat (nat p))) - int (length (show_nat (nat q)))
     in if 10 powi k \<le> x then k else k - 1)"

text \<open>The better of the two decimals of \<open>n\<close> digits around \<open>x\<close>, if one is read as \<open>x\<close>.\<close>

definition decimal_of :: "rat \<Rightarrow> nat \<Rightarrow> (nat \<times> int) option" where
  "decimal_of x n =
     (let k = ilog10 x - int n + 1; d = \<lfloor>x / 10 powi k\<rfloor>;
          same = (\<lambda>d. rnd (of_int d * 10 powi k) = x)
      in if same d \<and> (\<not> same (d + 1) \<or> x / 10 powi k - of_int d < 1/2) then Some (nat d, k)
         else if same (d + 1) then Some (nat (d + 1), k)
         else None)"

fun shortest_from :: "rat \<Rightarrow> nat \<Rightarrow> nat \<Rightarrow> nat \<times> int" where
  "shortest_from x n 0 = (0, 0)"
| "shortest_from x n (Suc more) =
     (case decimal_of x n of Some c \<Rightarrow> c | None \<Rightarrow> shortest_from x (Suc n) more)"

fun strip_zeros :: "nat \<Rightarrow> int \<Rightarrow> nat \<times> int" where
  "strip_zeros d k = (if d \<noteq> 0 \<and> d mod 10 = 0 then strip_zeros (d div 10) (k + 1) else (d, k))"

declare strip_zeros.simps [simp del]

definition decimal_text :: "nat \<Rightarrow> int \<Rightarrow> string" where
  "decimal_text d k =
     (let s = show_nat d; m = nat (- k)
      in if 0 \<le> k then s @ replicate (nat k) (CHR ''0'')
         else if length s \<le> m then ''0.'' @ replicate (m - length s) (CHR ''0'') @ s
         else take (length s - m) s @ ''.'' @ drop (length s - m) s)"

definition show_pos :: "rat \<Rightarrow> string" where
  "show_pos x = (case shortest_from x 1 17 of (d, k) \<Rightarrow> case strip_zeros d k of (d, k) \<Rightarrow> decimal_text d k)"

fun show_f64 :: "f64 \<Rightarrow> string" where
  "show_f64 F64_NaN = ''NaN''"
| "show_f64 (F64_Inf s) = (if s then ''-inf'' else ''inf'')"
| "show_f64 F64_NegZero = ''-0''"
| "show_f64 (F64_Fin x) =
     (if x = 0 then ''0'' else if x < 0 then ''-'' @ show_pos (- x) else show_pos x)"

text \<open>\<open>{:.2}\<close>\<close>

fun show_f64_2 :: "f64 \<Rightarrow> string" where
  "show_f64_2 F64_NaN = ''NaN''"
| "show_f64_2 (F64_Inf s) = (if s then ''-inf'' else ''inf'')"
| "show_f64_2 F64_NegZero = ''-0.00''"
| "show_f64_2 (F64_Fin x) = (if x < 0 then ''-'' else []) @ decimal_text (nat (rne (\<bar>x\<bar> * 100))) (-2)"

section \<open>Seventeen digits are enough\<close>

lemma show_nat_bounds: "n < 10 ^ length (show_nat n)" "0 < n \<Longrightarrow> 10 ^ (length (show_nat n) - 1) \<le> n"
proof (induction n rule: show_nat.induct)
  case (1 n)
  {
    case 1
    show ?case using "1.IH" by (cases "n < 10") (auto simp: show_nat.simps [of n] div_less_iff_less_mult mult.commute)
  next
    case 2
    show ?case
    proof (cases "n < 10")
      case True
      with 2 show ?thesis by (simp add: show_nat.simps [of n])
    next
      case False
      then have "10 ^ (length (show_nat (n div 10)) - 1) \<le> n div 10" using "1.IH" by simp
      then have "10 ^ (length (show_nat (n div 10)) - 1) * 10 \<le> n" by (simp add: less_eq_div_iff_mult_less_eq)
      moreover have "length (show_nat (n div 10)) \<noteq> 0" by simp
      ultimately show ?thesis using False
        by (simp add: show_nat.simps [of n] power_eq_if mult.commute)
    qed
  }
qed

lemma powi10_mono: "(a::int) \<le> b \<Longrightarrow> (10::rat) powi a \<le> 10 powi b"
  by (rule power_int_increasing) auto

lemma ilog10_bounds:
  assumes "0 < x"
  shows "10 powi ilog10 x \<le> x" and "x < 10 powi (ilog10 x + 1)"
proof -
  obtain p q where pq: "quotient_of x = (p, q)" by fastforce
  have x: "x = of_int p / of_int q" and q: "0 < q"
    using quotient_of_div [OF pq] quotient_of_denom_pos [OF pq] by auto
  have p: "0 < p" using assms x q by (auto simp: zero_less_divide_iff)
  define a b where "a = length (show_nat (nat p)) - 1" and "b = length (show_nat (nat q)) - 1"
  have ab: "length (show_nat (nat p)) = Suc a" "length (show_nat (nat q)) = Suc b"
    using show_nat_nonempty by (simp_all add: a_def b_def)
  have P: "(10::rat) ^ a \<le> of_int p" "of_int p < (10::rat) ^ Suc a"
    using show_nat_bounds [of "nat p"] p unfolding ab
    by (simp_all flip: of_nat_le_iff [where 'a = rat] of_nat_less_iff [where 'a = rat])
  have Q: "(10::rat) ^ b \<le> of_int q" "of_int q < (10::rat) ^ Suc b"
    using show_nat_bounds [of "nat q"] q unfolding ab
    by (simp_all flip: of_nat_le_iff [where 'a = rat] of_nat_less_iff [where 'a = rat])
  have lo: "10 powi (int a - int b - 1) \<le> x"
  proof -
    have "10 powi (int a - int b - 1) = (10::rat) ^ a / 10 ^ Suc b" by (simp add: power_int_diff)
    also have "\<dots> \<le> of_int p / of_int q" using P Q p q by (intro frac_le) auto
    finally show ?thesis by (simp add: x)
  qed
  have hi: "x < 10 powi (int a - int b + 1)"
  proof -
    have "x < (10::rat) ^ Suc a / 10 ^ b" unfolding x using P Q p q by (intro frac_less) auto
    also have "\<dots> = 10 powi (int a - int b + 1)" by (simp add: power_int_diff power_int_add)
    finally show ?thesis .
  qed
  show "10 powi ilog10 x \<le> x" "x < 10 powi (ilog10 x + 1)"
    using lo hi by (auto simp: ilog10_def pq ab Let_def)
qed

text \<open>A rational closer to a double than \<open>2\<^sup>-\<^sup>5\<^sup>4\<close> of it is rounded to it.\<close>

lemma rnd_unique:
  assumes "x = of_int m * 2 powi ulp_exp c" and "\<bar>c - x\<bar> < 2 powi ulp_exp c / 2"
  shows "rnd c = x"
proof -
  let ?u = "(2::rat) powi ulp_exp c"
  have "c - x = (c / ?u - of_int m) * ?u" by (simp add: assms(1) left_diff_distrib)
  then have "\<bar>c / ?u - of_int m\<bar> * ?u = \<bar>c - x\<bar>" by (simp add: abs_mult)
  with assms(2) have "\<bar>c / ?u - of_int m\<bar> * ?u < 1/2 * ?u" by simp
  then have "\<bar>c / ?u - of_int m\<bar> < 1/2" by (simp only: mult_less_cancel_right_pos powi2_pos)
  then have "\<bar>of_int (rne (c / ?u)) - of_int m :: rat\<bar> < 1" using rne_error [of "c / ?u"] by linarith
  then have "rne (c / ?u) = m" by linarith
  then show ?thesis by (simp add: rnd_def assms(1))
qed

lemma ulp_multiple: "rnd x = x \<Longrightarrow> \<exists>m. x = of_int m * 2 powi ulp_exp x"
  unfolding rnd_def by metis

lemma multiples_apart:
  assumes "x = of_int m * u" and "y = of_int n * u" and "x < y" and "(0::rat) < u"
  shows "x + u \<le> y"
proof -
  have "m < n" using assms by simp
  then have "of_int m + 1 \<le> (of_int n :: rat)" by linarith
  then have "(of_int m + 1) * u \<le> of_int n * u" using assms(4) by (intro mult_right_mono) auto
  then show ?thesis using assms(1,2) by (simp add: distrib_right)
qed

lemma powi2_multiple: "a \<le> b \<Longrightarrow> \<exists>n::int. (2::rat) powi b = of_int n * 2 powi a"
  using power_int_add [of "2::rat" "b - a" a]
  by (intro exI [of _ "2 ^ nat (b - a)"]) (simp add: power_int_def [of _ "b - a"])

lemma rnd_near:
  assumes "rnd x = x" and "0 < x" and "\<bar>c - x\<bar> * 2 ^ 54 < x"
  shows "rnd c = x"
proof -
  define k j where "k = ilog2 x" and "j = ilog2 c"
  obtain m where m: "x = of_int m * 2 powi ulp_exp x" using ulp_multiple [OF assms(1)] by blast
  have near: "x - x / 2 ^ 54 < c" "c < x + x / 2 ^ 54" using assms(2,3) by (simp_all add: abs_if field_simps split: if_splits)
  then have c0: "0 < c" using assms(2) by (simp add: field_simps)
  note bx = ilog2_bounds [OF assms(2), folded k_def] and bc = ilog2_bounds [OF c0, folded j_def]
  have ux: "ulp_exp x = max (k - 52) (-1074)" and uc: "ulp_exp c = max (j - 52) (-1074)"
    using assms(2) c0 by (simp_all add: ulp_exp_def k_def j_def)
  have kmin: "-1074 \<le> k"
  proof (rule ccontr)
    assume "\<not> -1074 \<le> k"
    then have "(2::rat) powi (k + 1) \<le> 2 powi ulp_exp x" by (intro powi2_mono) (simp add: ux)
    moreover have "(2::rat) powi ulp_exp x \<le> x"
      using multiples_apart [of 0 0 "2 powi ulp_exp x" x m] m assms(2) by simp
    ultimately show False using bx(2) by simp
  qed
  have ulp_x: "x / 2 ^ 53 < 2 powi ulp_exp x"
  proof -
    have "x / 2 ^ 53 < 2 powi (k + 1) / 2 ^ 53" using bx(2) by (simp add: divide_strict_right_mono)
    also have "\<dots> = 2 powi (k - 52)" by (simp add: power_int_diff power_int_add)
    also have "\<dots> \<le> 2 powi ulp_exp x" by (intro powi2_mono) (simp add: ux)
    finally show ?thesis .
  qed
  have jk: "j \<le> k"
  proof (rule ccontr)
    assume "\<not> j \<le> k"
    then have le: "(2::rat) powi (k + 1) \<le> c" using powi2_mono [of "k + 1" j] bc(1) by linarith
    obtain n where "(2::rat) powi (k + 1) = of_int n * 2 powi ulp_exp x" using powi2_multiple [of "ulp_exp x" "k + 1"] kmin by (auto simp: ux)
    from multiples_apart [OF m this bx(2)] le near(2) ulp_x assms(2) show False by (simp add: field_simps)
  qed
  have "ulp_exp c \<le> ulp_exp x" using jk by (simp add: ux uc)
  then obtain n where "(2::rat) powi ulp_exp x = of_int n * 2 powi ulp_exp c" using powi2_multiple by blast
  then have mult: "x = of_int (m * n) * 2 powi ulp_exp c" using m by simp
  have "x \<le> 2 powi (j + 1)"
  proof (rule ccontr)
    assume gt: "\<not> x \<le> 2 powi (j + 1)"
    then have "(2::rat) powi (j + 1) < 2 powi (k + 1)" using bx(2) by simp
    then have "j < k" using powi2_mono [of "k + 1" "j + 1"] by force
    moreover have "k \<le> j + 1"
    proof (rule ccontr)
      assume "\<not> k \<le> j + 1"
      then have "(2::rat) powi (j + 2) \<le> x" using powi2_mono [of "j + 2" k] bx(1) by linarith
      then have "2 * 2 powi (j + 1) \<le> x" by (simp add: power_int_add)
      with bc(2) near(1) assms(2) show False by (simp add: field_simps)
    qed
    ultimately have k: "k = j + 1" by simp
    obtain n where "(2::rat) powi k = of_int n * 2 powi ulp_exp x" using powi2_multiple [of "ulp_exp x" k] kmin by (auto simp: ux)
    from multiples_apart [OF this m] gt have "2 powi (j + 1) + 2 powi ulp_exp x \<le> x" by (simp add: k)
    with bc(2) near(1) ulp_x assms(2) show False by (simp add: field_simps)
  qed
  then have "x / 2 ^ 53 \<le> 2 powi (j + 1) / 2 ^ 53" by (intro divide_right_mono) auto
  also have "\<dots> = 2 powi (j - 52)" by (simp add: power_int_diff power_int_add)
  also have "\<dots> \<le> 2 powi ulp_exp c" by (intro powi2_mono) (simp add: uc)
  finally have "\<bar>c - x\<bar> < 2 powi ulp_exp c / 2" using near by (simp add: abs_if field_simps)
  with mult show ?thesis by (intro rnd_unique)
qed

lemma decimal_of_sound:
  assumes "decimal_of x n = Some (d, k)" and "0 < x"
  shows "rnd (of_nat d * 10 powi k) = x"
proof -
  have "0 \<le> \<lfloor>x / 10 powi k\<rfloor>" using assms(2) by simp
  with assms(1) show ?thesis by (auto simp: decimal_of_def Let_def split: if_splits)
qed

lemma decimal_17:
  assumes "rnd x = x" and "0 < x"
  shows "decimal_of x 17 \<noteq> None"
proof -
  define k d where "k = ilog10 x - 16" and "d = \<lfloor>x / 10 powi k\<rfloor>"
  let ?u = "(10::rat) powi k"
  have big: "2 ^ 53 * ?u < x"
  proof -
    have "2 ^ 53 * ?u < 10 ^ 16 * ?u" by simp
    also have "\<dots> = 10 powi ilog10 x" by (simp add: k_def power_int_diff)
    also have "\<dots> \<le> x" by (rule ilog10_bounds(1) [OF assms(2)])
    finally show ?thesis .
  qed
  have same: "rnd (of_int a * ?u) = x" if "\<bar>of_int a - x / ?u\<bar> \<le> 1/2" for a
  proof (rule rnd_near [OF assms])
    have "of_int a * ?u - x = (of_int a - x / ?u) * ?u" by (simp add: left_diff_distrib)
    then have "\<bar>of_int a * ?u - x\<bar> = \<bar>of_int a - x / ?u\<bar> * ?u" by (simp add: abs_mult)
    also have "\<dots> \<le> 1/2 * ?u" using that by (intro mult_right_mono) auto
    finally show "\<bar>of_int a * ?u - x\<bar> * 2 ^ 54 < x" using big by simp
  qed
  have "of_int d \<le> x / ?u" "x / ?u < of_int d + 1"
    using floor_correct [of "x / ?u"] by (simp_all add: d_def)
  then have "\<bar>of_int d - x / ?u\<bar> \<le> 1/2 \<or> \<bar>of_int (d + 1) - x / ?u\<bar> \<le> 1/2" by (auto simp: abs_if)
  then show ?thesis using same [of d] same [of "d + 1"] by (auto simp: decimal_of_def Let_def k_def d_def)
qed

lemma shortest_from_sound:
  assumes "0 < x" and "n \<le> l" and "l < n + more" and "decimal_of x l \<noteq> None"
    and "shortest_from x n more = (d, k)"
  shows "rnd (of_nat d * 10 powi k) = x"
  using assms
proof (induction x n more rule: shortest_from.induct)
  case (2 x n more)
  show ?case
  proof (cases "decimal_of x n")
    case None
    with 2 have "Suc n \<le> l" by (cases "n = l") auto
    with 2 None show ?thesis by simp
  next
    case (Some c)
    with 2 show ?thesis by (auto intro: decimal_of_sound)
  qed
qed simp

lemma strip_zeros_value:
  "strip_zeros d k = (d', k') \<Longrightarrow> of_nat d' * (10::rat) powi k' = of_nat d * 10 powi k"
proof (induction d k arbitrary: d' k' rule: strip_zeros.induct)
  case (1 d k)
  show ?case
  proof (cases "d \<noteq> 0 \<and> d mod 10 = 0")
    case True
    then have "d = d div 10 * 10" by presburger
    then have "(of_nat d :: rat) = of_nat (d div 10) * 10" by (metis of_nat_mult of_nat_numeral)
    moreover have "of_nat d' * (10::rat) powi k' = of_nat (d div 10) * 10 powi (k + 1)"
      using 1 True by (simp add: strip_zeros.simps [of d])
    ultimately show ?thesis by (simp add: power_int_add)
  next
    case False
    then show ?thesis using 1 by (auto simp: strip_zeros.simps [of d] split: if_splits)
  qed
qed

section \<open>What is printed is read back\<close>

lemma nat_of_digits_append:
  "nat_of_digits (a @ b) = nat_of_digits a * 10 ^ length b + nat_of_digits b"
proof (induction b rule: rev_induct)
  case (snoc c b)
  have "nat_of_digits (a @ b @ [c]) = 10 * nat_of_digits (a @ b) + (byte c - 48)"
    using nat_of_digits_snoc [of "a @ b" c] by simp
  then show ?case by (simp add: snoc nat_of_digits_snoc add_mult_distrib2)
qed (simp add: nat_of_digits_def)

lemma nat_of_zeros: "nat_of_digits (replicate n (CHR ''0'')) = 0"
  by (induction n) (simp_all add: nat_of_digits_def)

lemma digits_span [simp]:
  assumes "list_all is_ascii_digit s"
  shows "takeWhile is_ascii_digit s = s" and "dropWhile is_ascii_digit s = []"
    and "takeWhile is_ascii_digit (s @ CHR ''.'' # t) = s" and "dropWhile is_ascii_digit (s @ CHR ''.'' # t) = CHR ''.'' # t"
  using assms by (auto simp: list_all_iff is_ascii_digit_def)

lemma parse_number_int:
  assumes "s \<noteq> []" and "list_all is_ascii_digit s"
  shows "parse_number neg s = Some (f64_round neg ((if neg then -1 else 1) * of_nat (nat_of_digits s)))"
  using assms by (simp add: parse_number_def parse_exp_def)

lemma parse_number_frac:
  assumes "s \<noteq> []" and "list_all is_ascii_digit s" and "list_all is_ascii_digit t"
  shows "parse_number neg (s @ ''.'' @ t) =
    Some (f64_round neg ((if neg then -1 else 1) * of_nat (nat_of_digits (s @ t)) * 10 powi - int (length t)))"
  using assms by (simp add: parse_number_def parse_exp_def)

lemma parse_decimal_text:
  "parse_number neg (decimal_text d k) = Some (f64_round neg ((if neg then -1 else 1) * of_nat d * 10 powi k))"
proof -
  let ?s = "show_nat d" and ?m = "nat (- k)"
  have digits: "list_all is_ascii_digit ?s" "list_all is_ascii_digit (replicate n (CHR ''0''))" for n
    by (rule show_nat_digits) (simp add: list_all_iff is_ascii_digit_def)
  consider (int) "0 \<le> k" | (small) "k < 0" "length ?s \<le> ?m" | (mid) "k < 0" "?m < length ?s" by linarith
  then show ?thesis
  proof cases
    case int
    then show ?thesis using digits
      by (simp add: decimal_text_def parse_number_int nat_of_digits_append nat_of_zeros nat_of_digits_show_nat
          power_int_def mult.assoc)
  next
    case small
    let ?z = "replicate (?m - length ?s) (CHR ''0'')"
    have "nat_of_digits (''0'' @ ?z @ ?s) = d"
      by (simp only: nat_of_digits_append nat_of_zeros nat_of_digits_show_nat) (simp add: nat_of_digits_def)
    with small digits parse_number_frac [of "''0''" "?z @ ?s" neg] show ?thesis
      by (simp add: decimal_text_def Let_def is_ascii_digit_def)
  next
    case mid
    let ?i = "take (length ?s - ?m) ?s" and ?f = "drop (length ?s - ?m) ?s"
    have "list_all is_ascii_digit ?i" "list_all is_ascii_digit ?f" using digits(1) by (auto simp: list_all_iff dest: in_set_takeD in_set_dropD)
    with mid parse_number_frac [of ?i ?f neg] show ?thesis
      by (simp add: decimal_text_def Let_def nat_of_digits_show_nat)
  qed
qed

lemma show_pos_value:
  assumes "rnd x = x" and "0 < x"
  obtains d k where "show_pos x = decimal_text d k" and "rnd (of_nat d * 10 powi k) = x"
proof -
  obtain d k d' k' where s: "shortest_from x 1 17 = (d, k)" "strip_zeros d k = (d', k')" by fastforce
  have "rnd (of_nat d * 10 powi k) = x"
    using shortest_from_sound [OF assms(2) _ _ decimal_17 [OF assms] s(1)] by simp
  with strip_zeros_value [OF s(2)] s show thesis by (intro that [of d' k']) (simp_all add: show_pos_def)
qed

lemma decimal_text_digit: "\<exists>c cs. decimal_text d k = c # cs \<and> is_ascii_digit c"
proof -
  obtain c cs where s: "show_nat d = c # cs" by (cases "show_nat d") auto
  with show_nat_digits [of d] have c: "is_ascii_digit c" by simp
  have z: "is_ascii_digit (CHR ''0'')" by (simp add: is_ascii_digit_def)
  have "\<exists>ys. decimal_text d k = c # ys \<or> decimal_text d k = CHR ''0'' # ys"
    by (auto simp: decimal_text_def Let_def s take_Cons' not_less)
  with c z show ?thesis by blast
qed

lemma rne_minus: "rne (- x) = - rne x"
proof -
  define n r where "n = \<lfloor>x\<rfloor>" and "r = x - of_int n"
  have r: "0 \<le> r" "r < 1" using floor_correct [of x] by (simp_all add: n_def r_def)
  have x: "x = of_int n + r" by (simp add: r_def)
  show ?thesis
  proof (cases "r = 0")
    case True
    then show ?thesis using rne_of_int [of n] rne_of_int [of "- n"] x by simp
  next
    case False
    then have "\<lfloor>- x\<rfloor> = - n - 1" using r by (intro floor_unique) (simp_all add: x)
    then show ?thesis using r by (simp add: rne_def Let_def n_def [symmetric])
  qed
qed

lemma rnd_minus: "rnd (- x) = - rnd x"
proof -
  have "ulp_exp (- x) = ulp_exp x" by (simp add: ulp_exp_def)
  then show ?thesis by (simp add: rnd_def rne_minus)
qed

lemma lower_digit: "is_ascii_digit c \<Longrightarrow> to_ascii_lower c = c"
  by (auto simp: to_ascii_lower_def is_ascii_digit_def is_ascii_upper_def)

lemma parse_f64_decimal:
  "parse_f64 (decimal_text d k) = parse_number False (decimal_text d k)"
  "parse_f64 (CHR ''-'' # decimal_text d k) = parse_number True (decimal_text d k)"
proof -
  obtain c cs where c: "decimal_text d k = c # cs" "is_ascii_digit c" using decimal_text_digit by blast
  then have "c \<noteq> CHR ''-''" "c \<noteq> CHR ''+''" "c \<noteq> CHR ''n''" "c \<noteq> CHR ''i''" by (auto simp: is_ascii_digit_def)
  with c show "parse_f64 (decimal_text d k) = parse_number False (decimal_text d k)"
    "parse_f64 (CHR ''-'' # decimal_text d k) = parse_number True (decimal_text d k)"
    by (simp_all add: parse_f64_def split_sign_def lower_digit)
qed

lemma parse_f64_zero: "parse_f64 ''0'' = Some (F64_Fin 0)" "parse_f64 ''-0'' = Some F64_NegZero"
  by (simp_all add: parse_f64_def split_sign_def parse_number_def parse_exp_def to_ascii_lower_def is_ascii_upper_def
    is_ascii_digit_def nat_of_digits_def f64_round_def f64_zero_def)

lemma parse_f64_special:
  "parse_f64 ''NaN'' = Some F64_NaN" "parse_f64 ''inf'' = Some (F64_Inf False)" "parse_f64 ''-inf'' = Some (F64_Inf True)"
  by code_simp+

lemma parse_show_f64:
  assumes "f64_wf v"
  shows "parse_f64 (show_f64 v) = Some v"
proof (cases v)
  case (F64_Fin x)
  consider (zero) "x = 0" | (pos) "0 < x" | (neg) "x < 0" by linarith
  then show ?thesis
  proof cases
    case zero
    then show ?thesis using F64_Fin by (simp add: parse_f64_zero)
  next
    case pos
    have x: "rnd x = x" "\<bar>x\<bar> < 2 ^ 1024" using assms F64_Fin by simp_all
    obtain d k where dk: "show_pos x = decimal_text d k" "rnd (of_nat d * 10 powi k) = x"
      using show_pos_value [OF x(1) pos] .
    then have "of_nat d * (10::rat) powi k \<noteq> 0" using pos by (metis less_irrefl rnd_0)
    then have "f64_round False (of_nat d * 10 powi k) = F64_Fin x" using x pos by (simp add: f64_round_def dk(2))
    then show ?thesis using pos by (simp add: F64_Fin dk(1) parse_f64_decimal parse_decimal_text)
  next
    case neg
    have x: "rnd (- x) = - x" "\<bar>x\<bar> < 2 ^ 1024" using assms F64_Fin by (simp_all add: rnd_minus)
    obtain d k where dk: "show_pos (- x) = decimal_text d k" "rnd (of_nat d * 10 powi k) = - x"
      using show_pos_value [OF x(1)] neg by auto
    then have "of_nat d * (10::rat) powi k \<noteq> 0" using neg by (metis less_irrefl neg_0_equal_iff_equal rnd_0)
    then have "f64_round True (- (of_nat d * 10 powi k)) = F64_Fin x"
      using x neg by (simp add: f64_round_def dk(2) rnd_minus)
    then show ?thesis using neg by (simp add: F64_Fin dk(1) parse_f64_decimal parse_decimal_text)
  qed
qed (simp_all add: parse_f64_zero parse_f64_special)

lemma rounded_hundredths: "\<bar>of_nat (nat (rne (\<bar>x\<bar> * 100))) / 100 - \<bar>x\<bar>\<bar> \<le> 1/200"
proof -
  have "0 \<le> rne (\<bar>x\<bar> * 100)" by (rule rne_nonneg) simp
  then show ?thesis using rne_error [of "\<bar>x\<bar> * 100"] by (simp add: abs_if split: if_splits)
qed

end
