(* ===== verification/HttpLog.thy ===== *)
theory HttpLog
  imports UserAccount Calendar F64Text
begin

text \<open>
  \<open>rqcoresrv/src/middleware/http_request_logger.rs\<close>: the middleware that keeps the last fifty requests,
  and the page that shows them. The clock, the client's address and the formats of times and addresses
  are parameters.
\<close>

section \<open>The log\<close>

record http_request_log =
  hl_start_time :: instant
  hl_is_error :: bool
  hl_is_https :: bool
  hl_method :: string
  hl_path :: string
  hl_query_string :: string
  hl_client_ip :: string
  hl_client_user_email :: string
  hl_status_code :: nat
  hl_total_milliseconds :: f64

text \<open>What the middleware reads of a request, and what the inner service answers (an error or a status).\<close>

record request_info =
  ri_start :: instant
  ri_scheme :: string
  ri_method :: string
  ri_path :: string
  ri_query :: string
  ri_realip :: "string option"
  ri_elapsed_ns :: nat

text \<open>\<open>realip_remote_addr().unwrap_or("0.0.0.0").parse().unwrap_or([0, 0, 0, 0])\<close>\<close>

definition client_ip_of :: "(string \<Rightarrow> string option) \<Rightarrow> request_info \<Rightarrow> string" where
  "client_ip_of parse_ip ri =
     (case parse_ip (case ri_realip ri of Some a \<Rightarrow> a | None \<Rightarrow> ''0.0.0.0'') of Some ip \<Rightarrow> ip | None \<Rightarrow> ''0.0.0.0'')"

definition session_email :: "web_session \<Rightarrow> string" where
  "session_email s = (case session_get s ''user_email'' of Inr (Some e) \<Rightarrow> e | _ \<Rightarrow> [])"

definition log_entry :: "(string \<Rightarrow> string option) \<Rightarrow> request_info \<Rightarrow> web_session \<Rightarrow> nat \<Rightarrow> http_request_log" where
  "log_entry parse_ip ri s status_code =
     \<lparr>hl_start_time = ri_start ri, hl_is_error = (500 \<le> status_code), hl_is_https = (ri_scheme ri = ''https''),
      hl_method = ri_method ri, hl_path = ri_path ri, hl_query_string = ri_query ri,
      hl_client_ip = client_ip_of parse_ip ri, hl_client_user_email = session_email s,
      hl_status_code = status_code, hl_total_milliseconds = as_secs_f64 (ri_elapsed_ns ri) * F64_Fin 1000\<rparr>"

definition push_log :: "http_request_log \<Rightarrow> http_request_log list \<Rightarrow> http_request_log list" where
  "push_log e logs = (if 50 \<le> length logs then tl logs else logs) @ [e]"

text \<open>
  The middleware around the service \<open>next\<close>; \<open>None\<close> is an uninitialized store. An error of the service
  is handed on before anything is logged.
\<close>

definition http_request_logger_middleware ::
  "(string \<Rightarrow> string option) \<Rightarrow> request_info \<Rightarrow> web_session \<Rightarrow> 'e + http_response
    \<Rightarrow> http_request_log list option \<Rightarrow> ('e + http_response) \<times> http_request_log list option" where
  "http_request_logger_middleware parse_ip ri s res store =
     (case res of
        Inl e \<Rightarrow> (Inl e, store)
      | Inr resp \<Rightarrow> (Inr resp, map_option (push_log (log_entry parse_ip ri s (status resp))) store))"

definition log_line_html :: "(instant \<Rightarrow> string) \<Rightarrow> http_request_log \<Rightarrow> string" where
  "log_line_html fmt_time l =
     fmt_time (hl_start_time l) @ ''#'' @ (if hl_is_error l then ''ERROR in '' else []) @
     (if hl_is_https l then ''HTTPS'' else ''HTTP'') @ '' '' @ hl_method l @ '' '' @ [CHR 0x27] @
     (if hl_query_string l = [] then hl_path l else hl_path l @ hl_query_string l) @ [CHR 0x27] @ '' from '' @
     hl_client_ip l @ '' (u: '' @ hl_client_user_email l @ '') ret: '' @ show_nat (hl_status_code l) @ '' in '' @
     show_f64_2 (hl_total_milliseconds l) @ ''ms<br/>''"

definition http_request_activity :: "(instant \<Rightarrow> string) \<Rightarrow> http_request_log list \<Rightarrow> string" where
  "http_request_activity F logs = foldl (\<lambda>sb l. sb @ log_line_html F l) [] (rev logs)"

definition http_request_activity_log :: "(instant \<Rightarrow> string) \<Rightarrow> http_request_log list option \<Rightarrow> http_response outcome" where
  "http_request_activity_log F store =
     bind_out (expect store ''called Option::unwrap() on a None value'') (\<lambda>logs.
       Inr \<lparr>status = 200, headers = [(''content-type'', ''text/html'')],
         body = ''<html><body><h1>HttpRequests Activity Log</h1>'' @ http_request_activity F logs @ ''</body></html>''\<rparr>)"

section \<open>The last fifty\<close>

definition last_n :: "nat \<Rightarrow> 'a list \<Rightarrow> 'a list" where
  "last_n n xs = drop (length xs - n) xs"

text \<open>What a bounded log promises: after every push it holds the newest entries, at most \<open>cap\<close> of them.\<close>

locale bounded_log =
  fixes push :: "'e \<Rightarrow> 'e list \<Rightarrow> 'e list" and cap :: nat
  assumes push_last: "push e (last_n cap es) = last_n cap (es @ [e])"
begin

lemma fold_push: "fold push es (last_n cap old) = last_n cap (old @ es)"
  by (induction es arbitrary: old) (simp_all add: push_last)

lemma push_le: "length (push e (last_n cap es)) \<le> cap"
  unfolding push_last by (simp add: last_n_def)

end

interpretation http_logs: bounded_log push_log 50
proof
  fix e :: http_request_log and es
  show "push_log e (last_n 50 es) = last_n 50 (es @ [e])"
  proof (cases "50 \<le> length es")
    case True
    then have e: "length es - 49 = Suc (length es - 50)" by simp
    from True show ?thesis by (simp add: push_log_def last_n_def e drop_Suc tl_drop)
  qed (simp add: push_log_def last_n_def)
qed

lemma http_request_activity_concat: "http_request_activity F logs = concat (map (log_line_html F) (rev logs))"
proof -
  have "foldl (\<lambda>sb l. sb @ log_line_html F l) a ls = a @ concat (map (log_line_html F) ls)" for a ls
    by (induction ls arbitrary: a) auto
  then show ?thesis by (simp add: http_request_activity_def)
qed

section \<open>Properties\<close>

text \<open>C29: After any requests the log has exactly the last fifty that were answered, the
  oldest first, server errors marked; a request whose service failed is not in it; and the page shows them
  newest first.\<close>

theorem http_log_last_fifty:
  fixes parse_ip and reqs :: "(request_info \<times> web_session \<times> ('e + http_response)) list"
  defines "answered_requests \<equiv> List.map_filter (\<lambda>(ri, s, res). case res of Inl _ \<Rightarrow> None
      | Inr resp \<Rightarrow> Some (log_entry parse_ip ri s (status resp))) reqs"
    and "store \<equiv> fold (\<lambda>(ri, s, res) store. snd (http_request_logger_middleware parse_ip ri s res store)) reqs (Some [])"
  shows "store = Some (last_n 50 answered_requests) \<and>
    list_all (\<lambda>l. hl_is_error l \<longleftrightarrow> 500 \<le> hl_status_code l) answered_requests \<and>
    map_sum id body (http_request_activity_log F store) =
      Inr (''<html><body><h1>HttpRequests Activity Log</h1>'' @
        concat (map (log_line_html F) (rev (last_n 50 answered_requests))) @ ''</body></html>'')"
proof -
  have "fold (\<lambda>(ri, s, res) store. snd (http_request_logger_middleware parse_ip ri s res store)) reqs (Some logs) =
    Some (fold push_log answered_requests logs)" for logs
    unfolding answered_requests_def
  proof (induction reqs arbitrary: logs)
    case Nil
    then show ?case by (simp add: List.map_filter_def)
  next
    case (Cons r reqs)
    obtain ri s res where r: "r = (ri, s, res)" by (metis prod_cases3)
    show ?case using Cons.IH
      by (cases res) (simp_all add: r http_request_logger_middleware_def List.map_filter_def)
  qed
  then have s: "store = Some (last_n 50 answered_requests)"
    using http_logs.fold_push [of answered_requests "[]"] by (simp add: store_def last_n_def)
  moreover have "list_all (\<lambda>l. hl_is_error l \<longleftrightarrow> 500 \<le> hl_status_code l) answered_requests"
    by (auto simp: answered_requests_def list_all_iff set_map_filter log_entry_def split: sum.splits)
  ultimately show ?thesis
    by (simp add: http_request_activity_log_def http_request_activity_concat)
qed

text \<open>The page shows the path and the query without the question mark between them,
  so a request for the path \<open>/a\<close> with the query \<open>b\<close> looks like one for \<open>/ab\<close>.\<close>

theorem log_glues_query:
  "log_line_html F (l\<lparr>hl_path := p, hl_query_string := q\<rparr>) = log_line_html F (l\<lparr>hl_path := p @ q, hl_query_string := []\<rparr>)"
  by (simp add: log_line_html_def)
end
