(* ===== verification/WebServer.thy ===== *)
theory WebServer
  imports HttpLog Brokers
begin

text \<open>
  The web server: \<open>main_web.rs\<close> (certificates, the resolver of server names, the choice of the static
  site), \<open>middleware/browser_cache_control.rs\<close> and \<open>middleware/server_diagnostics.rs\<close>. The files, the parsers of certificates and keys
  and the framework's checks are parameters.
\<close>

section \<open>Certificates\<close>

text \<open>\<open>tls_open\<close> opens a file, the next three parse it (an option of an option where no key is no error),
  \<open>sni_accepts\<close> is the check of \<open>ResolvesServerCertUsingSni::add\<close>.\<close>

record ('d, 'c, 'k, 's) tls_files =
  tls_open :: "string \<Rightarrow> 'd option"
  tls_certs :: "'d \<Rightarrow> 'c option"
  tls_key :: "'d \<Rightarrow> 'k option option"
  tls_sign :: "'k \<Rightarrow> 's option"
  sni_accepts :: "string \<Rightarrow> 'c \<times> 's \<Rightarrow> bool"

definition load_certs :: "('d, 'c, 'k, 's) tls_files \<Rightarrow> string \<Rightarrow> 'c outcome" where
  "load_certs F filename =
     bind_out (expect (tls_open F filename) (''cannot open certificate file '' @ filename)) (\<lambda>d.
       expect (tls_certs F d) (''invalid certificate in file '' @ filename))"

definition load_private_key :: "('d, 'c, 'k, 's) tls_files \<Rightarrow> string \<Rightarrow> 'k outcome" where
  "load_private_key F filename =
     bind_out (expect (tls_open F filename) (''cannot open private key file '' @ filename)) (\<lambda>d.
     bind_out (expect (tls_key F d) (''invalid private key in file '' @ filename)) (\<lambda>k.
       expect k (''no private key found in '' @ filename)))"

definition load_certified_key :: "('d, 'c, 'k, 's) tls_files \<Rightarrow> string \<Rightarrow> string \<Rightarrow> string \<Rightarrow> ('c \<times> 's) outcome" where
  "load_certified_key F cert_base_path folder kind =
     bind_out (load_certs F (cert_base_path @ folder @ ''/fullchain.pem'')) (\<lambda>certs.
     bind_out (load_private_key F (cert_base_path @ folder @ ''/privkey.pem'')) (\<lambda>key.
     bind_out (expect (tls_sign F key) (''unsupported '' @ kind)) (\<lambda>s. Inr (certs, s))))"

definition sni_add :: "('d, 'c, 'k, 's) tls_files \<Rightarrow> string \<Rightarrow> string \<Rightarrow> 'c \<times> 's \<Rightarrow> (string \<rightharpoonup> 'c \<times> 's)
    \<Rightarrow> (string \<rightharpoonup> 'c \<times> 's) outcome" where
  "sni_add F name msg ck m =
     bind_out (expect (if sni_accepts F name ck then Some () else None) msg) (\<lambda>_. Inr (m(name \<mapsto> ck)))"

text \<open>The resolver: the names added and the default.\<close>

record 'ck sni_resolver =
  sni_inner :: "string \<rightharpoonup> 'ck"
  sni_default :: 'ck

definition build_resolver :: "('d, 'c, 'k, 's) tls_files \<Rightarrow> string \<Rightarrow> ('c \<times> 's) sni_resolver outcome" where
  "build_resolver F folder =
     (let cert_base_path = folder @ ''https_certs/'' in
     bind_out (load_certified_key F cert_base_path ''rqcore.com'' ''rqcore private key type'') (\<lambda>rq.
     bind_out (load_certified_key F cert_base_path ''thetaconite.com'' ''thetaconite private key type'') (\<lambda>theta.
     bind_out (load_certified_key F cert_base_path ''localhost'' ''default key'') (\<lambda>dflt.
     bind_out (sni_add F ''rqcore.com'' ''Invalid DNS name for rqcore.com'' rq Map.empty) (\<lambda>m.
     bind_out (sni_add F ''www.rqcore.com'' ''Invalid DNS name for www.rqcore.com'' rq m) (\<lambda>m.
     bind_out (sni_add F ''thetaconite.com'' ''Invalid DNS name for thetaconite.com'' theta m) (\<lambda>m.
     bind_out (sni_add F ''www.thetaconite.com'' ''Invalid DNS name for www.thetaconite.com'' theta m) (\<lambda>m.
     bind_out (sni_add F ''localhost'' ''Invalid localhost DNS name'' dflt m) (\<lambda>m.
       Inr \<lparr>sni_inner = m, sni_default = dflt\<rparr>)))))))))"

definition sni_resolve :: "'ck sni_resolver \<Rightarrow> string option \<Rightarrow> 'ck option" where
  "sni_resolve R server_name =
     (case (case server_name of Some n \<Rightarrow> sni_inner R n | None \<Rightarrow> None) of
        Some ck \<Rightarrow> Some ck | None \<Rightarrow> Some (sni_default R))"

section \<open>The site\<close>

text \<open>\<open>HeaderValue::to_str\<close>: visible ASCII, blanks and tabs.\<close>

definition header_to_str :: "string \<Rightarrow> string option" where
  "header_to_str h = (if list_all (\<lambda>c. byte c = 9 \<or> 32 \<le> byte c \<and> byte c < 127) h then Some h else None)"

text \<open>Hosts are ASCII, so \<open>to_lowercase\<close> is that of ASCII.\<close>

definition is_taconite_domain :: "string option \<Rightarrow> string option \<Rightarrow> bool" where
  "is_taconite_domain uri_host host_header =
     (let host = (case uri_host of Some h \<Rightarrow> h
        | None \<Rightarrow> (case Option.bind host_header header_to_str of Some h \<Rightarrow> h | None \<Rightarrow> []))
      in str_contains ''thetaconite.com'' (map to_ascii_lower host))"

definition static_folder :: "string option \<Rightarrow> string option \<Rightarrow> string" where
  "static_folder uri_host host_header =
     (if is_taconite_domain uri_host host_header then ''./static/taconite'' else ''./static'')"

section \<open>Cache control, diagnostics\<close>

definition insert_header :: "string \<Rightarrow> string \<Rightarrow> http_response \<Rightarrow> http_response" where
  "insert_header k v resp = resp\<lparr>headers := filter (\<lambda>(k', _). k' \<noteq> k) (headers resp) @ [(k, v)]\<rparr>"

definition browser_cache_control_30_days_middleware :: "'e + http_response \<Rightarrow> 'e + http_response" where
  "browser_cache_control_30_days_middleware res =
     (case res of Inl e \<Rightarrow> Inl e | Inr resp \<Rightarrow> Inr (insert_header ''cache-control'' ''public, max-age=2592000'' resp))"

definition browser_domain_cache_bust_header :: http_response where
  "browser_domain_cache_bust_header = \<lparr>status = 200,
     headers = [(''content-type'', ''text/html; charset=utf-8''), (''clear-site-data'', ''\"cache\"'')],
     body = ''<h2>Hello.</h2>The clear-site-data: \"cache\" header will force disk cache to be cleared for the domain.<br>Test it on live, because localhost works differently.''\<rparr>"

text \<open>\<open>signed_duration_since\<close>, and Rust's division and remainder, which truncate.\<close>

definition quot :: "int \<Rightarrow> int \<Rightarrow> int" where "quot a b = (if a < 0 then - ((- a) div b) else a div b)"
definition rust_rem :: "int \<Rightarrow> int \<Rightarrow> int" where "rust_rem a b = a - b * quot a b"

definition uptime :: "instant \<Rightarrow> instant \<Rightarrow> int \<times> int \<times> int" where
  "uptime start now =
     (let secs = num_seconds (now - start)
      in (quot secs 86400, rust_rem (quot secs 3600) 24, rust_rem (quot secs 60) 60))"

definition show_pad2 :: "int \<Rightarrow> string" where
  "show_pad2 n = (let s = show_int n in if length s < 2 then CHR ''0'' # s else s)"

text \<open>The broker clients by \<open>Debug\<close>; the gateways in the order the hash map gives them.\<close>

fun broker_debug :: "broker_client \<Rightarrow> string" where
  "broker_debug Gyantal = ''Gyantal''"
| "broker_debug DcMain = ''DcMain''"
| "broker_debug DcBlanzac = ''DcBlanzac''"

definition gateway_html :: "broker_client \<times> 'c gateway \<Rightarrow> string" where
  "gateway_html bg = (case bg of (b, g) \<Rightarrow>
     ''Gateway '' @ broker_debug b @ '' '' @ [CHR 0xE2, CHR 0x86, CHR 0x92] @ '' URL: '' @ connection_url g @ '' | ClientID: '' @
     show_int (client_id g) @ '' | Connected: '' @ (if ib_client g \<noteq> None then ''true'' else ''false'') @ ''<br>'')"

definition server_diagnostics ::
  "(instant \<Rightarrow> string) \<Rightarrow> instant option \<Rightarrow> instant \<Rightarrow> nat \<Rightarrow> nat \<Rightarrow> (broker_client \<times> 'c gateway) list mutex \<Rightarrow> http_response" where
  "server_diagnostics fmt_date app_start utc_time logical_cpus pid gateways =
     (case app_start of
        None \<Rightarrow> response 500 ''Server initialization error''
      | Some start \<Rightarrow>
         (case uptime start utc_time of (days, hours, minutes) \<Rightarrow>
          if mutex_poisoned gateways then response 500 ''Gateways state corrupted''
          else html_page (''<html><body><h1>ServerDiagnostics</h1><h2>Main.exe</h2><br>WebAppStartTimeUtc: '' @ fmt_date start @
            '' ('' @ show_int days @ '' days '' @ show_pad2 hours @ '':'' @ show_pad2 minutes @ '' hours ago)<br>'' @
            ''<h2>RuntimeInfo</h2><br>Logical CPUs: '' @ show_nat logical_cpus @ ''<br>Server Workers: '' @ show_nat logical_cpus @
            ''<br>PID: '' @ show_nat pid @ ''<br><h2>BrokersWatcher</h2>Total gateways: '' @
            show_nat (length (mutex_data gateways)) @ ''<br>'' @ concat (map gateway_html (mutex_data gateways)))))"

definition webserver_ping :: "(instant \<Rightarrow> string) \<Rightarrow> instant \<Rightarrow> http_response" where
  "webserver_ping fmt_date now = \<lparr>status = 200, headers = [(''content-type'', ''text/html'')],
     body = ''<h3>Pong! '' @ fmt_date now @ ''</h3>''\<rparr>"

section \<open>Properties\<close>

lemma sni_add_Inr [outcome_simps]:
  "sni_add F name msg ck m = Inr m' \<longleftrightarrow> sni_accepts F name ck \<and> m' = m(name \<mapsto> ck)"
  by (auto simp: sni_add_def outcome_simps)

text \<open>When the start does not panic, the TLS resolver answers every client, also one that
  sends no name: the two domains, with and without www, with the certificate of their own folder, everybody
  else with the one for localhost.\<close>

theorem resolver_names:
  assumes "build_resolver F folder = Inr R"
  shows "\<exists>rq theta dflt.
    load_certified_key F (folder @ ''https_certs/'') ''rqcore.com'' ''rqcore private key type'' = Inr rq \<and>
    load_certified_key F (folder @ ''https_certs/'') ''thetaconite.com'' ''thetaconite private key type'' = Inr theta \<and>
    load_certified_key F (folder @ ''https_certs/'') ''localhost'' ''default key'' = Inr dflt \<and>
    sni_resolve R name = Some (if name \<in> {Some ''rqcore.com'', Some ''www.rqcore.com''} then rq
      else if name \<in> {Some ''thetaconite.com'', Some ''www.thetaconite.com''} then theta else dflt)"
proof -
  obtain rq theta dflt where
    l: "load_certified_key F (folder @ ''https_certs/'') ''rqcore.com'' ''rqcore private key type'' = Inr rq"
      "load_certified_key F (folder @ ''https_certs/'') ''thetaconite.com'' ''thetaconite private key type'' = Inr theta"
      "load_certified_key F (folder @ ''https_certs/'') ''localhost'' ''default key'' = Inr dflt"
    and R: "R = \<lparr>sni_inner = [''rqcore.com'' \<mapsto> rq, ''www.rqcore.com'' \<mapsto> rq, ''thetaconite.com'' \<mapsto> theta,
      ''www.thetaconite.com'' \<mapsto> theta, ''localhost'' \<mapsto> dflt], sni_default = dflt\<rparr>"
    using assms by (auto simp: build_resolver_def outcome_simps Let_def)
  have "sni_resolve R name = Some (if name \<in> {Some ''rqcore.com'', Some ''www.rqcore.com''} then rq
      else if name \<in> {Some ''thetaconite.com'', Some ''www.thetaconite.com''} then theta else dflt)"
    by (cases name) (simp_all add: R sni_resolve_def)
  with l show ?thesis by blast
qed

definition demo_tls :: "(string, string, string, string) tls_files" where
  "demo_tls = \<lparr>tls_open = Some, tls_certs = Some, tls_key = (\<lambda>d. Some (Some d)), tls_sign = Some, sni_accepts = (\<lambda>_ _. True)\<rparr>"

theorem resolver_names_witness:
  "\<exists>R ck. build_resolver demo_tls ''/cfg/'' = Inr R \<and> sni_resolve R (Some ''www.thetaconite.com'') = Some ck \<and>
     fst ck = ''/cfg/https_certs/thetaconite.com/fullchain.pem''"
proof -
  obtain R where R: "build_resolver demo_tls ''/cfg/'' = Inr R"
    by (simp add: build_resolver_def load_certified_key_def load_certs_def load_private_key_def sni_add_def demo_tls_def)
  from resolver_names [OF R, of "Some ''www.thetaconite.com''"] R show ?thesis
    by (auto simp: load_certified_key_def load_certs_def load_private_key_def demo_tls_def)
qed

text \<open>For a host in lower case the static files and the start page are those of the same
  site, with either source of the host; a host with a capital letter gets the files of Taconite but the start
  page of RqCore.\<close>

theorem site_choice:
  assumes "map to_ascii_lower (hr_host req) = hr_host req" and "header_to_str (hr_host req) = Some (hr_host req)"
  shows "static_folder (Some (hr_host req)) h = static_folder None (Some (hr_host req)) \<and>
    root_index pages auth req new_session = html_page
      (if static_folder None (Some (hr_host req)) = ''./static/taconite'' then taconite_nouser pages else rqcore_nouser pages) \<and>
    static_folder None (Some ''Thetaconite.com'') = ''./static/taconite'' \<and>
    root_index pages auth \<lparr>hr_scheme = ''https'', hr_host = ''Thetaconite.com'', hr_query = q\<rparr> new_session = html_page (rqcore_nouser pages)"
  using assms char_of_char [of "CHR ''t''", where 'a = nat]
  by (simp add: static_folder_def is_taconite_domain_def root_index_def new_session_def Let_def header_to_str_def
      str_contains_def sublist_Cons_right to_ascii_lower_def is_ascii_upper_def)

theorem site_choice_witness: "static_folder None (Some ''rqcore.com'') = static_folder (Some ''rqcore.com'') None"
proof -
  have "map to_ascii_lower (hr_host (demo_request Map.empty)) = hr_host (demo_request Map.empty)"
    "header_to_str (hr_host (demo_request Map.empty)) = Some (hr_host (demo_request Map.empty))"
    by (simp_all add: demo_request_def to_ascii_lower_def is_ascii_upper_def header_to_str_def)
  from site_choice [OF this, of None] show ?thesis by (simp add: demo_request_def)
qed

lemma div_hours_days:
  fixes s :: int
  shows "s div 3600 = s div 60 div 60" and "s div 86400 = s div 60 div 60 div 24"
  by (simp_all add: zdiv_zmult2_eq [symmetric])

text \<open>The diagnostics page splits the time since the start into days, hours below 24 and
  minutes below 60, which lose less than a minute.\<close>

theorem uptime_spec:
  assumes "start \<le> now"
  shows "case uptime start now of (d, h, m) \<Rightarrow> 0 \<le> d \<and> 0 \<le> h \<and> h < 24 \<and> 0 \<le> m \<and> m < 60 \<and>
    ((d * 24 + h) * 60 + m) * 60 * ns_per_sec \<le> now - start \<and>
    now - start < ((d * 24 + h) * 60 + m + 1) * 60 * ns_per_sec"
proof -
  let ?t = "now - start" and ?s = "(now - start) div ns_per_sec"
  have s: "?s * ns_per_sec \<le> ?t" "?t < (?s + 1) * ns_per_sec" "0 \<le> ?s"
    using assms by (simp_all add: ns_per_sec_def)
  have e: "num_seconds ?t = ?s" using assms by (simp add: num_seconds_def)
  let ?m = "?s div 60"
  have m: "0 \<le> ?m" using s(3) by simp
  note d = div_hours_days [of ?s]
  have u: "uptime start now = (?m div 60 div 24, ?m div 60 mod 24, ?m mod 60)"
    using s(3) m by (simp add: uptime_def e quot_def rust_rem_def Let_def d minus_mult_div_eq_mod)
  have eq: "(?m div 60 div 24 * 24 + ?m div 60 mod 24) * 60 + ?m mod 60 = ?m" by simp
  have bounds: "?m * 60 * ns_per_sec \<le> ?t" "?t < (?m + 1) * 60 * ns_per_sec"
  proof -
    have "?m * 60 \<le> ?s" "?s + 1 \<le> (?m + 1) * 60" using s(3) by simp_all
    then have "?m * 60 * ns_per_sec \<le> ?s * ns_per_sec" "(?s + 1) * ns_per_sec \<le> (?m + 1) * 60 * ns_per_sec"
      by (intro mult_right_mono; simp add: ns_per_sec_def)+
    with s(1,2) show "?m * 60 * ns_per_sec \<le> ?t" "?t < (?m + 1) * 60 * ns_per_sec" by linarith+
  qed
  have "0 \<le> ?m div 60 div 24" using m by (simp add: pos_imp_zdiv_nonneg_iff)
  then show ?thesis unfolding u prod.case eq by (intro conjI bounds pos_mod_bound pos_mod_sign) simp_all
qed

theorem uptime_spec_witness: "uptime 0 (90061 * ns_per_sec) = (1, 1, 1)"
  using uptime_spec [of 0 "90061 * ns_per_sec"]
  by (simp add: uptime_def num_seconds_def quot_def rust_rem_def ns_per_sec_def)
end
