(* ===== verification/AccountMachine.thy ===== *)
theory AccountMachine
  imports UserAccount
begin

text \<open>
  What the pages of \<open>user_account.rs\<close> promise a user, as two machines that say nothing of session keys and
  values. A visitor (\<open>visitor_step\<close>) is the address and the name the pages show it and the account it is signed in
  with; writes of the session may fail, so the three may disagree. Where every write succeeds a browser is simply a
  stranger or the member of one Google account (\<open>account_step\<close>). The handlers refine the first machine always, the second
  one as long as the session can be written.
\<close>

section \<open>The machine\<close>

datatype account = Stranger | Member (member_email: string) (member_name: string)

text \<open>The user Google vouches for in a callback, or the page that tells the first stage that failed.\<close>

definition google_user :: "rq_core_config \<Rightarrow> google_world \<Rightarrow> http_request \<Rightarrow> http_response + (string \<times> string)" where
  "google_user cfg g req =
     (case hr_query req ''code'' of
        None \<Rightarrow> Inl \<lparr>status = 400, headers = [(''content-type'', ''text/plain'')], body = ''Missing authorization code''\<rparr>
      | Some code \<Rightarrow>
        (case get_google_oauth_config cfg req of
           Inl resp \<Rightarrow> Inl resp
         | Inr (client_id, client_secret) \<Rightarrow>
           (case google_token g [(''code'', code), (''client_id'', client_id), (''client_secret'', client_secret),
                (''redirect_uri'', get_google_redirect_uri req), (''grant_type'', ''authorization_code'')] of
              NotSent \<Rightarrow> Inl (response 500 ''Token exchange failed'')
            | Unparsed \<Rightarrow> Inl (response 500 ''Token parsing failed'')
            | Answer token \<Rightarrow>
              (case google_userinfo g token of
                 NotSent \<Rightarrow> Inl (response 500 ''Failed to fetch user info'')
               | Unparsed \<Rightarrow> Inl (response 500 ''Failed to parse user info'')
               | Answer user \<Rightarrow> Inr user))))"

definition start_page :: "static_pages \<Rightarrow> string set \<Rightarrow> http_request \<Rightarrow> account \<Rightarrow> http_response" where
  "start_page pages auth req a =
     (let taconite = str_contains ''thetaconite.com'' (hr_host req)
      in html_page (case a of
           Stranger \<Rightarrow> if taconite then taconite_nouser pages else rqcore_nouser pages
         | Member e _ \<Rightarrow>
             if e \<in> auth then str_replace ''{{USER_EMAIL}}'' e (if taconite then taconite_index pages else rqcore_index pages)
             else str_replace ''{email}'' e unauthorized_index))"

fun account_step :: "percent_lib \<Rightarrow> rq_core_config \<Rightarrow> static_pages \<Rightarrow> string set \<Rightarrow> web_event \<Rightarrow> account
    \<Rightarrow> http_response \<times> account" where
  "account_step L cfg pages auth (Login req) a =
     (case (a, get_google_oauth_config cfg req) of
        (Stranger, Inl resp) \<Rightarrow> resp
      | (Stranger, Inr (client_id, _)) \<Rightarrow> found [(''clear-site-data'', ''\"cache\"''),
          (''Location'', google_auth_url L client_id (get_google_redirect_uri req) (return_url_of req))]
      | (Member _ _, _) \<Rightarrow> found [(''Location'', return_url_of req)], a)"
| "account_step L cfg pages auth (Callback g req) a =
     (case google_user cfg g req of
        Inl resp \<Rightarrow> (resp, a)
      | Inr (e, n) \<Rightarrow> (found [(''location'', callback_redirect L req)], Member e n))"
| "account_step L cfg pages auth Logout a =
     (found [(''clear-site-data'', ''\"cache\", \"cookies\", \"storage\"''), (''location'', ''/'')], Stranger)"
| "account_step L cfg pages auth UserInfo a =
     (case a of
        Stranger \<Rightarrow> response 401 ''Not logged in''
      | Member e n \<Rightarrow> html_page (''<h2>Hello, '' @ n @ ''!</h2><p>Email: '' @ e @
          ''</p><a href=\"/useraccount/logout\">Logout</a>''), a)"
| "account_step L cfg pages auth AuthorizedSample a =
     (case a of
        Stranger \<Rightarrow> response 401 ''Login required''
      | Member e _ \<Rightarrow> if e \<in> auth then response 200 (''Welcome, authorized user: '' @ e)
          else response 403 (''Access denied: '' @ e), a)"
| "account_step L cfg pages auth (RootIndex req) a = (start_page pages auth req a, a)"

section \<open>The handlers refine it\<close>

text \<open>The session of a member; the events whose session can be written.\<close>

fun session_of :: "account \<Rightarrow> web_session" where
  "session_of Stranger = new_session"
| "session_of (Member e n) = \<lparr>ws_values = [''user_email'' \<mapsto> SessionString e, ''user_name'' \<mapsto> SessionString n],
     ws_identity = Some (Identity (Some e))\<rparr>"

fun storable :: "web_event \<Rightarrow> bool" where
  "storable (Callback g req) \<longleftrightarrow> insert_ok g ''user_email'' \<and> insert_ok g ''user_name'' \<and> identity_ok g"
| "storable _ \<longleftrightarrow> True"

lemma google_callback_user:
  "google_callback L cfg g req s = (case google_user cfg g req of Inl resp \<Rightarrow> (resp, s) | Inr user \<Rightarrow> finish_login L g req user s)"
  by (simp add: google_callback_def google_user_def split: option.split sum.split http_call.split)

lemma new_session_simps [simp]: "ws_values new_session = Map.empty" "ws_identity new_session = None"
  by (simp_all add: new_session_def)

lemma session_get_of [simp]:
  "session_get (session_of Stranger) k = Inr None"
  "session_get (session_of (Member e n)) ''user_email'' = Inr (Some e)"
  "session_get (session_of (Member e n)) ''user_name'' = Inr (Some n)"
  by (simp_all add: session_get_def new_session_def)

lemma ws_identity_of [simp]:
  "ws_identity (session_of a) = (case a of Stranger \<Rightarrow> None | Member e _ \<Rightarrow> Some (Identity (Some e)))"
  by (cases a) (simp_all add: new_session_def)

lemma finish_login_of:
  "storable (Callback g req) \<Longrightarrow>
     finish_login L g req (e, n) (session_of a) = (found [(''location'', callback_redirect L req)], session_of (Member e n))"
  by (cases a) (simp_all add: finish_login_def session_insert_def new_session_def fun_eq_iff)

lemma logout_of: "snd (logout s) = session_of Stranger"
  by (simp add: logout_def session_clear_def new_session_def Let_def)

lemma web_step_of:
  assumes "storable ev"
  shows "web_step L cfg pages auth ev (session_of a) = map_prod id session_of (account_step L cfg pages auth ev a)"
proof (cases ev)
  case (Login req)
  then show ?thesis by (cases a) (simp_all add: login_def del: session_of.simps split: sum.split prod.split)
next
  case (Callback g req)
  then show ?thesis using assms
    by (simp add: google_callback_user finish_login_of del: storable.simps split: sum.split prod.split)
next
  case Logout
  then show ?thesis using logout_of [of "session_of a"] by (simp add: prod_eq_iff logout_def Let_def)
next
  case UserInfo
  then show ?thesis by (cases a) (simp_all add: user_infor_def del: session_of.simps)
next
  case AuthorizedSample
  then show ?thesis by (cases a) (simp_all add: authorized_sample_def del: session_of.simps)
next
  case (RootIndex req)
  then show ?thesis by (cases a) (simp_all add: root_index_def start_page_def Let_def del: session_of.simps)
qed

interpretation account: simulation "web_step L cfg pages auth" "account_step L cfg pages auth" session_of storable
  for L cfg pages auth
  by unfold_locales (rule web_step_of)

section \<open>Visitors\<close>

record visitor =
  seen_email :: "string option"
  seen_name :: "string option"
  signed_in :: "string option"

definition nobody :: visitor where
  "nobody = \<lparr>seen_email = None, seen_name = None, signed_in = None\<rparr>"

definition welcome_page :: "static_pages \<Rightarrow> string set \<Rightarrow> http_request \<Rightarrow> visitor \<Rightarrow> http_response" where
  "welcome_page pages auth req v =
     (let taconite = str_contains ''thetaconite.com'' (hr_host req)
      in case (signed_in v, seen_email v) of
           (None, _) \<Rightarrow> html_page (if taconite then taconite_nouser pages else rqcore_nouser pages)
         | (Some _, None) \<Rightarrow> response 401 ''Login required''
         | (Some _, Some e) \<Rightarrow> html_page
             (if e \<in> auth then str_replace ''{{USER_EMAIL}}'' e (if taconite then taconite_index pages else rqcore_index pages)
              else str_replace ''{email}'' e unauthorized_index))"

text \<open>
  A callback shows what could be written and signs in last; when the identity cannot be written, it answers with an
  error page and what it shows stays.
\<close>

fun visitor_step :: "percent_lib \<Rightarrow> rq_core_config \<Rightarrow> static_pages \<Rightarrow> string set \<Rightarrow> web_event \<Rightarrow> visitor
    \<Rightarrow> http_response \<times> visitor" where
  "visitor_step L cfg pages auth (Login req) v =
     (if signed_in v \<noteq> None then found [(''Location'', return_url_of req)]
      else case get_google_oauth_config cfg req of
          Inl resp \<Rightarrow> resp
        | Inr (client_id, _) \<Rightarrow> found [(''clear-site-data'', ''\"cache\"''),
            (''Location'', google_auth_url L client_id (get_google_redirect_uri req) (return_url_of req))], v)"
| "visitor_step L cfg pages auth (Callback g req) v =
     (case google_user cfg g req of
        Inl resp \<Rightarrow> (resp, v)
      | Inr (e, n) \<Rightarrow>
          (let v = (if insert_ok g ''user_email'' then v\<lparr>seen_email := Some e\<rparr> else v);
               v = (if insert_ok g ''user_name'' then v\<lparr>seen_name := Some n\<rparr> else v)
           in if identity_ok g then (found [(''location'', callback_redirect L req)], v\<lparr>signed_in := Some e\<rparr>)
              else (response 500 ''Login failed'', v)))"
| "visitor_step L cfg pages auth Logout v =
     (found [(''clear-site-data'', ''\"cache\", \"cookies\", \"storage\"''), (''location'', ''/'')], nobody)"
| "visitor_step L cfg pages auth UserInfo v =
     (case seen_email v of
        None \<Rightarrow> response 401 ''Not logged in''
      | Some e \<Rightarrow> html_page (''<h2>Hello, '' @ (case seen_name v of None \<Rightarrow> ''User'' | Some n \<Rightarrow> n) @ ''!</h2><p>Email: '' @ e @
          ''</p><a href=\"/useraccount/logout\">Logout</a>''), v)"
| "visitor_step L cfg pages auth AuthorizedSample v =
     (case seen_email v of
        None \<Rightarrow> response 401 ''Login required''
      | Some e \<Rightarrow> if e \<in> auth then response 200 (''Welcome, authorized user: '' @ e)
          else response 403 (''Access denied: '' @ e), v)"
| "visitor_step L cfg pages auth (RootIndex req) v = (welcome_page pages auth req v, v)"

definition visitor_session :: "visitor \<Rightarrow> web_session" where
  "visitor_session v = \<lparr>ws_values = (\<lambda>k. if k = ''user_email'' then map_option SessionString (seen_email v)
       else if k = ''user_name'' then map_option SessionString (seen_name v) else None),
     ws_identity = map_option (\<lambda>e. Identity (Some e)) (signed_in v)\<rparr>"

lemma visitor_session_get [simp]:
  "session_get (visitor_session v) ''user_email'' = Inr (seen_email v)"
  "session_get (visitor_session v) ''user_name'' = Inr (seen_name v)"
  "ws_identity (visitor_session v) = map_option (\<lambda>e. Identity (Some e)) (signed_in v)"
  by (simp_all add: session_get_def visitor_session_def split: option.split)

lemma visitor_session_nobody: "visitor_session nobody = new_session"
  by (simp add: visitor_session_def nobody_def new_session_def fun_eq_iff)

lemma visitor_session_insert:
  "session_insert ok ''user_email'' e (visitor_session v) = visitor_session (if ok then v\<lparr>seen_email := Some e\<rparr> else v)"
  "session_insert ok ''user_name'' n (visitor_session v) = visitor_session (if ok then v\<lparr>seen_name := Some n\<rparr> else v)"
  "(visitor_session v)\<lparr>ws_identity := Some (Identity (Some e))\<rparr> = visitor_session (v\<lparr>signed_in := Some e\<rparr>)"
  by (simp_all add: session_insert_def visitor_session_def fun_eq_iff)

lemma finish_login_visitor:
  "finish_login L g req (e, n) (visitor_session v) =
     (let v = (if insert_ok g ''user_email'' then v\<lparr>seen_email := Some e\<rparr> else v);
          v = (if insert_ok g ''user_name'' then v\<lparr>seen_name := Some n\<rparr> else v)
      in if identity_ok g then (found [(''location'', callback_redirect L req)], visitor_session (v\<lparr>signed_in := Some e\<rparr>))
         else (response 500 ''Login failed'', visitor_session v))"
  by (simp add: finish_login_def visitor_session_insert Let_def)

lemma web_step_visitor:
  "web_step L cfg pages auth ev (visitor_session v) = map_prod id visitor_session (visitor_step L cfg pages auth ev v)"
proof (cases ev)
  case (Login req)
  then show ?thesis by (cases "signed_in v") (simp_all add: login_def split: sum.split prod.split)
next
  case (Callback g req)
  then show ?thesis
    by (simp add: google_callback_user finish_login_visitor Let_def split: sum.split prod.split)
next
  case Logout
  then show ?thesis using logout_of [of "visitor_session v"] by (simp add: prod_eq_iff logout_def Let_def visitor_session_nobody)
next
  case UserInfo
  then show ?thesis by (cases "seen_email v"; cases "seen_name v") (simp_all add: user_infor_def)
next
  case AuthorizedSample
  then show ?thesis by (cases "seen_email v") (simp_all add: authorized_sample_def)
next
  case (RootIndex req)
  then show ?thesis
    by (cases "signed_in v"; cases "seen_email v") (simp_all add: root_index_def welcome_page_def Let_def)
qed

interpretation visitors: simulation "web_step L cfg pages auth" "visitor_step L cfg pages auth" visitor_session "\<lambda>_. True"
  for L cfg pages auth
  by unfold_locales (rule web_step_visitor)

section \<open>Properties\<close>

text \<open>C23: Any sequence of a browser's requests, from a new session on and whatever writes of the session fail, is
  answered as the machine of visitors answers it, request by request, and leaves the session of the machine's state; when
  the session can be written whenever Google vouches for a user, it is answered as the machine of strangers and members
  answers it, and leaves that machine's session.\<close>

theorem account_refinement:
  "run_events (web_step L cfg pages auth) evs new_session =
     map_prod id visitor_session (run_events (visitor_step L cfg pages auth) evs nobody) \<and>
   (list_all storable evs \<longrightarrow>
     run_events (web_step L cfg pages auth) evs new_session =
       map_prod id session_of (run_events (account_step L cfg pages auth) evs Stranger))"
  using visitors.run_rep [of evs L cfg pages auth nobody] account.run_rep [of evs L cfg pages auth Stranger]
  by (simp add: visitor_session_nobody list_all_iff)

definition demo_google :: google_world where
  "demo_google = \<lparr>google_token = (\<lambda>_. Answer ''token''), google_userinfo = (\<lambda>_. Answer (''me@x.com'', ''Me'')),
     insert_ok = (\<lambda>_. True), identity_ok = True\<rparr>"

definition demo_pages :: static_pages where
  "demo_pages = \<lparr>rqcore_index = ''Hi {{USER_EMAIL}}'', rqcore_nouser = ''Login'', taconite_index = ''T'', taconite_nouser = ''L''\<rparr>"

theorem account_refinement_witness:
  "map status (fst (run_events (web_step rfc3986 demo_google_config demo_pages {''me@x.com''})
     [AuthorizedSample, Callback demo_google (demo_request [''code'' \<mapsto> ''4'']), AuthorizedSample, Logout, AuthorizedSample]
     new_session)) = [401, 302, 200, 302, 401]"
proof -
  let ?evs = "[AuthorizedSample, Callback demo_google (demo_request [''code'' \<mapsto> ''4'']), AuthorizedSample, Logout, AuthorizedSample]"
  have c: "get_google_oauth_config demo_google_config (demo_request [''code'' \<mapsto> ''4'']) = Inr (''id'', ''secret'')"
    by (simp add: get_google_oauth_config_def demo_google_config_def demo_request_def str_contains_def sublist_Cons_right)
  then have u: "google_user demo_google_config demo_google (demo_request [''code'' \<mapsto> ''4'']) = Inr (''me@x.com'', ''Me'')"
    by (simp add: google_user_def demo_google_def) (simp add: demo_request_def)
  have "list_all storable ?evs" by (simp add: demo_google_def)
  with account_refinement [of rfc3986 demo_google_config demo_pages "{''me@x.com''}" ?evs]
  have "run_events (web_step rfc3986 demo_google_config demo_pages {''me@x.com''}) ?evs new_session =
    map_prod id session_of (run_events (account_step rfc3986 demo_google_config demo_pages {''me@x.com''}) ?evs Stranger)" by blast
  then show ?thesis by (simp add: u response_def found_def)
qed

text \<open>A callback writes the address into the session before the identity, and a failure of the identity does
  not take it back: the answer is an error page, yet the next request is welcomed as authorized, while the start page and
  the login still treat the browser as a stranger.\<close>

theorem failed_login_keeps_user:
  assumes "google_user cfg g req = Inr (e, n)" and "insert_ok g ''user_email''" and "\<not> identity_ok g" and "e \<in> auth"
  shows "fst (google_callback L cfg g req new_session) = response 500 ''Login failed'' \<and>
    authorized_sample auth (snd (google_callback L cfg g req new_session)) = response 200 (''Welcome, authorized user: '' @ e) \<and>
    root_index pages auth req (snd (google_callback L cfg g req new_session)) = start_page pages auth req Stranger"
  using assms
  by (simp add: google_callback_user finish_login_def session_insert_def new_session_def authorized_sample_def session_get_def
      root_index_def start_page_def Let_def)

theorem failed_login_keeps_user_witness:
  "fst (google_callback rfc3986 demo_google_config (demo_google\<lparr>identity_ok := False\<rparr>) (demo_request [''code'' \<mapsto> ''4'']) new_session) =
     response 500 ''Login failed''"
proof -
  have c: "get_google_oauth_config demo_google_config (demo_request [''code'' \<mapsto> ''4'']) = Inr (''id'', ''secret'')"
    by (simp add: get_google_oauth_config_def demo_google_config_def demo_request_def str_contains_def sublist_Cons_right)
  then have "google_user demo_google_config (demo_google\<lparr>identity_ok := False\<rparr>) (demo_request [''code'' \<mapsto> ''4'']) = Inr (''me@x.com'', ''Me'')"
    by (simp add: google_user_def demo_google_def) (simp add: demo_request_def)
  from failed_login_keeps_user [OF this, of "{''me@x.com''}"] show ?thesis by (simp add: demo_google_def)
qed
end
