(* ===== verification/WebSockets.thy ===== *)
theory WebSockets
  imports UserAccount
begin

text \<open>
  The two websocket endpoints, \<open>webapps/robotrader_ui/robotrader_ui.rs\<close> and
  \<open>webapps/test_websocket/test_ws.rs\<close>. A connection is the list of the client's messages until the
  stream ends; \<open>ok n\<close> tells whether the \<open>n\<close>-th message of the server could be sent. The JSON parser is a
  parameter: \<open>parse text\<close> is \<open>None\<close> for invalid JSON, else what \<open>["type"].as_str()\<close> gives. The
  server's JSON messages are the datatype \<open>server_msg\<close>.
\<close>

datatype 'r client_msg =
    Text string
  | Close 'r
  | OtherMsg
  | WsError

datatype 'r server_msg =
    OnConnected string
  | ErrorMsg string
  | ExecutedOrders "(string \<times> nat) list"
  | Plain string
  | CloseMsg 'r

section \<open>\<open>robotrader_websocket\<close>\<close>

definition executed_orders :: "(string \<times> nat) list" where
  "executed_orders = [(''AAPL'', 190), (''TSLA'', 220)]"

definition unwrap_or_empty :: "string option \<Rightarrow> string" where
  "unwrap_or_empty r = (case r of Some t \<Rightarrow> t | None \<Rightarrow> [])"

text \<open>The messages sent; whether the client received them is \<open>ok\<close>.\<close>

fun robotrader_loop :: "(string \<Rightarrow> string option option) \<Rightarrow> (nat \<Rightarrow> bool) \<Rightarrow> 'r client_msg list \<Rightarrow> 'r server_msg list
    \<Rightarrow> 'r server_msg list" where
  "robotrader_loop parse ok [] sent = sent"
| "robotrader_loop parse ok (Text text # msgs) sent =
     (case parse text of
        None \<Rightarrow> robotrader_loop parse ok msgs (sent @ [ErrorMsg ''Invalid JSON format''])
      | Some r \<Rightarrow>
          (let request_type = unwrap_or_empty r
           in if request_type = ''getexecutedorders'' then
                (if \<not> ok (length sent) then sent @ [ExecutedOrders executed_orders]
                 else robotrader_loop parse ok msgs (sent @ [ExecutedOrders executed_orders]))
              else robotrader_loop parse ok msgs (sent @ [ErrorMsg (''Unknown command: '' @ request_type)])))"
| "robotrader_loop parse ok (Close reason # msgs) sent = sent @ [CloseMsg reason]"
| "robotrader_loop parse ok (WsError # msgs) sent = sent"
| "robotrader_loop parse ok (OtherMsg # msgs) sent = robotrader_loop parse ok msgs sent"

definition robotrader_websocket :: "(string \<Rightarrow> string option option) \<Rightarrow> (nat \<Rightarrow> bool) \<Rightarrow> identity option
    \<Rightarrow> 'r client_msg list \<Rightarrow> 'r server_msg list" where
  "robotrader_websocket parse ok identity msgs =
     (let user_email = (case Option.bind identity identity_id of Some e \<Rightarrow> e | None \<Rightarrow> ''anonymous'')
      in robotrader_loop parse ok msgs [OnConnected user_email])"

section \<open>\<open>test_websocket_middleware\<close>\<close>

fun test_loop :: "(nat \<Rightarrow> bool) \<Rightarrow> 'r client_msg list \<Rightarrow> 'r server_msg list \<Rightarrow> 'r server_msg list" where
  "test_loop ok [] sent = sent"
| "test_loop ok (Text text # msgs) sent =
     (let sent' = sent @ [Plain (text @ '' from Server'')]
      in if \<not> ok (length sent) then sent' else test_loop ok msgs sent')"
| "test_loop ok (Close reason # msgs) sent = sent @ [CloseMsg reason]"
| "test_loop ok (WsError # msgs) sent = sent"
| "test_loop ok (OtherMsg # msgs) sent = sent"

definition test_websocket_middleware :: "(nat \<Rightarrow> bool) \<Rightarrow> 'r client_msg list \<Rightarrow> 'r server_msg list" where
  "test_websocket_middleware ok msgs = test_loop ok msgs
     [Plain ''Example string sent from Server immediately at WebSocket connection acceptance.'']"

section \<open>The protocol\<close>

text \<open>What the trader's endpoint answers to a text, and to a client's messages up to a close or an error.\<close>

definition robotrader_answer :: "(string \<Rightarrow> string option option) \<Rightarrow> string \<Rightarrow> 'r server_msg" where
  "robotrader_answer parse text =
     (case parse text of None \<Rightarrow> ErrorMsg ''Invalid JSON format''
      | Some r \<Rightarrow> if r = Some ''getexecutedorders'' then ExecutedOrders executed_orders
          else ErrorMsg (''Unknown command: '' @ unwrap_or_empty r))"

definition is_end :: "'r client_msg \<Rightarrow> bool" where
  "is_end m = (case m of Close _ \<Rightarrow> True | WsError \<Rightarrow> True | _ \<Rightarrow> False)"

definition answers :: "(string \<Rightarrow> string option option) \<Rightarrow> 'r client_msg list \<Rightarrow> 'r server_msg list" where
  "answers parse msgs = List.map_filter (\<lambda>m. case m of Text t \<Rightarrow> Some (robotrader_answer parse t) | _ \<Rightarrow> None)
     (takeWhile (\<lambda>m. \<not> is_end m) msgs) @
     (case dropWhile (\<lambda>m. \<not> is_end m) msgs of Close r # _ \<Rightarrow> [CloseMsg r] | _ \<Rightarrow> [])"

lemma answers_simps:
  "answers parse [] = []"
  "answers parse (Text t # msgs) = robotrader_answer parse t # answers parse msgs"
  "answers parse (OtherMsg # msgs) = answers parse msgs"
  "answers parse (Close r # msgs) = [CloseMsg r]"
  "answers parse (WsError # msgs) = []"
  by (simp_all add: answers_def List.map_filter_def is_end_def)

lemma robotrader_answer_simps:
  "parse t = None \<Longrightarrow> robotrader_answer parse t = ErrorMsg ''Invalid JSON format''"
  "parse t = Some r \<Longrightarrow> robotrader_answer parse t =
     (if unwrap_or_empty r = ''getexecutedorders'' then ExecutedOrders executed_orders
      else ErrorMsg (''Unknown command: '' @ unwrap_or_empty r))"
  by (auto simp: robotrader_answer_def unwrap_or_empty_def split: option.split)

lemma robotrader_loop_all:
  "(\<And>i. ok i) \<Longrightarrow> robotrader_loop parse ok msgs sent = sent @ answers parse msgs"
  by (induction parse ok msgs sent rule: robotrader_loop.induct)
    (auto simp: answers_simps robotrader_answer_simps Let_def split: option.splits)

lemma robotrader_loop_prefix: "\<exists>n. robotrader_loop parse ok msgs sent = sent @ take n (answers parse msgs)"
proof (induction msgs arbitrary: sent)
  case Nil
  then show ?case by simp
next
  case (Cons m msgs)
  show ?case
  proof (cases m)
    case (Text t)
    let ?a = "robotrader_answer parse t"
    obtain n where "robotrader_loop parse ok msgs (sent @ [?a]) = (sent @ [?a]) @ take n (answers parse msgs)"
      using Cons by blast
    then have more: "robotrader_loop parse ok msgs (sent @ [?a]) = sent @ take (Suc n) (answers parse (m # msgs))"
      by (simp add: Text answers_simps)
    have stop: "sent @ [?a] = sent @ take 1 (answers parse (m # msgs))" by (simp add: Text answers_simps)
    have "robotrader_loop parse ok (m # msgs) sent \<in> {robotrader_loop parse ok msgs (sent @ [?a]), sent @ [?a]}"
      by (cases "parse t") (auto simp: Text robotrader_answer_simps Let_def)
    then show ?thesis using more stop by force
  next
    case (Close r)
    show ?thesis by (rule exI [of _ 1]) (simp add: Close answers_simps)
  qed (use Cons in \<open>simp_all add: answers_simps\<close>)
qed

lemma test_loop_prefix:
  "\<exists>n. test_loop ok msgs sent = sent @ take n (map (\<lambda>m. case m of Text t \<Rightarrow> Plain (t @ '' from Server'')
     | Close r \<Rightarrow> CloseMsg r | _ \<Rightarrow> Plain []) msgs)"
proof (induction ok msgs sent rule: test_loop.induct)
  case (2 ok t msgs sent)
  let ?s = "sent @ [Plain (t @ '' from Server'')]"
  show ?case
  proof (cases "ok (length sent)")
    case True
    then have "\<exists>n. test_loop ok msgs ?s = ?s @ take n (map (\<lambda>m. case m of Text t \<Rightarrow> Plain (t @ '' from Server'')
       | Close r \<Rightarrow> CloseMsg r | _ \<Rightarrow> Plain []) msgs)" using 2 by simp
    then obtain n where "test_loop ok msgs ?s = ?s @ take n (map (\<lambda>m. case m of Text t \<Rightarrow> Plain (t @ '' from Server'')
       | Close r \<Rightarrow> CloseMsg r | _ \<Rightarrow> Plain []) msgs)" by blast
    with True show ?thesis by (intro exI [of _ "Suc n"]) simp
  next
    case False
    then show ?thesis by (intro exI [of _ 1]) simp
  qed
qed (auto intro: exI [of _ 1] exI [of _ 0])

section \<open>Properties\<close>

text \<open>C33: The trader's endpoint first tells the client who it is, \<open>anonymous\<close> without
  an identity, then answers each text once and in order up to a close, which it echoes, or an error; when
  sends fail it sends a prefix of that. It needs no identity: everybody gets the executed orders.\<close>

theorem websocket_protocol:
  fixes parse ok identity msgs
  defines "who \<equiv> (case Option.bind identity identity_id of Some e \<Rightarrow> e | None \<Rightarrow> ''anonymous'')"
  shows "\<exists>n. robotrader_websocket parse ok identity msgs = OnConnected who # take n (answers parse msgs) \<and>
    robotrader_websocket parse (\<lambda>_. True) identity msgs = OnConnected who # answers parse msgs"
  using robotrader_loop_prefix [of parse ok msgs "[OnConnected who]"]
    robotrader_loop_all [of "\<lambda>_. True" parse msgs "[OnConnected who]"]
  by (auto simp: robotrader_websocket_def who_def)
end
