(* ===== verification/WebApp.thy ===== *)
theory WebApp
  imports WebServer AccountMachine WebSockets
begin

text \<open>
  The application of \<open>main_web.rs\<close>: the services in the order they are registered, the middlewares around
  them, and the server's state over time: the session cookie of each browser, the shared request log and the
  websocket conversations.
  The static files (\<open>actix_files\<close>) and the handshake of a websocket (\<open>actix_ws::handle\<close>) are parameters. A request is
  one step here; requests that overlap are logged in the order they end, and a conversation is recorded whole with the
  request that opens it. The middleware \<open>Compress\<close>, which refuses or re-encodes some answers, is left out.
\<close>

section \<open>The session cookie\<close>

text \<open>
  \<open>SessionMiddleware::builder(..)\<close>: the whole session is in the cookie, encrypted with a key of the program.
  \<open>Key::from\<close> panics on fewer than 64 bytes, in the factory every worker of the server calls; the key has 74.
\<close>

datatype same_site = Strict | Lax | NoSameSite

record session_cookie =
  sc_key :: string
  sc_name :: string
  sc_ttl_days :: nat
  sc_secure :: bool
  sc_http_only :: bool
  sc_same_site :: same_site
  sc_domain :: "string option"

definition cookie_encrypt_secret_key :: string where
  "cookie_encrypt_secret_key = ''A key that is long enough (64 bytes) to encrypt the session cookie content''"

definition cookie_key :: "string \<Rightarrow> string outcome" where
  "cookie_key bytes = (if length bytes < 64 then Inl (Panic ''called Result::unwrap() on an Err value'') else Inr bytes)"

definition session_middleware :: "string \<Rightarrow> session_cookie outcome" where
  "session_middleware secret =
     bind_out (cookie_key secret) (\<lambda>key.
       Inr \<lparr>sc_key = key, sc_name = ''session'', sc_ttl_days = 365, sc_secure = True, sc_http_only = True,
         sc_same_site = NoSameSite, sc_domain = None\<rparr>)"

text \<open>Browsers take a cookie without \<open>SameSite\<close> only if it is secure.\<close>

lemma session_cookie_accepted:
  "\<exists>c. session_middleware cookie_encrypt_secret_key = Inr c \<and> 64 \<le> length (sc_key c) \<and>
     (sc_same_site c = NoSameSite \<longrightarrow> sc_secure c)"
  by (simp add: session_middleware_def cookie_key_def cookie_encrypt_secret_key_def)

section \<open>Requests and services\<close>

text \<open>
  \<open>ar_google\<close> is what Google answers while the request is handled, \<open>ar_now\<close> the time. \<open>ar_ws_msgs\<close> are the messages
  the client sends on a websocket the request opens, \<open>ar_ws_ok\<close> tells which of the server's could be sent.
\<close>

record app_request =
  ar_info :: request_info
  ar_http :: http_request
  ar_uri_host :: "string option"
  ar_host_header :: "string option"
  ar_google :: google_world
  ar_now :: instant
  ar_ws_ok :: "nat \<Rightarrow> bool"
  ar_ws_msgs :: "string client_msg list"

datatype app_service =
    CacheBust
  | UserPage web_event
  | Ping
  | Diagnostics
  | ActivityLog
  | TestWebsocket
  | RobotraderWebsocket
  | StaticFiles string

text \<open>The services registered with a path of their own, all of them for GET.\<close>

definition app_routes :: "(string \<times> (app_request \<Rightarrow> app_service)) list" where
  "app_routes = [
     (''/browser_domain_cache_bust_header'', \<lambda>_. CacheBust),
     (''/useraccount/login'', \<lambda>req. UserPage (Login (ar_http req))),
     (''/useraccount/login/callback'', \<lambda>req. UserPage (Callback (ar_google req) (ar_http req))),
     (''/useraccount/logout'', \<lambda>_. UserPage Logout),
     (''/useraccount/userinfo'', \<lambda>_. UserPage UserInfo),
     (''/useraccount/authorized_sample'', \<lambda>_. UserPage AuthorizedSample),
     (''/'', \<lambda>req. UserPage (RootIndex (ar_http req))),
     (''/webserver/ping'', \<lambda>_. Ping),
     (''/serverdiagnostics'', \<lambda>_. Diagnostics),
     (''/httprequestactivitylog'', \<lambda>_. ActivityLog),
     (''/ws/test_websocket'', \<lambda>_. TestWebsocket),
     (''/ws/robotrader_websocket'', \<lambda>_. RobotraderWebsocket)]"

text \<open>The first service whose path and method match, else the files of the site.\<close>

definition app_service_of :: "app_request \<Rightarrow> app_service" where
  "app_service_of req =
     (case (if ri_method (ar_info req) = ''GET'' then map_of app_routes (ri_path (ar_info req)) else None) of
        Some service \<Rightarrow> service req
      | None \<Rightarrow> StaticFiles (static_folder (ar_uri_host req) (ar_host_header req)))"

section \<open>The application\<close>

record web_site =
  site_percent :: percent_lib
  site_config :: rq_core_config
  site_pages :: static_pages
  site_users :: "string set option"

text \<open>
  What is fixed while the server runs; \<open>app_gateways\<close> are the broker gateways the diagnostics show, \<open>app_ws\<close> the
  handshake and \<open>app_parse_json\<close> the JSON parser of the websockets.
\<close>

record ('c, 'x) web_app =
  app_site :: web_site
  app_parse_ip :: "string \<Rightarrow> string option"
  app_fmt_time :: "instant \<Rightarrow> string"
  app_fmt_date :: "instant \<Rightarrow> string"
  app_start :: "instant option"
  app_cpus :: nat
  app_pid :: nat
  app_gateways :: "(broker_client \<times> 'c gateway) list mutex"
  app_files :: "string \<Rightarrow> app_request \<Rightarrow> 'x + http_response"
  app_ws :: "app_request \<Rightarrow> 'x + http_response"
  app_parse_json :: "string \<Rightarrow> string option option"

definition page_step :: "('c, 'x) web_app \<Rightarrow> web_event \<Rightarrow> web_session \<Rightarrow> http_response \<times> web_session" where
  "page_step W = web_step (site_percent (app_site W)) (site_config (app_site W)) (site_pages (app_site W))
     (get_authorized_users (site_users (app_site W)))"

text \<open>What the service answers: a panic, an error or a response, and the session it leaves.\<close>

definition app_service :: "('c, 'x) web_app \<Rightarrow> app_request \<Rightarrow> http_request_log list option \<Rightarrow> web_session
    \<Rightarrow> (('x + http_response) \<times> web_session) outcome" where
  "app_service W req logs s =
     (case app_service_of req of
        CacheBust \<Rightarrow> Inr (Inr browser_domain_cache_bust_header, s)
      | UserPage ev \<Rightarrow> (case page_step W ev s of (resp, s) \<Rightarrow> Inr (Inr resp, s))
      | Ping \<Rightarrow> Inr (Inr (webserver_ping (app_fmt_date W) (ar_now req)), s)
      | Diagnostics \<Rightarrow> Inr (Inr (server_diagnostics (app_fmt_date W) (app_start W) (ar_now req) (app_cpus W) (app_pid W)
          (app_gateways W)), s)
      | ActivityLog \<Rightarrow> bind_out (http_request_activity_log (app_fmt_time W) logs) (\<lambda>resp. Inr (Inr resp, s))
      | TestWebsocket \<Rightarrow> Inr (app_ws W req, s)
      | RobotraderWebsocket \<Rightarrow> Inr (app_ws W req, s)
      | StaticFiles folder \<Rightarrow> Inr (app_files W folder req, s))"

text \<open>What the server says on the websocket a request opens, if it opens one; the trader's endpoint reads the identity.\<close>

definition app_socket :: "('c, 'x) web_app \<Rightarrow> app_request \<Rightarrow> web_session \<Rightarrow> string server_msg list option" where
  "app_socket W req s =
     (if isl (app_ws W req) then None
      else case app_service_of req of
          TestWebsocket \<Rightarrow> Some (test_websocket_middleware (ar_ws_ok req) (ar_ws_msgs req))
        | RobotraderWebsocket \<Rightarrow>
            Some (robotrader_websocket (app_parse_json W) (ar_ws_ok req) (ws_identity s) (ar_ws_msgs req))
        | _ \<Rightarrow> None)"

text \<open>The sessions by browser, the log \<open>HTTP_REQUEST_LOGS\<close>, which all share, and the conversations, by browser.\<close>

record 'b app_state =
  as_sessions :: "'b \<Rightarrow> web_session"
  as_logs :: "http_request_log list option"
  as_sockets :: "('b \<times> string server_msg list) list"

text \<open>A request of browser \<open>b\<close>, from the session middleware to the handler and back.\<close>

definition app_handle :: "('c, 'x) web_app \<Rightarrow> 'b \<times> app_request \<Rightarrow> 'b app_state
    \<Rightarrow> ('x + http_response) outcome \<times> 'b app_state" where
  "app_handle W breq st =
     (case breq of (b, req) \<Rightarrow>
        let s = as_sessions st b in
        case app_service W req (as_logs st) s of
          Inl e \<Rightarrow> (Inl e, st)
        | Inr (res, s') \<Rightarrow>
            (case http_request_logger_middleware (app_parse_ip W) (ar_info req) s
                (browser_cache_control_30_days_middleware res) (as_logs st) of
              (res, logs) \<Rightarrow> (Inr res, st\<lparr>as_sessions := (as_sessions st)(b := s'), as_logs := logs,
                as_sockets := as_sockets st @ (case app_socket W req s of None \<Rightarrow> [] | Some msgs \<Rightarrow> [(b, msgs)])\<rparr>)))"

text \<open>The state \<open>actix_websrv_run\<close> starts with: the log exists and is empty, nobody has a session or a websocket.\<close>

definition app_init :: "'b app_state" where
  "app_init = \<lparr>as_sessions = (\<lambda>_. new_session), as_logs = Some [], as_sockets = []\<rparr>"

section \<open>One request\<close>

text \<open>The events a browser's requests are for the user pages.\<close>

definition own_events :: "'b \<Rightarrow> ('b \<times> app_request) list \<Rightarrow> web_event list" where
  "own_events b reqs = List.map_filter (\<lambda>(b', req).
     if b' = b then (case app_service_of req of UserPage ev \<Rightarrow> Some ev | _ \<Rightarrow> None) else None) reqs"

lemma own_events_simps [simp]:
  "own_events b [] = []"
  "own_events b (r # reqs) = (case r of (b', req) \<Rightarrow>
     if b' = b then (case app_service_of req of UserPage ev \<Rightarrow> ev # own_events b reqs | _ \<Rightarrow> own_events b reqs)
     else own_events b reqs)"
  by (simp_all add: own_events_def List.map_filter_def split: prod.split app_service.split)

lemma activity_log_Inr: "\<exists>resp. http_request_activity_log F (Some logs) = Inr resp"
  by (simp add: http_request_activity_log_def)

lemma app_service_Inr:
  assumes "as_logs st = Some logs"
  obtains res s' where "app_service W req (as_logs st) s = Inr (res, s')"
    "s' = (case app_service_of req of UserPage ev \<Rightarrow> snd (page_step W ev s) | _ \<Rightarrow> s)"
    "case app_service_of req of UserPage ev \<Rightarrow> res = Inr (fst (page_step W ev s)) | _ \<Rightarrow> True"
  using assms activity_log_Inr [of "app_fmt_time W" logs] that
  by (cases "app_service_of req") (auto simp: app_service_def split: prod.split)

lemma app_handle_state:
  assumes "as_logs st = Some (last_n 50 es)"
  shows "\<exists>res es'. app_handle W (b, req) st = (Inr res, \<lparr>as_sessions = (as_sessions st)(b :=
        case app_service_of req of UserPage ev \<Rightarrow> snd (page_step W ev (as_sessions st b)) | _ \<Rightarrow> as_sessions st b),
      as_logs = Some (last_n 50 (es @ es')),
      as_sockets = as_sockets st @ (case app_socket W req (as_sessions st b) of None \<Rightarrow> [] | Some msgs \<Rightarrow> [(b, msgs)])\<rparr>) \<and>
    (case res of Inl _ \<Rightarrow> es' = []
     | Inr resp \<Rightarrow> es' = [log_entry (app_parse_ip W) (ar_info req) (as_sessions st b) (status resp)] \<and>
         filter (\<lambda>(k, _). k = ''cache-control'') (headers resp) = [(''cache-control'', ''public, max-age=2592000'')]) \<and>
    (case app_service_of req of UserPage ev \<Rightarrow>
       res = Inr (insert_header ''cache-control'' ''public, max-age=2592000'' (fst (page_step W ev (as_sessions st b)))) | _ \<Rightarrow> True)"
proof -
  obtain res s' where a: "app_service W req (as_logs st) (as_sessions st b) = Inr (res, s')"
    "s' = (case app_service_of req of UserPage ev \<Rightarrow> snd (page_step W ev (as_sessions st b)) | _ \<Rightarrow> as_sessions st b)"
    "case app_service_of req of UserPage ev \<Rightarrow> res = Inr (fst (page_step W ev (as_sessions st b))) | _ \<Rightarrow> True"
    by (rule app_service_Inr [OF assms])
  let ?es = "\<lambda>res. case res of Inl _ \<Rightarrow> []
    | Inr resp \<Rightarrow> [log_entry (app_parse_ip W) (ar_info req) (as_sessions st b) (status resp)]"
  show ?thesis
  proof (cases res)
    case (Inl e)
    with a assms show ?thesis
      by (intro exI [of _ res] exI [of _ "[]"])
        (auto simp: app_handle_def Let_def browser_cache_control_30_days_middleware_def http_request_logger_middleware_def split: app_service.splits)
  next
    case (Inr resp)
    let ?r = "insert_header ''cache-control'' ''public, max-age=2592000'' resp"
    have "app_handle W (b, req) st = (Inr (Inr ?r), \<lparr>as_sessions = (as_sessions st)(b := s'),
        as_logs = Some (last_n 50 (es @ ?es (Inr ?r))),
        as_sockets = as_sockets st @ (case app_socket W req (as_sessions st b) of None \<Rightarrow> [] | Some msgs \<Rightarrow> [(b, msgs)])\<rparr>)"
      using a(1) assms http_logs.push_last
      by (simp add: app_handle_def Let_def Inr browser_cache_control_30_days_middleware_def http_request_logger_middleware_def)
    moreover have "filter (\<lambda>(k, _). k = ''cache-control'') (headers ?r) = [(''cache-control'', ''public, max-age=2592000'')]"
      by (auto simp: insert_header_def filter_empty_conv)
    ultimately show ?thesis using a(2,3) Inr
      by (intro exI [of _ "Inr ?r"] exI [of _ "?es (Inr ?r)"]) (auto split: app_service.splits)
  qed
qed

section \<open>Many browsers\<close>

lemma run_events_web_run:
  "snd (run_events (page_step W) evs s) = web_run (site_percent (app_site W)) (site_config (app_site W)) (site_pages (app_site W))
     (get_authorized_users (site_users (app_site W))) evs s"
  by (induction evs arbitrary: s) (simp_all add: run_events_sel page_step_def del: run_events.simps(2))

lemma app_run_sessions:
  assumes "as_logs st = Some (last_n 50 es)"
  shows "\<exists>es'. as_logs (snd (run_events (app_handle W) reqs st)) = Some (last_n 50 es') \<and>
    as_sessions (snd (run_events (app_handle W) reqs st)) b = snd (run_events (page_step W) (own_events b reqs) (as_sessions st b))"
  using assms
proof (induction reqs arbitrary: st es)
  case Nil
  then show ?case by auto
next
  case (Cons r reqs)
  obtain b' req where r: "r = (b', req)" by (cases r)
  obtain res es' where h: "app_handle W (b', req) st = (Inr res, \<lparr>as_sessions = (as_sessions st)(b' :=
        case app_service_of req of UserPage ev \<Rightarrow> snd (page_step W ev (as_sessions st b')) | _ \<Rightarrow> as_sessions st b'),
      as_logs = Some (last_n 50 (es @ es')),
      as_sockets = as_sockets st @ (case app_socket W req (as_sessions st b') of None \<Rightarrow> [] | Some msgs \<Rightarrow> [(b', msgs)])\<rparr>)" (is "_ = (_, ?st)")
    using app_handle_state [OF Cons.prems, of W b' req] by blast
  have "as_logs ?st = Some (last_n 50 (es @ es'))" by simp
  from Cons.IH [OF this] show ?case
    by (auto simp: r h run_events_sel simp del: run_events.simps(2) split: app_service.splits)
qed
lemma app_reachable:
  obtains es where "as_logs (snd (run_events (app_handle W) reqs app_init)) = Some (last_n 50 es)"
    and "as_sessions (snd (run_events (app_handle W) reqs app_init)) b = snd (run_events (page_step W) (own_events b reqs) new_session)"
  using app_run_sessions [of app_init "[]" W reqs b] by (auto simp: app_init_def last_n_def)

text \<open>The conversations of a browser are those it would have alone.\<close>

definition of_browser :: "'b \<Rightarrow> ('b \<times> 'a) list \<Rightarrow> ('b \<times> 'a) list" where
  "of_browser b xs = filter (\<lambda>(b', _). b' = b) xs"

lemma of_browser_simps [simp]:
  "of_browser b [] = []" "of_browser b (x # xs) = (if fst x = b then x # of_browser b xs else of_browser b xs)"
  "of_browser b (xs @ ys) = of_browser b xs @ of_browser b ys"
  by (simp_all add: of_browser_def split_def)

lemma app_run_sockets:
  assumes "as_logs st = Some (last_n 50 es)" and "as_logs st1 = Some (last_n 50 es1)"
    and "as_sessions st b = as_sessions st1 b" and "of_browser b (as_sockets st) = as_sockets st1"
  shows "of_browser b (as_sockets (snd (run_events (app_handle W) reqs st))) =
    as_sockets (snd (run_events (app_handle W) (of_browser b reqs) st1))"
  using assms
proof (induction reqs arbitrary: st st1 es es1)
  case Nil
  then show ?case by simp
next
  case (Cons r reqs)
  obtain b' req where r: "r = (b', req)" by (cases r)
  obtain res es' where h: "app_handle W (b', req) st = (Inr res, \<lparr>as_sessions = (as_sessions st)(b' :=
        case app_service_of req of UserPage ev \<Rightarrow> snd (page_step W ev (as_sessions st b')) | _ \<Rightarrow> as_sessions st b'),
      as_logs = Some (last_n 50 (es @ es')),
      as_sockets = as_sockets st @ (case app_socket W req (as_sessions st b') of None \<Rightarrow> [] | Some msgs \<Rightarrow> [(b', msgs)])\<rparr>)"
      (is "_ = (_, ?st)")
    using app_handle_state [OF Cons.prems(1), of W b' req] by blast
  have logs: "as_logs ?st = Some (last_n 50 (es @ es'))" by simp
  show ?case
  proof (cases "b' = b")
    case True
    obtain res1 es1' where h1: "app_handle W (b', req) st1 = (Inr res1, \<lparr>as_sessions = (as_sessions st1)(b' :=
          case app_service_of req of UserPage ev \<Rightarrow> snd (page_step W ev (as_sessions st1 b')) | _ \<Rightarrow> as_sessions st1 b'),
        as_logs = Some (last_n 50 (es1 @ es1')),
        as_sockets = as_sockets st1 @ (case app_socket W req (as_sessions st1 b') of None \<Rightarrow> [] | Some msgs \<Rightarrow> [(b', msgs)])\<rparr>)"
        (is "_ = (_, ?st1)")
      using app_handle_state [OF Cons.prems(2), of W b' req] by blast
    have "as_logs ?st1 = Some (last_n 50 (es1 @ es1'))" by simp
    note logs1 = this
    have "as_sessions ?st b = as_sessions ?st1 b" "of_browser b (as_sockets ?st) = as_sockets ?st1"
      using Cons.prems(3,4) True by (auto split: option.split app_service.split)
    from Cons.IH [OF logs logs1 this, unfolded True] show ?thesis
      unfolding r True by (simp add: h [unfolded True] h1 [unfolded True] run_events_sel del: run_events.simps(2))
  next
    case False
    have "as_sessions ?st b = as_sessions st1 b" "of_browser b (as_sockets ?st) = as_sockets st1"
      using Cons.prems(3,4) False by (auto split: option.split)
    from Cons.IH [OF logs Cons.prems(2) this] False show ?thesis by (simp add: r h run_events_sel del: run_events.simps(2))
  qed
qed

section \<open>Properties\<close>

text \<open>C30: Whatever was asked before, by whatever browsers: no request panics; an
  answer, also a personal page, leaves the server with exactly one cache header, which lets any cache keep it for thirty
  days; it is logged with the address its browser had before it, the log never exceeds fifty entries, and no other
  browser's session changes.\<close>

theorem every_response_public:
  fixes W reqs
  defines "st \<equiv> snd (run_events (app_handle W) reqs app_init)"
  shows "\<exists>res st' es. app_handle W (b, req) st = (Inr res, st') \<and>
    as_sessions st' = (as_sessions st)(b := as_sessions st' b) \<and>
    as_logs st = Some (last_n 50 es) \<and>
    (case res of
       Inl _ \<Rightarrow> as_logs st' = as_logs st
     | Inr resp \<Rightarrow>
         filter (\<lambda>(k, _). k = ''cache-control'') (headers resp) = [(''cache-control'', ''public, max-age=2592000'')] \<and>
         as_logs st' = Some (last_n 50 (es @ [log_entry (app_parse_ip W) (ar_info req) (as_sessions st b) (status resp)]))) \<and>
    length (the (as_logs st')) \<le> 50"
proof -
  obtain es where es: "as_logs st = Some (last_n 50 es)" unfolding st_def by (rule app_reachable)
  from app_handle_state [OF this, of W b req] obtain res es' where
    h: "app_handle W (b, req) st = (Inr res, \<lparr>as_sessions = (as_sessions st)(b :=
        case app_service_of req of UserPage ev \<Rightarrow> snd (page_step W ev (as_sessions st b)) | _ \<Rightarrow> as_sessions st b),
      as_logs = Some (last_n 50 (es @ es')),
      as_sockets = as_sockets st @ (case app_socket W req (as_sessions st b) of None \<Rightarrow> [] | Some msgs \<Rightarrow> [(b, msgs)])\<rparr>)"
    and r: "case res of Inl _ \<Rightarrow> es' = []
     | Inr resp \<Rightarrow> es' = [log_entry (app_parse_ip W) (ar_info req) (as_sessions st b) (status resp)] \<and>
         filter (\<lambda>(k, _). k = ''cache-control'') (headers resp) = [(''cache-control'', ''public, max-age=2592000'')]"
    by blast
  have le: "length (last_n 50 xs) \<le> 50" for xs :: "http_request_log list" by (simp add: last_n_def)
  show ?thesis unfolding h using es r le by (cases res) auto
qed

text \<open>C24: However the requests of many browsers are interleaved, the session of each is what its own requests for the user
  pages make of a new session, these pages answer it as they would answer it alone, and its websocket conversations are
  those it would have alone; the one a request opens depends on the browser's own session only (the trader's endpoint tells the
  user's name). The answers of all other services, the websocket handshakes among them, depend on nobody's session.\<close>

theorem browser_isolation:
  fixes W reqs b
  defines "st \<equiv> snd (run_events (app_handle W) reqs app_init)"
    and "alone \<equiv> snd (run_events (app_handle W) (filter (\<lambda>(b', _). b' = b) reqs) app_init)"
    and "own \<equiv> web_run (site_percent (app_site W)) (site_config (app_site W)) (site_pages (app_site W))
       (get_authorized_users (site_users (app_site W))) (own_events b reqs) new_session"
  shows "as_sessions st b = own \<and>
    filter (\<lambda>(b', _). b' = b) (as_sockets st) = as_sockets alone \<and>
    as_sockets (snd (app_handle W (b, req) st)) =
      as_sockets st @ (case app_socket W req own of None \<Rightarrow> [] | Some msgs \<Rightarrow> [(b, msgs)]) \<and>
    fst (app_handle W (b, req) st) =
      (case app_service_of req of
         UserPage ev \<Rightarrow> Inr (Inr (insert_header ''cache-control'' ''public, max-age=2592000'' (fst (page_step W ev own))))
       | _ \<Rightarrow> fst (app_handle W (b, req) (st\<lparr>as_sessions := \<lambda>_. new_session\<rparr>)))"
proof -
  obtain es where es: "as_logs st = Some (last_n 50 es)" and own: "as_sessions st b = own"
    unfolding st_def own_def run_events_web_run [symmetric] by (rule app_reachable)
  have "as_logs app_init = Some (last_n 50 [])" by (simp add: app_init_def last_n_def)
  from app_run_sockets [OF this this refl, of b W reqs]
  have past: "filter (\<lambda>(b', _). b' = b) (as_sockets st) = as_sockets alone"
    by (simp add: st_def alone_def of_browser_def [symmetric] app_init_def)
  have socket: "as_sockets (snd (app_handle W (b, req) st)) =
      as_sockets st @ (case app_socket W req own of None \<Rightarrow> [] | Some msgs \<Rightarrow> [(b, msgs)])"
    using app_handle_state [OF es, of W b req] own by auto
  show ?thesis
  proof (cases "\<exists>ev. app_service_of req = UserPage ev")
    case True
    with app_handle_state [OF es, of W b req] own past socket show ?thesis by auto
  next
    case False
    have alike: "\<exists>r. \<forall>s. app_service W req (as_logs st) s = map_sum id (\<lambda>res. (res, s)) r"
      using False activity_log_Inr [of "app_fmt_time W" "last_n 50 es"] es
      by (cases "app_service_of req") (auto simp: app_service_def intro: exI [of _ "Inr _"])
    then obtain r where "app_service W req (as_logs st) s = map_sum id (\<lambda>res. (res, s)) r" for s by blast
    then have "fst (app_handle W (b, req) st) = fst (app_handle W (b, req) (st\<lparr>as_sessions := \<lambda>_. new_session\<rparr>))"
      by (cases r) (auto simp: app_handle_def Let_def http_request_logger_middleware_def split: sum.split prod.split)
    with False own past socket show ?thesis by (cases "app_service_of req") auto
  qed
qed

text \<open>The service for the start page matches the path \<open>/\<close> alone, so \<open>/index.html\<close> is a static file: its answer is
  what the folder of the site has, for strangers too, and no handler of the user pages is asked.\<close>

theorem index_html_needs_no_login:
  fixes req :: app_request
  defines "r \<equiv> req\<lparr>ar_info := (ar_info req)\<lparr>ri_method := ''GET'', ri_path := ''/index.html''\<rparr>\<rparr>"
  shows "fst (app_handle W (b, r) st) =
    Inr (browser_cache_control_30_days_middleware (app_files W (static_folder (ar_uri_host req) (ar_host_header req)) r))"
proof -
  have "app_service_of r = StaticFiles (static_folder (ar_uri_host req) (ar_host_header req))"
    by (simp add: app_service_of_def app_routes_def r_def)
  then show ?thesis
    by (auto simp: app_handle_def app_service_def Let_def http_request_logger_middleware_def split: sum.split prod.split)
qed
end
