(* ===== verification/ServerMain.thy ===== *)
theory ServerMain
  imports LiveRuns RoboTrader GSheets RqEmail WebApp
begin

text \<open>
  \<open>rqcoresrv/src/main.rs\<close>: the start of the server (\<open>main_start\<close>) and the menu of the console
  (\<open>console_menu_loop\<close>), which put the other components together. The web server's own loop is the
  framework's.
\<close>

section \<open>Start and end\<close>

text \<open>What \<open>init_log\<close> meets: the working directory, the date, and which stages of the logger succeed.\<close>

record log_host =
  lh_cargo_toml :: bool
  lh_date :: string
  lh_proxy :: bool
  lh_stdout :: bool
  lh_file :: "string \<Rightarrow> bool"
  lh_logger :: bool

text \<open>The name of the log file, an error, or a panic.\<close>

definition init_log :: "log_host \<Rightarrow> (unit + string) outcome" where
  "init_log L =
     (if \<not> lh_cargo_toml L then Inl (Panic ''Cargo.toml not found in current directory'')
      else
        (let log_filename = ''../../logs/rqcoresrv.'' @ lh_date L @ ''.sqlog''
         in if \<not> lh_proxy L then Inr (Inl ())
            else if \<not> lh_stdout L then Inl (Panic ''called Result::unwrap() on an Err value'')
            else if \<not> lh_file L log_filename then Inr (Inl ())
            else if \<not> lh_logger L then Inr (Inl ())
            else Inr (Inr log_filename)))"

datatype runtime_flavor = CurrentThread | MultiThread | OtherFlavor

record runtime_info =
  logical_cpus :: nat
  server_workers :: nat
  process_id :: nat
  runtime_flavor :: runtime_flavor

text \<open>\<open>pe_cpus\<close> is \<open>available_parallelism()\<close>, \<open>pe_bind\<close> binds an address or fails with an error.\<close>

record process_env =
  pe_log :: log_host
  pe_now :: instant
  pe_cpus :: "nat option"
  pe_pid :: nat
  pe_flavor :: runtime_flavor
  pe_bind :: "string \<Rightarrow> string + unit"

definition runtime_info_of :: "process_env \<Rightarrow> runtime_info" where
  "runtime_info_of P =
     (let cpus = (case pe_cpus P of Some n \<Rightarrow> n | None \<Rightarrow> 1)
      in \<lparr>logical_cpus = cpus, server_workers = cpus, process_id = pe_pid P, runtime_flavor = pe_flavor P\<rparr>)"

definition print_runtime_info :: "runtime_info \<Rightarrow> string list" where
  "print_runtime_info info =
     [[], ''=== Runtime Info ==='', ''Process ID:         '' @ show_nat (process_id info),
      ''Logical CPUs:       '' @ show_nat (logical_cpus info), ''Actix workers:      '' @ show_nat (server_workers info),
      ''(Tokio worker pool '' @ [CHR 0xE2, CHR 0x89, CHR 0x88] @ '' logical CPUs, unless you customized it)'',
      (case runtime_flavor info of
         CurrentThread \<Rightarrow> ''Tokio/Actix runtime: current-thread (single-threaded)''
       | MultiThread \<Rightarrow> ''Tokio/Actix runtime: multi-thread''
       | OtherFlavor \<Rightarrow> ''Tokio/Actix runtime: unknown flavor'')]"

definition config_key :: "rq_core_config \<Rightarrow> string \<Rightarrow> rq_error + string" where
  "config_key cfg key = (case cfg key of Some v \<Rightarrow> Inr v | None \<Rightarrow> Inl (Config (key @ '' not found in config'')))"

definition init_rqemail :: "rq_core_config \<Rightarrow> rq_email option \<Rightarrow> rq_error + rq_email option" where
  "init_rqemail cfg lock =
     (case config_key cfg ''email_hqserver'' of
        Inl e \<Rightarrow> Inl e
      | Inr email \<Rightarrow>
         (case config_key cfg ''email_hqserver_pwd'' of
            Inl e \<Rightarrow> Inl e
          | Inr pwd \<Rightarrow> Inr (rqemail_init email pwd lock)))"

text \<open>The private key has \<open>\\n\<close> written out in the configuration.\<close>

definition init_rqgsheets :: "rq_core_config \<Rightarrow> rq_gsheets option \<Rightarrow> rq_error + rq_gsheets option" where
  "init_rqgsheets cfg lock =
     (case config_key cfg ''gsheet_client_email'' of
        Inl e \<Rightarrow> Inl e
      | Inr email \<Rightarrow>
         (case config_key cfg ''gsheet_private_key'' of
            Inl e \<Rightarrow> Inl e
          | Inr key \<Rightarrow> Inr (gsheets_init email (str_replace [CHR 0x5C, CHR ''n''] [newline] key) lock)))"

record ('c, 'e, 'r, 'k) server =
  srv_start :: instant
  srv_runtime :: runtime_info
  srv_config :: rq_core_config
  srv_email :: "rq_email option"
  srv_gsheets :: "rq_gsheets option"
  srv_cache :: mark_value_cache
  srv_gateways :: "'c gateways"
  srv_executions :: "('e, 'r) robo_trader"
  srv_tasks :: "rq_task list"
  srv_users :: "string set option"
  srv_resolver :: "'k sni_resolver"

text \<open>The boxed errors \<open>main()\<close> may end with, and the start of the web server: the users, the
  certificates, then the two ports.\<close>

datatype main_error = RqErr rq_error | IoErr string

definition listening_address :: "nat \<Rightarrow> string" where
  "listening_address port = ''0.0.0.0:'' @ show_nat port"

definition actix_websrv_run ::
  "host_env \<Rightarrow> process_env \<Rightarrow> ('d, 'x, 'k, 's) tls_files \<Rightarrow> rq_core_config
    \<Rightarrow> (main_error + string set option \<times> ('x \<times> 's) sni_resolver) outcome" where
  "actix_websrv_run E P F cfg =
     (let users = init_authorized_users None cfg in
     bind_out (sensitive_config_folder_path E) (\<lambda>folder.
     bind_out (build_resolver F folder) (\<lambda>resolver.
       case pe_bind P (listening_address 8080) of
         Inl e \<Rightarrow> Inr (Inl (IoErr e))
       | Inr _ \<Rightarrow>
         (case pe_bind P (listening_address 8443) of
            Inl e \<Rightarrow> Inr (Inl (IoErr e))
          | Inr _ \<Rightarrow> Inr (Inr (users, resolver))))))"

text \<open>\<open>main()\<close> up to the start of the web server: a panic, the error it ends with, or the running server.\<close>

definition main_start ::
  "host_env \<Rightarrow> process_env \<Rightarrow> ('c, 'e, 'r) ib_api \<Rightarrow> ('d, 'x, 'k, 's) tls_files \<Rightarrow> tz \<Rightarrow> (nat \<Rightarrow> instant) \<Rightarrow> mark_value_cache
    \<Rightarrow> (main_error + ('c, 'e, 'r, 'x \<times> 's) server) outcome" where
  "main_start E P api F Z clk cache =
     bind_out (bind_out (init_log (pe_log P)) (\<lambda>r.
       expect (case r of Inl _ \<Rightarrow> None | Inr log_filename \<Rightarrow> Some log_filename) ''Failed to initialize logging'')) (\<lambda>_.
     bind_out (get_rqcore_config E None) (\<lambda>cfg.
       case init_rqemail cfg None of
         Inl e \<Rightarrow> Inr (Inl (RqErr e))
       | Inr email \<Rightarrow>
         (case init_rqgsheets cfg None of
            Inl e \<Rightarrow> Inr (Inl (RqErr e))
          | Inr gsheets \<Rightarrow>
            (case brokers_init api (env_os E = ''windows'') (env_var E ''USERDOMAIN'') cache Map.empty of
               (Inl e, _, _) \<Rightarrow> Inl e
             | (Inr _, cache, gateways) \<Rightarrow>
                 bind_out (scheduled_tasks Z clk (env_os E) (env_var E ''USERDOMAIN'')) (\<lambda>tasks.
                 bind_out (actix_websrv_run E P F cfg) (\<lambda>r. case r of Inl e \<Rightarrow> Inr (Inl e) | Inr (users, resolver) \<Rightarrow>
                   Inr (Inr \<lparr>srv_start = pe_now P, srv_runtime = runtime_info_of P, srv_config = cfg, srv_email = email, srv_gsheets = gsheets, srv_cache = cache,
                     srv_gateways = gateways, srv_executions = robo_trader_init api gateways Map.empty, srv_tasks = tasks,
                     srv_users = users, srv_resolver = resolver\<rparr>)))))))"

text \<open>The end of \<open>main()\<close>, once the web server has stopped.\<close>

definition main_end :: "('c, 'e, 'r, 'k) server \<Rightarrow> ('c, 'e, 'r, 'k) server" where
  "main_end srv = srv\<lparr>srv_gateways := snd (brokers_exit (srv_gateways srv))\<rparr>"

text \<open>The web application of the running server; \<open>W\<close> has what is not the program's.\<close>

definition web_app_of :: "('c, 'e, 'r, 'k) server \<Rightarrow> ('c, 'x) web_app \<Rightarrow> ('c, 'x) web_app" where
  "web_app_of srv W = W\<lparr>app_site := (app_site W)\<lparr>site_config := srv_config srv, site_users := srv_users srv\<rparr>,
     app_start := Some (srv_start srv), app_cpus := logical_cpus (srv_runtime srv), app_pid := process_id (srv_runtime srv)\<rparr>"

section \<open>The console\<close>

text \<open>The broker's calls of the two test choices; \<open>None\<close> is a failed request.\<close>

definition gateway_handle :: "'c gateways \<Rightarrow> broker_client \<Rightarrow> string \<Rightarrow> 'c outcome" where
  "gateway_handle gws b missing =
     bind_out (expect (gws b) missing) (\<lambda>g. expect (ib_client g) ''ib_client is not initialized'')"

definition test_ibapi_hist_data :: "('c \<Rightarrow> 'h option) \<Rightarrow> 'c gateways \<Rightarrow> 'h outcome" where
  "test_ibapi_hist_data historical_data gws =
     bind_out (gateway_handle gws Gyantal ''gyantal gateway is missing'') (\<lambda>client.
       expect (historical_data client) ''historical data request failed'')"

definition test_ibapi_realtime_bars :: "('c, 'e, 'r) ib_api \<Rightarrow> 'c gateways \<Rightarrow> f64 option outcome" where
  "test_ibapi_realtime_bars api gws =
     bind_out (gateway_handle gws DcMain ''dcmain gateway is missing'') (\<lambda>client.
       case ib_realtime_bar api client ''PM'' of
         BarRequestFailed \<Rightarrow> Inl (Panic ''realtime bars request failed!'')
       | BarNever \<Rightarrow> Inl Hang
       | BarEnd \<Rightarrow> Inr None
       | BarError \<Rightarrow> Inr None
       | BarClose c \<Rightarrow> Inr (Some c))"

text \<open>What the two download tests print: the date, the counts and the events.\<close>

definition test_http_download_pqp :: "'v sa_world \<Rightarrow> fast_runner
    \<Rightarrow> (string \<times> (nat \<times> nat) \<times> transaction_event list) outcome \<times> fast_runner" where
  "test_http_download_pqp w fr =
     (case get_new_transactions_pqp w fr of
        (Inl e, fr) \<Rightarrow> (Inl e, fr)
      | (Inr (target_action_date, events), fr) \<Rightarrow> (Inr (target_action_date, count_order_types events, events), fr))"

definition test_http_download_ap :: "'v sa_world \<Rightarrow> fast_runner
    \<Rightarrow> (string \<times> (nat \<times> nat) \<times> transaction_event list) outcome \<times> fast_runner" where
  "test_http_download_ap w fr =
     (case get_new_transactions_ap w fr of
        (Inl e, fr) \<Rightarrow> (Inl e, fr)
      | (Inr (target_action_date, events), fr) \<Rightarrow> (Inr (target_action_date, (length events, 0), events), fr))"

text \<open>A new runner, initialized, before a download test.\<close>

definition with_new_runner :: "('c, 'e, 'r, 'v) run_env \<Rightarrow> ('v sa_world \<Rightarrow> fast_runner \<Rightarrow> 'a outcome \<times> fast_runner) \<Rightarrow> unit outcome" where
  "with_new_runner env test =
     (case fast_runner_init (re_chrono env) (utc_date (re_now_init env)) (re_dir_ok env) fast_runner_new of
        (Inl e, _) \<Rightarrow> Inl e
      | (Inr _, fr) \<Rightarrow> bind_out (fst (test (re_worlds env 0) fr)) (\<lambda>_. Inr ()))"

text \<open>The state the menu changes, and the world of one choice.\<close>

record 'c menu_state =
  ms_run :: "'c run_state"
  ms_sheet :: "cell_update list"
  ms_background :: nat
  ms_stopped :: bool

record ('c, 'e, 'r, 'v, 'h, 'x) menu_world =
  mw_env :: "('c, 'e, 'r, 'v) run_env"
  mw_now :: instant
  mw_hist :: "'c \<Rightarrow> 'h option"
  mw_sheets :: "'x gsheet_world"
  mw_gsheets :: "rq_gsheets option"

datatype menu_outcome = Continue | Leave | Died abnormal

definition end_of :: "'a outcome \<Rightarrow> menu_outcome" where
  "end_of r = (case r of Inl e \<Rightarrow> Died e | Inr _ \<Rightarrow> Continue)"

definition hello_sheet :: string where
  "hello_sheet = ''https://docs.google.com/spreadsheets/d/1ekratdOIuw0slglsiilzSGXE-eehXjLSeuysjITSJUI/edit?gid=0#gid=0''"

text \<open>A forced run: a new task whose flag is set, run by the menu itself.\<close>

fun set_forcerun :: "rq_task \<Rightarrow> rq_task" where
  "set_forcerun (HeartbeatTask d t) = HeartbeatTask d t"
| "set_forcerun (FastRunnerPqpTask t _) = FastRunnerPqpTask t True"
| "set_forcerun (FastRunnerApTask t _) = FastRunnerApTask t True"

definition force_run :: "('c, 'e, 'r, 'v) run_env \<Rightarrow> rq_task outcome \<Rightarrow> 'c menu_state \<Rightarrow> (menu_outcome \<times> 'c menu_state) option" where
  "force_run env task ms =
     (case task of
        Inl e \<Rightarrow> Some (Died e, ms)
      | Inr t \<Rightarrow> map_option (\<lambda>(r, st). (end_of r, ms\<lparr>ms_run := st\<rparr>)) (task_run env (set_forcerun t) (ms_run ms)))"

text \<open>One choice; \<open>None\<close> is a run that never returns.\<close>

definition menu_choice :: "('c, 'e, 'r, 'v, 'h, 'x) menu_world \<Rightarrow> string \<Rightarrow> 'c menu_state
    \<Rightarrow> (menu_outcome \<times> 'c menu_state) option" where
  "menu_choice W choice ms =
     (let env = mw_env W in
      if choice = ''1'' then
        Some (Continue, ms\<lparr>ms_sheet := ms_sheet ms @ snd (set_single_cell (mw_sheets W) (mw_gsheets W) hello_sheet 1 2 ''Insert Value'')\<rparr>)
      else if choice = ''2'' then
        Some (end_of
          (bind_out (get_sa_screener_result_tickers (re_candidate_worlds env 0) screener_payload) (\<lambda>_.
           bind_out (get_pqp_positions_tickers (re_candidate_worlds env 1)) (\<lambda>_.
             get_sa_candidate_tickers (re_candidate_worlds env 2)))), ms)
      else if choice = ''3'' then Some (Continue, ms)
      else if choice = ''41'' then Some (Continue, ms\<lparr>ms_background := Suc (ms_background ms)\<rparr>)
      else if choice = ''42'' then Some (end_of (test_ibapi_hist_data (mw_hist W) (re_gateways env)), ms)
      else if choice = ''43'' then Some (end_of (test_ibapi_realtime_bars (re_api env) (re_gateways env)), ms)
      else if choice = ''51'' then Some (end_of (with_new_runner env test_http_download_pqp), ms)
      else if choice = ''52'' then Some (end_of (with_new_runner env test_http_download_ap), ms)
      else if choice = ''53'' then force_run env (fast_runner_pqp_task_new (re_tz env) (mw_now W)) ms
      else if choice = ''54'' then force_run env (fast_runner_ap_task_new (re_tz env) (mw_now W)) ms
      else if choice = ''9'' then Some (Leave, ms\<lparr>ms_stopped := True\<rparr>)
      else Some (Continue, ms))"

text \<open>The lines until the input is closed.\<close>

fun console_menu_loop :: "(nat \<Rightarrow> ('c, 'e, 'r, 'v, 'h, 'x) menu_world) \<Rightarrow> nat \<Rightarrow> string list \<Rightarrow> 'c menu_state
    \<Rightarrow> (menu_outcome \<times> 'c menu_state) option" where
  "console_menu_loop W n [] ms = Some (Leave, ms)"
| "console_menu_loop W n (line # lines) ms =
     (case menu_choice (W n) (trim line) ms of
        None \<Rightarrow> None
      | Some (r, ms) \<Rightarrow> if r = Continue then console_menu_loop W (Suc n) lines ms else Some (r, ms))"

section \<open>Facts of the parts\<close>

lemma forced_run_quiet:
  assumes "chrono_laws (re_chrono env)" and "task_run env (set_forcerun t) st = Some (r, st')"
  shows "rs_subs st' = rs_subs st"
proof (cases t)
  case (FastRunnerPqpTask u f)
  with assms pqp_run_new [OF assms(1), of True st r st'] show ?thesis by auto
next
  case (FastRunnerApTask u f)
  with assms ap_run_new [OF assms(1), of True st r st'] show ?thesis by auto
qed (use assms in auto)

lemma menu_choice_quiet:
  assumes "chrono_laws (re_chrono (mw_env W))" and "menu_choice W choice ms = Some (r, ms')"
  shows "rs_subs (ms_run ms') = rs_subs (ms_run ms)"
proof -
  have force: "rs_subs (ms_run ms') = rs_subs (ms_run ms)" if "force_run (mw_env W) task ms = Some (r, ms')" for task
    using that forced_run_quiet [OF assms(1)] by (auto simp: force_run_def split: sum.splits)
  show ?thesis using assms(2) force unfolding menu_choice_def Let_def
    by (auto split: if_splits)
qed

definition required_keys :: "string list" where
  "required_keys = [''email_hqserver'', ''email_hqserver_pwd'', ''gsheet_client_email'', ''gsheet_private_key'']"

lemma init_keys:
  "(case init_rqemail cfg None of Inl e \<Rightarrow> Some e | Inr _ \<Rightarrow> (case init_rqgsheets cfg None of Inl e \<Rightarrow> Some e | Inr _ \<Rightarrow> None)) =
   map_option (\<lambda>k. Config (k @ '' not found in config'')) (find (\<lambda>k. cfg k = None) required_keys)"
  by (simp add: init_rqemail_def init_rqgsheets_def config_key_def required_keys_def split: option.split)

lemma listening [simp]: "listening_address 8080 = ''0.0.0.0:8080''" "listening_address 8443 = ''0.0.0.0:8443''"
  by (simp_all add: listening_address_def show_nat.simps digit_char_def char_of_def bit_Suc_0_iff)

text \<open>The way \<open>main()\<close> passes an error on.\<close>

lemma pass_error [outcome_simps]:
  "(case r of Inl e \<Rightarrow> Inr (Inl e) | Inr (a, b) \<Rightarrow> Inr (Inr (g a b))) = Inr (Inr z) \<longleftrightarrow> (\<exists>a b. r = Inr (a, b) \<and> z = g a b)"
  "(case r of Inl e \<Rightarrow> Inr (Inl e) | Inr (a, b) \<Rightarrow> Inr (Inr (g a b))) = Inr (Inl e) \<longleftrightarrow> r = Inl e"
  by (auto split: sum.splits)

lemma pass_rq_error [outcome_simps]:
  "(case q of Inl e \<Rightarrow> Inr (Inl (RqErr e)) | Inr x \<Rightarrow> f x) = Inr (Inr srv) \<longleftrightarrow> (\<exists>x. q = Inr x \<and> f x = Inr (Inr srv))"
  "(case q of Inl e \<Rightarrow> Inr (Inl (RqErr e)) | Inr x \<Rightarrow> f x) = Inr (Inl (IoErr msg)) \<longleftrightarrow> (\<exists>x. q = Inr x \<and> f x = Inr (Inl (IoErr msg)))"
  by (auto split: sum.splits)

lemma pass_panic [outcome_simps]:
  "(case b of (Inl e, c, g) \<Rightarrow> Inl e | (Inr u, c, g) \<Rightarrow> h c g) = Inr z \<longleftrightarrow> (\<exists>c g. b = (Inr (), c, g) \<and> h c g = Inr z)"
  by (auto split: sum.splits prod.splits)

lemma pass_ok [outcome_simps]:
  "(case r of Inl e \<Rightarrow> None | Inr x \<Rightarrow> Some x) = Some y \<longleftrightarrow> r = Inr y"
  "fst b = Inr () \<longleftrightarrow> (\<exists>c g. b = (Inr (), c, g))"
  by (auto split: sum.splits) (cases b; simp)

lemma websrv_server:
  "actix_websrv_run E P F cfg = Inr (Inr (users, R)) \<longleftrightarrow>
     (\<exists>folder. sensitive_config_folder_path E = Inr folder \<and> build_resolver F folder = Inr R) \<and>
     (\<forall>port \<in> {''0.0.0.0:8080'', ''0.0.0.0:8443''}. \<not> isl (pe_bind P port)) \<and> users = init_authorized_users None cfg"
  by (cases "pe_bind P ''0.0.0.0:8080''"; cases "pe_bind P ''0.0.0.0:8443''") (auto simp: actix_websrv_run_def outcome_simps)

text \<open>The configuration a start reads from its folder; an unreadable or malformed file counts as an empty one.\<close>

definition folder_config :: "host_env \<Rightarrow> string \<Rightarrow> rq_core_config" where
  "folder_config E folder =
     (case env_files E (folder @ ''rqcore.config'') of
        None \<Rightarrow> Map.empty
      | Some content \<Rightarrow>
          (case parse_config_lines 0 (str_lines content) Map.empty of Inl _ \<Rightarrow> Map.empty | Inr cfg \<Rightarrow> cfg))"

lemma get_folder_config:
  "get_rqcore_config E None = bind_out (sensitive_config_folder_path E) (\<lambda>folder. Inr (folder_config E folder))"
  by (cases "sensitive_config_folder_path E")
    (simp_all add: get_rqcore_config_def load_rqcore_config_def folder_config_def split: option.split)

text \<open>Who has a configuration folder has a client id at the broker, and tasks to schedule.\<close>

lemma folder_client_id: "windows_folder u = Inr folder \<Longrightarrow> \<exists>cid. gateway_client_id True (Some u) = Inr cid"
  unfolding windows_folder_def gateway_client_id_def if_True expect_simps bind_out_simps by (simp split: if_splits)

lemma brokers_after_folder:
  assumes "sensitive_config_folder_path E = Inr folder"
  obtains c gws where "brokers_init api (env_os E = ''windows'') (env_var E ''USERDOMAIN'') cache Map.empty = (Inr (), c, gws)"
proof -
  have "\<exists>cid. gateway_client_id (env_os E = ''windows'') (env_var E ''USERDOMAIN'') = Inr cid"
  proof (cases "env_os E = ''windows''")
    case True
    with assms obtain u where "env_var E ''USERDOMAIN'' = Some u" "windows_folder u = Inr folder"
      by (auto simp: sensitive_config_folder_path_def outcome_simps)
    with True folder_client_id show ?thesis by simp
  qed (simp add: gateway_client_id_def)
  with that show thesis by (auto simp: brokers_init_def Let_def)
qed

lemma tasks_after_folder:
  assumes "tz_laws Z (hms 3 0 0)" and "sensitive_config_folder_path E = Inr folder"
  shows "\<exists>tasks. scheduled_tasks Z clk (env_os E) (env_var E ''USERDOMAIN'') = Inr tasks"
proof -
  obtain u v where t: "pqp_get_next_trigger_time_impl Z (clk 1) = Inr u" "ap_get_next_trigger_time_impl Z (clk 2) = Inr v"
    using next_triggers [OF assms(1), of "clk 1"] next_triggers [OF assms(1), of "clk 2"] by auto
  show ?thesis
  proof (cases "env_os E = ''windows''")
    case True
    with assms(2) obtain w where "env_var E ''USERDOMAIN'' = Some w" by (auto simp: sensitive_config_folder_path_def outcome_simps)
    with True t show ?thesis
      unfolding scheduled_tasks_def fast_runner_pqp_task_new_def fast_runner_ap_task_new_def by (simp add: Let_def)
  qed (simp add: scheduled_tasks_def Let_def)
qed

lemma websrv_outcome:
  assumes "sensitive_config_folder_path E = Inr folder"
  shows "actix_websrv_run E P F cfg = bind_out (build_resolver F folder) (\<lambda>R.
    case find (\<lambda>port. isl (pe_bind P port)) [''0.0.0.0:8080'', ''0.0.0.0:8443''] of
      Some port \<Rightarrow> Inr (Inl (IoErr (projl (pe_bind P port))))
    | None \<Rightarrow> Inr (Inr (init_authorized_users None cfg, R)))"
  by (cases "pe_bind P ''0.0.0.0:8080''"; cases "pe_bind P ''0.0.0.0:8443''"; cases "build_resolver F folder")
    (simp_all add: actix_websrv_run_def assms)

lemma main_start_missing_key:
  assumes "tz_laws Z (hms 3 0 0)" and log: "init_log (pe_log P) = Inr (Inr name)"
    and folder: "sensitive_config_folder_path E = Inr folder"
    and key: "find (\<lambda>k. folder_config E folder k = None) required_keys = Some k"
  shows "main_start E P api F Z clk cache = Inr (Inl (RqErr (Config (k @ '' not found in config''))))"
proof -
  let ?cfg = "folder_config E folder"
  consider e where "init_rqemail ?cfg None = Inl e" "e = Config (k @ '' not found in config'')"
    | email e where "init_rqemail ?cfg None = Inr email" "init_rqgsheets ?cfg None = Inl e" "e = Config (k @ '' not found in config'')"
    using init_keys [of ?cfg] key by (auto split: sum.splits)
  then show ?thesis
    by cases (simp_all only: main_start_def log get_folder_config folder bind_out_simps sum.case option.case expect_simps)
qed

lemma main_start_web:
  assumes "tz_laws Z (hms 3 0 0)" and log: "init_log (pe_log P) = Inr (Inr name)"
    and folder: "sensitive_config_folder_path E = Inr folder"
    and keys: "find (\<lambda>k. folder_config E folder k = None) required_keys = None"
  obtains server where "main_start E P api F Z clk cache = bind_out (actix_websrv_run E P F (folder_config E folder))
      (\<lambda>r. case r of Inl e \<Rightarrow> Inr (Inl e) | Inr (users, resolver) \<Rightarrow> Inr (Inr (server users resolver)))"
    and "\<And>users resolver. srv_config (server users resolver) = folder_config E folder \<and> srv_resolver (server users resolver) = resolver"
proof -
  let ?cfg = "folder_config E folder"
  obtain email sheets where init: "init_rqemail ?cfg None = Inr email" "init_rqgsheets ?cfg None = Inr sheets"
    using init_keys [of ?cfg] keys by (auto split: sum.splits)
  obtain c gws where brokers: "brokers_init api (env_os E = ''windows'') (env_var E ''USERDOMAIN'') cache Map.empty = (Inr (), c, gws)"
    by (rule brokers_after_folder [OF folder])
  obtain tasks where tasks: "scheduled_tasks Z clk (env_os E) (env_var E ''USERDOMAIN'') = Inr tasks"
    using tasks_after_folder [OF assms(1) folder] by blast
  show thesis
    by (rule that, unfold main_start_def log get_folder_config folder bind_out_simps sum.case option.case expect_simps init
        brokers prod.case tasks, rule refl) simp
qed

lemma isl_simps: "isl (Inl e)" "\<not> isl (Inr x)" by simp_all

section \<open>Properties\<close>

text \<open>C11: Whatever is typed at the console, no order reaches the broker: its forced runs
  of the strategies are simulations.\<close>

theorem console_never_trades:
  assumes "\<And>n. chrono_laws (re_chrono (mw_env (W n)))" and "console_menu_loop W n lines ms = Some (r, ms')"
  shows "rs_subs (ms_run ms') = rs_subs (ms_run ms)"
  using assms(2)
proof (induction lines arbitrary: n ms)
  case Nil
  then show ?case by simp
next
  case (Cons line lines)
  then obtain q ms1 where m: "menu_choice (W n) (trim line) ms = Some (q, ms1)" by (auto split: option.splits)
  have "rs_subs (ms_run ms1) = rs_subs (ms_run ms)" by (rule menu_choice_quiet [OF assms(1) m])
  then show ?case using Cons m by (auto split: if_splits)
qed

definition demo_menu_world :: "(unit, unit, unit, unit, unit, unit) menu_world" where
  "demo_menu_world = \<lparr>mw_env = demo_env demo_noon demo_world, mw_now = demo_noon, mw_hist = Some,
     mw_sheets = \<lparr>gw_get = Inr, gw_text = Inr, gw_csv = (\<lambda>_. []), gw_auth = (\<lambda>_. Inr ()), gw_roots = Inr (), gw_update = (\<lambda>_ _ _. Inr ())\<rparr>,
     mw_gsheets = None\<rparr>"

definition demo_menu :: "unit menu_state" where
  "demo_menu = \<lparr>ms_run = demo_state, ms_sheet = [], ms_background = 0, ms_stopped = False\<rparr>"

theorem console_never_trades_witness:
  "\<exists>r ms'. console_menu_loop (\<lambda>_. demo_menu_world) 0 [''53'', ''9''] demo_menu = Some (r, ms') \<and> rs_subs (ms_run ms') = []"
proof -
  have t: "trim ''53'' = ''53''" "trim ''9'' = ''9''" by (simp_all add: trim_id_iff is_ws1_def is_ws2_def)
  have "demo_noon + 270 * ns_per_sec \<le> demo_noon + int 27 * 10 * ns_per_sec" by (simp add: ns_per_sec_def)
  then obtain r st where run: "pqp_run (demo_env demo_noon demo_world) True demo_state = Some (r, st)"
    using pqp_run_total [of "demo_env demo_noon demo_world" 27 True demo_state] by auto
  obtain v where v: "pqp_get_next_trigger_time_impl eastern_2025 demo_noon = Inr v"
    using next_triggers(1) [OF eastern_laws.tz_laws_axioms, of demo_noon] by blast
  have "\<exists>r ms'. console_menu_loop (\<lambda>_. demo_menu_world) 0 [''53'', ''9''] demo_menu = Some (r, ms')"
    by (simp add: t menu_choice_def force_run_def fast_runner_pqp_task_new_def demo_menu_world_def demo_menu_def v run end_of_def
        split: sum.split)
  then obtain q ms' where loop: "console_menu_loop (\<lambda>_. demo_menu_world) 0 [''53'', ''9''] demo_menu = Some (q, ms')" by blast
  have "chrono_laws (re_chrono (mw_env demo_menu_world))"
    by (simp add: demo_menu_world_def gregorian_laws.chrono_laws_axioms)
  from console_never_trades [OF this loop] loop show ?thesis by (simp add: demo_menu_def)
qed

text \<open>C32: What the start does in every case. Without a log file, or for a user without a configuration folder, it panics.
  Otherwise the configuration decides: a missing one of four keys ends it with an error that names the first one; then
  a certificate that cannot be loaded is a panic; then the first port that is not free ends it with that I/O
  error; else the server runs. The brokers and the tasks never stop it, and the error of an unreadable or malformed
  configuration file is lost: the file counts as an empty one, so the first key is reported instead.\<close>

theorem start_needs_keys:
  assumes "tz_laws Z (hms 3 0 0)"
  shows "case (init_log (pe_log P), sensitive_config_folder_path E) of
      (Inr (Inr name), Inr folder) \<Rightarrow>
        (case find (\<lambda>k. folder_config E folder k = None)
            [''email_hqserver'', ''email_hqserver_pwd'', ''gsheet_client_email'', ''gsheet_private_key''] of
           Some k \<Rightarrow> main_start E P api F Z clk cache = Inr (Inl (RqErr (Config (k @ '' not found in config''))))
         | None \<Rightarrow>
           (case build_resolver F folder of
              Inl e \<Rightarrow> main_start E P api F Z clk cache = Inl e
            | Inr resolver \<Rightarrow>
              (case find (\<lambda>port. isl (pe_bind P port)) [''0.0.0.0:8080'', ''0.0.0.0:8443''] of
                 Some port \<Rightarrow> \<exists>msg. pe_bind P port = Inl msg \<and> main_start E P api F Z clk cache = Inr (Inl (IoErr msg))
               | None \<Rightarrow> \<exists>srv. main_start E P api F Z clk cache = Inr (Inr srv) \<and>
                   srv_config srv = folder_config E folder \<and> srv_resolver srv = resolver)))
    | _ \<Rightarrow> isl (main_start E P api F Z clk cache)"
proof (cases "\<exists>name folder. init_log (pe_log P) = Inr (Inr name) \<and> sensitive_config_folder_path E = Inr folder")
  case False
  then consider e where "init_log (pe_log P) = Inl e" | e where "init_log (pe_log P) = Inr (Inl e)"
    | name e where "init_log (pe_log P) = Inr (Inr name)" "sensitive_config_folder_path E = Inl e"
    by (metis sum.exhaust)
  then show ?thesis
    by cases (simp_all only: main_start_def get_folder_config bind_out_simps sum.case prod.case expect_simps isl_simps)
next
  case True
  then obtain name folder where log: "init_log (pe_log P) = Inr (Inr name)" and folder: "sensitive_config_folder_path E = Inr folder"
    by blast
  define busy where "busy = find (\<lambda>port. isl (pe_bind P port)) [''0.0.0.0:8080'', ''0.0.0.0:8443'']"
  define missing where "missing = find (\<lambda>k. folder_config E folder k = None) required_keys"
  have "case missing of
      Some k \<Rightarrow> main_start E P api F Z clk cache = Inr (Inl (RqErr (Config (k @ '' not found in config''))))
    | None \<Rightarrow>
      (case build_resolver F folder of
         Inl e \<Rightarrow> main_start E P api F Z clk cache = Inl e
       | Inr resolver \<Rightarrow>
         (case busy of
            Some port \<Rightarrow> \<exists>msg. pe_bind P port = Inl msg \<and> main_start E P api F Z clk cache = Inr (Inl (IoErr msg))
          | None \<Rightarrow> \<exists>srv. main_start E P api F Z clk cache = Inr (Inr srv) \<and>
              srv_config srv = folder_config E folder \<and> srv_resolver srv = resolver))"
  proof (cases missing)
    case (Some k)
    from main_start_missing_key [OF assms log folder this [unfolded missing_def]] Some show ?thesis by simp
  next
    case None
    from main_start_web [OF assms log folder this [unfolded missing_def]] obtain server where
      web: "main_start E P api F Z clk cache = bind_out (actix_websrv_run E P F (folder_config E folder))
        (\<lambda>r. case r of Inl e \<Rightarrow> Inr (Inl e) | Inr (users, resolver) \<Rightarrow> Inr (Inr (server users resolver)))"
      and server: "\<And>users resolver. srv_config (server users resolver) = folder_config E folder \<and> srv_resolver (server users resolver) = resolver"
      by blast
    note run = websrv_outcome [OF folder, of P F "folder_config E folder", folded busy_def]
    have "\<exists>msg. pe_bind P port = Inl msg" if "busy = Some port" for port
    proof -
      from that have "isl (pe_bind P port)" unfolding busy_def find_Some_iff by blast
      then show ?thesis by (auto simp: isl_def)
    qed
    note port = this
    show ?thesis
    proof (cases "build_resolver F folder")
      case (Inl e)
      then show ?thesis unfolding web run by (simp add: None)
    next
      case (Inr R)
      show ?thesis
      proof (cases busy)
        case None
        with server show ?thesis unfolding web run by (simp add: \<open>missing = None\<close> Inr)
      next
        case (Some p)
        with port [OF Some] show ?thesis unfolding web run by (auto simp: \<open>missing = None\<close> Inr)
      qed
    qed
  qed
  then show ?thesis unfolding log folder missing_def busy_def required_keys_def prod.case sum.case .
qed

text \<open>The first choice of the menu says that it does nothing, but it writes a cell of a spreadsheet.\<close>

theorem hello_writes_sheet:
  fixes W ms
  defines "updates \<equiv> snd (set_single_cell (mw_sheets W) (mw_gsheets W) hello_sheet 1 2 ''Insert Value'')"
  shows "menu_choice W ''1'' ms = Some (Continue, ms\<lparr>ms_sheet := ms_sheet ms @ updates\<rparr>)"
  by (simp add: menu_choice_def updates_def)

section \<open>The web pages of a started server\<close>

lemma main_start_server:
  assumes "main_start E P api F Z clk cache = Inr (Inr srv)"
  shows "get_rqcore_config E None = Inr (srv_config srv)" and "srv_users srv = init_authorized_users None (srv_config srv)"
    and "srv_config srv ''email_hqserver'' \<noteq> None"
  using assms by (auto simp: main_start_def outcome_simps websrv_server init_rqemail_def config_key_def split: sum.splits prod.splits option.splits)

text \<open>The page for authorized users.\<close>

definition sample_request :: "app_request \<Rightarrow> app_request" where
  "sample_request req = req\<lparr>ar_info := (ar_info req)\<lparr>ri_method := ''GET'', ri_path := ''/useraccount/authorized_sample''\<rparr>\<rparr>"

text \<open>C34: In a started server, whatever many browsers have asked: the page for
  authorized users is given exactly to a browser whose session has an address that is the value of a key starting with
  \<open>email_\<close> in the configuration file (the mail password is stored under such a key), and the session's address was
  confirmed by Google in a callback of this browser since its last logout.\<close>

theorem started_server_authorizes:
  fixes W reqs
  assumes "main_start E P api F Z clk cache = Inr (Inr srv)"
  defines "st \<equiv> snd (run_events (app_handle (web_app_of srv W)) reqs app_init)"
  shows "\<exists>cfg resp. load_rqcore_config E = Inr (Inr cfg) \<and>
    fst (app_handle (web_app_of srv W) (b, sample_request req) st) = Inr (Inr resp) \<and>
    (status resp = 200 \<longleftrightarrow>
      (\<exists>k e. cfg (''email_'' @ k) = Some e \<and> ws_values (as_sessions st b) ''user_email'' = Some (SessionString e))) \<and>
    (\<forall>e. ws_values (as_sessions st b) ''user_email'' = Some (SessionString e) \<longrightarrow> confirmed (own_events b reqs) e)"
proof -
  let ?W = "web_app_of srv W" and ?s = "as_sessions st b"
  note srv = main_start_server [OF assms(1)]
  have cfg: "load_rqcore_config E = Inr (Inr (srv_config srv))"
  proof -
    obtain q where q: "load_rqcore_config E = Inr q" "srv_config srv = (case q of Inl _ \<Rightarrow> Map.empty | Inr cfg \<Rightarrow> cfg)"
      using srv(1) by (auto simp: get_rqcore_config_def outcome_simps)
    with srv(3) show ?thesis by (cases q) auto
  qed
  obtain es where es: "as_logs st = Some (last_n 50 es)" and own: "?s = snd (run_events (page_step ?W) (own_events b reqs) new_session)"
    unfolding st_def by (rule app_reachable)
  have users: "get_authorized_users (site_users (app_site ?W)) = {v. \<exists>k. srv_config srv (''email_'' @ k) = Some v}"
    using email_keys_spec by (simp add: web_app_of_def srv(2))
  have "app_service_of (sample_request req) = UserPage AuthorizedSample"
    by (simp add: app_service_of_def app_routes_def sample_request_def)
  with app_handle_state [OF es, of ?W b "sample_request req"]
  have resp: "fst (app_handle ?W (b, sample_request req) st) = Inr (Inr (insert_header ''cache-control'' ''public, max-age=2592000''
      (authorized_sample {v. \<exists>k. srv_config srv (''email_'' @ k) = Some v} ?s)))"
    by (auto simp: page_step_def users)
  have ok: "session_ok (own_events b reqs) ?s" unfolding own run_events_web_run by (rule web_run_ok)
  then have conf: "\<forall>e. ws_values ?s ''user_email'' = Some (SessionString e) \<longrightarrow> confirmed (own_events b reqs) e"
    by (simp add: session_ok_def)
  have "status (authorized_sample {v. \<exists>k. srv_config srv (''email_'' @ k) = Some v} ?s) = 200 \<longleftrightarrow>
      (\<exists>k e. srv_config srv (''email_'' @ k) = Some e \<and> ws_values ?s ''user_email'' = Some (SessionString e))"
    by (auto simp: authorized_sample_def session_get_def response_def split: option.splits session_value.splits)
  then show ?thesis unfolding resp using cfg conf
    by (intro exI [of _ "srv_config srv"] exI [of _ "insert_header _ _ _"] conjI) (simp_all add: insert_header_def)
qed

text \<open>A server on Linux with a small configuration file, and a browser in which Google has confirmed \<open>boss@x.com\<close>.\<close>

definition demo_entries :: "(string \<times> string) list" where
  "demo_entries = [(''email_hqserver'', ''hq@x.com''), (''email_hqserver_pwd'', ''secret''), (''email_boss'', ''boss@x.com''),
     (''gsheet_client_email'', ''g@x.com''), (''gsheet_private_key'', ''KEY''),
     (''rqcore_google_client_id'', ''id''), (''rqcore_google_client_secret'', ''secret'')]"

definition demo_linux :: host_env where
  "demo_linux = \<lparr>env_os = ''linux'', env_var = [''LOGNAME'' \<mapsto> ''u''],
     env_files = (\<lambda>f. if f = ''/home/u/RQ/sensitive_data/rqcore.config'' then Some (config_text demo_entries) else None)\<rparr>"

definition demo_process :: process_env where
  "demo_process = \<lparr>pe_log = \<lparr>lh_cargo_toml = True, lh_date = ''2025-06-16'', lh_proxy = True, lh_stdout = True,
       lh_file = (\<lambda>_. True), lh_logger = True\<rparr>, pe_now = 0, pe_cpus = Some 4, pe_pid = 7,
     pe_flavor = CurrentThread, pe_bind = (\<lambda>_. Inr ())\<rparr>"

lemma demo_config: "load_rqcore_config demo_linux = Inr (Inr (insert_all demo_entries Map.empty))"
proof -
  have "list_all clean_entry demo_entries"
    by (simp add: demo_entries_def clean_entry_def trim_id_iff is_ws1_def is_ws2_def is_ws3_def str_starts_with_def)
  then show ?thesis
    by (simp add: load_rqcore_config_def demo_linux_def sensitive_config_folder_path_def parse_config_text)
qed

lemma demo_main_start:
  obtains srv where "main_start demo_linux demo_process paper_api demo_tls eastern_2025 (\<lambda>_. 0) (mvc_new ''A'') = Inr (Inr srv)"
proof -
  have log: "init_log (pe_log demo_process) = Inr (Inr ''../../logs/rqcoresrv.2025-06-16.sqlog'')"
    by (simp add: init_log_def demo_process_def)
  have ports: "pe_bind demo_process port = Inr ()" for port by (simp add: demo_process_def)
  have os: "env_os demo_linux \<noteq> ''windows''" and folder: "sensitive_config_folder_path demo_linux = Inr ''/home/u/RQ/sensitive_data/''"
    by (simp_all add: demo_linux_def sensitive_config_folder_path_def)
  obtain email sheets where init: "init_rqemail (insert_all demo_entries Map.empty) None = Inr email"
    "init_rqgsheets (insert_all demo_entries Map.empty) None = Inr sheets"
    by (simp add: init_rqemail_def init_rqgsheets_def config_key_def demo_entries_def)
  obtain cache gws where brokers: "brokers_init paper_api False (env_var demo_linux ''USERDOMAIN'') (mvc_new ''A'') Map.empty = (Inr (), cache, gws)"
    by (simp add: brokers_init_def gateway_client_id_def Let_def)
  obtain R where "build_resolver demo_tls ''/home/u/RQ/sensitive_data/'' = Inr R"
    by (simp add: build_resolver_def load_certified_key_def load_certs_def load_private_key_def sni_add_def demo_tls_def)
  with that show thesis
    by (simp add: main_start_def actix_websrv_run_def ports log get_rqcore_config_def demo_config init os brokers folder scheduled_tasks_def)
qed

text \<open>The same server while its second port is taken.\<close>

theorem start_needs_keys_witness:
  "main_start demo_linux (demo_process\<lparr>pe_bind := \<lambda>port. if port = ''0.0.0.0:8443'' then Inl ''in use'' else Inr ()\<rparr>)
     paper_api demo_tls eastern_2025 (\<lambda>_. 0) (mvc_new ''A'') = Inr (Inl (IoErr ''in use''))"
proof -
  let ?P = "demo_process\<lparr>pe_bind := \<lambda>port. if port = ''0.0.0.0:8443'' then Inl ''in use'' else Inr ()\<rparr>"
  have log: "init_log (pe_log ?P) = Inr (Inr ''../../logs/rqcoresrv.2025-06-16.sqlog'')"
    by (simp add: init_log_def demo_process_def)
  have folder: "sensitive_config_folder_path demo_linux = Inr ''/home/u/RQ/sensitive_data/''"
    by (simp add: demo_linux_def sensitive_config_folder_path_def)
  have "Inr (folder_config demo_linux ''/home/u/RQ/sensitive_data/'') = (Inr (insert_all demo_entries Map.empty) :: rq_core_config outcome)"
    using get_folder_config [of demo_linux] demo_config by (simp add: folder get_rqcore_config_def)
  then have cfg: "folder_config demo_linux ''/home/u/RQ/sensitive_data/'' = insert_all demo_entries Map.empty" by simp
  have keys: "find (\<lambda>k. insert_all demo_entries Map.empty k = None)
      [''email_hqserver'', ''email_hqserver_pwd'', ''gsheet_client_email'', ''gsheet_private_key''] = None"
    by (simp add: demo_entries_def)
  obtain R where R: "build_resolver demo_tls ''/home/u/RQ/sensitive_data/'' = Inr R"
    by (simp add: build_resolver_def load_certified_key_def load_certs_def load_private_key_def sni_add_def demo_tls_def)
  have busy: "find (\<lambda>port. isl (pe_bind ?P port)) [''0.0.0.0:8080'', ''0.0.0.0:8443''] = Some ''0.0.0.0:8443''" by simp
  from start_needs_keys [OF eastern_laws.tz_laws_axioms, where P = ?P and E = demo_linux and api = paper_api and F = demo_tls
      and clk = "\<lambda>_. 0" and cache = "mvc_new ''A''", unfolded log folder prod.case sum.case cfg keys option.case R busy]
  show ?thesis by auto
qed

definition demo_app :: "(unit, unit) web_app" where
  "demo_app = \<lparr>app_site = \<lparr>site_percent = rfc3986, site_config = Map.empty, site_pages = demo_pages, site_users = None\<rparr>,
     app_parse_ip = Some, app_fmt_time = (\<lambda>_. []), app_fmt_date = (\<lambda>_. []), app_start = None,
     app_cpus = 1, app_pid = 1, app_gateways = Mutex False [], app_files = (\<lambda>_ _. Inr (response 404 [])), app_ws = (\<lambda>_. Inr (response 101 [])),
     app_parse_json = (\<lambda>_. None)\<rparr>"

definition demo_callback :: app_request where
  "demo_callback = \<lparr>ar_info = \<lparr>ri_start = 0, ri_scheme = ''https'', ri_method = ''GET'', ri_path = ''/useraccount/login/callback'',
       ri_query = ''code=4'', ri_realip = None, ri_elapsed_ns = 0\<rparr>,
     ar_http = demo_request [''code'' \<mapsto> ''4''], ar_uri_host = None, ar_host_header = None,
     ar_google = demo_google\<lparr>google_userinfo := (\<lambda>_. Answer (''boss@x.com'', ''Boss''))\<rparr>, ar_now = 0, ar_ws_ok = (\<lambda>_. True), ar_ws_msgs = []\<rparr>"

theorem started_server_authorizes_witness:
  "\<exists>srv resp1 resp2. main_start demo_linux demo_process paper_api demo_tls eastern_2025 (\<lambda>_. 0) (mvc_new ''A'') = Inr (Inr srv) \<and>
     fst (app_handle (web_app_of srv demo_app) (True, sample_request demo_callback)
       (snd (run_events (app_handle (web_app_of srv demo_app)) [(True, demo_callback)] app_init))) = Inr (Inr resp1) \<and> status resp1 = 200 \<and>
     fst (app_handle (web_app_of srv demo_app) (False, sample_request demo_callback)
       (snd (run_events (app_handle (web_app_of srv demo_app)) [(True, demo_callback)] app_init))) = Inr (Inr resp2) \<and> status resp2 \<noteq> 200"
proof -
  obtain srv where srv: "main_start demo_linux demo_process paper_api demo_tls eastern_2025 (\<lambda>_. 0) (mvc_new ''A'') = Inr (Inr srv)"
    by (rule demo_main_start)
  let ?W = "web_app_of srv demo_app" and ?cfg = "insert_all demo_entries Map.empty"
  let ?st = "snd (run_events (app_handle ?W) [(True, demo_callback)] app_init)"
  have cfg: "srv_config srv = ?cfg"
    using main_start_server(1) [OF srv] by (simp add: get_rqcore_config_def demo_config)
  have c: "get_google_oauth_config ?cfg (demo_request [''code'' \<mapsto> ''4'']) = Inr (''id'', ''secret'')"
    by (simp add: get_google_oauth_config_def demo_entries_def demo_request_def str_contains_def sublist_Cons_right)
  then have u: "google_user ?cfg (ar_google demo_callback) (demo_request [''code'' \<mapsto> ''4'']) = Inr (''boss@x.com'', ''Boss'')"
    by (simp add: google_user_def demo_google_def demo_callback_def) (simp add: demo_request_def)
  have route: "app_service_of demo_callback = UserPage (Callback (ar_google demo_callback) (demo_request [''code'' \<mapsto> ''4'']))"
    by (simp add: app_service_of_def app_routes_def demo_callback_def)
  have "storable (Callback (ar_google demo_callback) (demo_request [''code'' \<mapsto> ''4'']))"
    by (simp add: demo_callback_def demo_google_def)
  from finish_login_of [OF this, of _ _ _ Stranger]
  have "snd (page_step ?W (Callback (ar_google demo_callback) (demo_request [''code'' \<mapsto> ''4''])) new_session) = session_of (Member ''boss@x.com'' ''Boss'')"
    by (simp add: page_step_def web_app_of_def demo_app_def cfg google_callback_user u del: session_of.simps(2))
  then have boss: "as_sessions ?st True = session_of (Member ''boss@x.com'' ''Boss'')"
    using app_run_sessions [of app_init "[]" ?W "[(True, demo_callback)]" True]
    by (auto simp: app_init_def last_n_def route run_events_sel simp del: run_events.simps(2) session_of.simps(2))
  have other: "as_sessions ?st False = new_session"
    using app_run_sessions [of app_init "[]" ?W "[(True, demo_callback)]" False] by (auto simp: app_init_def last_n_def)
  have key: "?cfg (''email_'' @ ''boss'') = Some ''boss@x.com''" by (simp add: demo_entries_def)
  obtain resp1 where 1: "fst (app_handle ?W (True, sample_request demo_callback) ?st) = Inr (Inr resp1)"
    "status resp1 = 200 \<longleftrightarrow> (\<exists>k e. ?cfg (''email_'' @ k) = Some e \<and> ws_values (as_sessions ?st True) ''user_email'' = Some (SessionString e))"
    using started_server_authorizes [OF srv, where W = demo_app and reqs = "[(True, demo_callback)]" and b = True and req = demo_callback] by (auto simp: demo_config)
  obtain resp2 where 2: "fst (app_handle ?W (False, sample_request demo_callback) ?st) = Inr (Inr resp2)"
    "status resp2 = 200 \<longleftrightarrow> (\<exists>k e. ?cfg (''email_'' @ k) = Some e \<and> ws_values (as_sessions ?st False) ''user_email'' = Some (SessionString e))"
    using started_server_authorizes [OF srv, where W = demo_app and reqs = "[(True, demo_callback)]" and b = False and req = demo_callback] by (auto simp: demo_config)
  have "status resp1 = 200" unfolding 1(2) boss using key by auto
  moreover have "status resp2 \<noteq> 200" unfolding 2(2) other by simp
  ultimately show ?thesis using srv 1(1) 2(1) by blast
qed
end
