(* ===== verification/ServerDay.thy ===== *)
theory ServerDay
  imports TradingDay ServerMain
begin

text \<open>
  A started server and the days of its scheduler: \<open>main.rs\<close> and \<open>rqtask_scheduler.rs\<close> together. Only two
  machines trade; on every other one nothing the server does by itself or at the console submits an order.
\<close>

definition trading_machine :: "host_env \<Rightarrow> bool" where
  "trading_machine E \<longleftrightarrow>
     env_os E = ''windows'' \<and> env_var E ''USERDOMAIN'' \<in> {Some ''GYANTAL-PC'', Some ''GYANTAL-LAPTOP''}"

lemma main_start_tasks:
  assumes "main_start E P api F Z clk cache = Inr (Inr srv)"
  shows "scheduled_tasks Z clk (env_os E) (env_var E ''USERDOMAIN'') = Inr (srv_tasks srv)"
  using assms by (auto simp: main_start_def outcome_simps)

text \<open>A started server, the state of its scheduler.\<close>

definition server_scheduler :: "('c, 'e, 'r, 'k) server \<Rightarrow> instant \<Rightarrow> rq_task sched_state" where
  "server_scheduler srv wake = \<lparr>ss_tasks = srv_tasks srv, ss_wake = wake, ss_log = []\<rparr>"

lemma server_task_names:
  assumes "tz_laws Z (hms 3 0 0)" and "main_start E P api F Z clk cache = Inr (Inr srv)"
    and "(scheduler_step (rq_tasks Z) (\<lambda>_. False))\<^sup>*\<^sup>* (server_scheduler srv w) s"
  shows "map task_name (ss_tasks s) = ''HeartbeatTask'' #
      (if trading_machine E then [''FastRunnerPqpTask'', ''FastRunnerApTask''] else [])"
    and "list_all (\<lambda>r. rb_task r < length (ss_tasks s)) (ss_log s)"
proof -
  note tasks = main_start_tasks [OF assms(2)]
  have "map task_name (srv_tasks srv) = ''HeartbeatTask'' #
      (if trading_machine E then [''FastRunnerPqpTask'', ''FastRunnerApTask''] else [])"
    using scheduled_tasks_where [OF assms(1), where clk = clk and os = "env_os E" and userdomain = "env_var E ''USERDOMAIN''"] tasks by (simp add: trading_machine_def)
  with tasks_stay [OF assms(1,3)] scheduled_tasks_ok [OF assms(1) tasks]
  show "map task_name (ss_tasks s) = ''HeartbeatTask'' #
      (if trading_machine E then [''FastRunnerPqpTask'', ''FastRunnerApTask''] else [])"
    by (simp add: server_scheduler_def)
  show "list_all (\<lambda>r. rb_task r < length (ss_tasks s)) (ss_log s)"
    using scheduler_log(3) [OF assms(1) tasks main_reach] assms(3) by (simp add: server_scheduler_def)
qed

lemma heartbeat_quiet: "task_name t = ''HeartbeatTask'' \<Longrightarrow> run_submissions env t st = []"
  by (cases t) (simp_all add: run_submissions_def)

section \<open>Properties\<close>

text \<open>C12: On every machine but the two that trade, a started server submits nothing: whatever the scheduler
  begins, however late, and whatever worlds its runs meet.\<close>

theorem other_machines_never_trade:
  assumes "tz_laws Z (hms 3 0 0)" and "main_start E P api F Z clk cache = Inr (Inr srv)"
    and "(scheduler_step (rq_tasks Z) (\<lambda>_. False))\<^sup>*\<^sup>* (server_scheduler srv w) s"
    and "\<not> trading_machine E"
  shows "day_submissions Z R S s d = []"
proof -
  note names = server_task_names [OF assms(1-3)]
  have "run_submissions (R r) (ss_tasks s ! rb_task r) (S r) = []" if "r \<in> set (ss_log s)" for r
  proof (rule heartbeat_quiet)
    have i: "rb_task r < length (ss_tasks s)" using names(2) that by (simp add: list_all_iff)
    with arg_cong [OF names(1), of "\<lambda>ns. ns ! rb_task r"] arg_cong [OF names(1), of length] assms(4)
    show "task_name (ss_tasks s ! rb_task r) = ''HeartbeatTask''" by simp
  qed
  then show ?thesis by (auto simp: day_submissions_def)
qed

text \<open>The server on Linux, after its first heartbeat.\<close>

theorem other_machines_never_trade_witness:
  "\<exists>srv s. main_start demo_linux demo_process paper_api demo_tls eastern_2025 (\<lambda>_. 0) (mvc_new ''A'') = Inr (Inr srv) \<and>
     length (ss_log s) = 1 \<and>
     (scheduler_step (rq_tasks eastern_2025) (\<lambda>_. False))\<^sup>*\<^sup>* (server_scheduler srv 0) s \<and>
     day_submissions eastern_2025 (\<lambda>r. demo_env (rb_now r) demo_world) (\<lambda>_. demo_state) s 0 = []"
proof -
  obtain srv where srv: "main_start demo_linux demo_process paper_api demo_tls eastern_2025 (\<lambda>_. 0) (mvc_new ''A'') = Inr (Inr srv)"
    by (rule demo_main_start)
  have tasks: "srv_tasks srv = [heartbeat_new 0]"
    using main_start_tasks [OF srv] by (simp add: scheduled_tasks_def schedule_task_def demo_linux_def)

  have "scheduler_iteration (rq_tasks eastern_2025) ten_minutes (\<lambda>_. ten_minutes) [] [heartbeat_new 0] =
      (Inr ten_minutes, [heartbeat_new ten_minutes], [0])"
    by (simp add: scheduler_iteration_def collect_due_def heartbeat_new_def ten_minutes_def sleep_duration_def ns_per_sec_def)
  then have "scheduler_step (rq_tasks eastern_2025) (\<lambda>_. False) (server_scheduler srv 0)
      \<lparr>ss_tasks = [heartbeat_new ten_minutes], ss_wake = ten_minutes + ten_minutes, ss_log = ss_log (server_scheduler srv 0) @
      map (\<lambda>i. \<lparr>rb_task = i, rb_trigger = get_next_trigger_time (rq_tasks eastern_2025) (ss_tasks (server_scheduler srv 0) ! i),
        rb_now = ten_minutes\<rparr>) [0]\<rparr>" (is "scheduler_step _ _ _ ?s")
    by (intro scheduler_step.turn [where clk = "\<lambda>_. ten_minutes" and added = "[]"])
      (simp_all add: server_scheduler_def tasks ten_minutes_def ns_per_sec_def)
  then have reach: "(scheduler_step (rq_tasks eastern_2025) (\<lambda>_. False))\<^sup>*\<^sup>* (server_scheduler srv 0) ?s"
    by (rule r_into_rtranclp)
  have "\<not> trading_machine demo_linux" by (simp add: trading_machine_def demo_linux_def)
  from other_machines_never_trade [OF eastern_laws.tz_laws_axioms srv reach this] srv reach
  show ?thesis by (intro exI [of _ srv] exI [of _ ?s]) (simp add: server_scheduler_def)
qed
end
