(* ===== verification/OpenUrls.thy ===== *)
theory OpenUrls
  imports RustStr
begin

text \<open>
  \<open>tools/agy/open_urls_together/src/main.rs\<close>: a desktop helper that has \<open>cmd.exe\<close> open nine pages. The
  state is the list of commands the program has tried to start; \<open>ok n\<close> tells whether the \<open>n\<close>-th could be.
\<close>

section \<open>The program\<close>

text \<open>The escape of the shell's special characters that a URL may have.\<close>

definition cmd_escape :: "string \<Rightarrow> string" where
  "cmd_escape url = str_replace ''&'' ''^&'' (str_replace ''^'' ''^^'' url)"

definition start_command :: "(nat \<Rightarrow> bool) \<Rightarrow> string list \<Rightarrow> string list list \<Rightarrow> unit outcome \<times> string list list" where
  "start_command ok c started =
     (expect (if ok (length started) then Some () else None) ''there was an error'', started @ [c])"

definition open_in_browser :: "(nat \<Rightarrow> bool) \<Rightarrow> string \<Rightarrow> string list list \<Rightarrow> unit outcome \<times> string list list" where
  "open_in_browser ok url started = start_command ok [''cmd'', ''/c'', ''start'', cmd_escape url] started"

definition opened_urls :: "string list" where
  "opened_urls = [''https://24.hu'', ''https://www.ft.com'', ''https://www.napi.hu/'', ''https://www.hwsw.hu'',
     ''https://www.gamekapocs.hu/PC'', ''https://www.sciencedaily.com/news'', ''https://stockcharts.com/h-sc/ui?s=VXX'',
     ''https://stockcharts.com/h-sc/ui?s=$SPX'', ''https://www.dailyfx.com/gbp-usd'']"

fun open_all :: "(nat \<Rightarrow> bool) \<Rightarrow> string list \<Rightarrow> string list list \<Rightarrow> unit outcome \<times> string list list" where
  "open_all ok [] started = (Inr (), started)"
| "open_all ok (url # urls) started =
     (case open_in_browser ok url started of
        (Inl e, started) \<Rightarrow> (Inl e, started)
      | (Inr _, started) \<Rightarrow> open_all ok urls started)"

text \<open>\<open>written\<close>: the output of the last command could be copied to the standard output.\<close>

definition open_urls_main :: "(nat \<Rightarrow> bool) \<Rightarrow> bool \<Rightarrow> unit outcome \<times> string list list" where
  "open_urls_main ok written =
     (case open_all ok opened_urls [] of
        (Inl e, started) \<Rightarrow> (Inl e, started)
      | (Inr _, started) \<Rightarrow>
          (case start_command ok [''cmd'', ''/C'', ''dir''] started of
             (Inl e, started) \<Rightarrow> (Inl e, started)
           | (Inr _, started) \<Rightarrow>
               (expect (if written then Some () else None) ''called Result::unwrap() on an Err value'', started)))"

section \<open>Escaping\<close>

text \<open>What the shell reads: a caret takes the next character as it is.\<close>

fun cmd_read :: "string \<Rightarrow> string" where
  "cmd_read [] = []"
| "cmd_read [c] = (if c = CHR ''^'' then [] else [c])"
| "cmd_read (c # d # s) = (if c = CHR ''^'' then d # cmd_read s else c # cmd_read (d # s))"

text \<open>The characters the shell takes as commands: the unescaped ones.\<close>

fun cmd_bare :: "string \<Rightarrow> string" where
  "cmd_bare [] = []"
| "cmd_bare [c] = (if c = CHR ''^'' then [] else [c])"
| "cmd_bare (c # d # s) = (if c = CHR ''^'' then cmd_bare s else c # cmd_bare (d # s))"

lemma split_str_char: "split_str [c] s = split_char c s"
  by (induction s) (subst split_str.simps; simp split: list.split)+

lemma str_replace_char: "str_replace [c] new s = concat (map (\<lambda>x. if x = c then new else [x]) s)"
proof -
  have ne: "split_char c s \<noteq> []" for s by (induction s) (auto split: list.split)
  have "(case split_char c s of [] \<Rightarrow> [] | p # ps \<Rightarrow> p @ concat (map (\<lambda>q. new @ q) ps)) =
    concat (map (\<lambda>x. if x = c then new else [x]) s)"
  proof (induction s)
    case (Cons x s)
    then show ?case using ne [of s] by (cases "split_char c s") auto
  qed simp
  then show ?thesis by (simp add: str_replace_def split_str_char)
qed

lemma cmd_escape_char:
  "cmd_escape url = concat (map (\<lambda>c. if c \<in> {CHR ''^'', CHR ''&''} then [CHR ''^'', c] else [c]) url)"
  unfolding cmd_escape_def str_replace_char by (induction url) simp_all

lemma cmd_read_plain: "c \<noteq> CHR ''^'' \<Longrightarrow> cmd_read (c # s) = c # cmd_read s" "c \<noteq> CHR ''^'' \<Longrightarrow> cmd_bare (c # s) = c # cmd_bare s"
  by (cases s; simp)+

lemma cmd_escape_read: "cmd_read (cmd_escape url) = url" and cmd_escape_bare: "CHR ''&'' \<notin> set (cmd_bare (cmd_escape url))"
  unfolding cmd_escape_char by (induction url) (auto simp: cmd_read_plain)

lemma start_command_cases:
  "start_command ok c started = (if ok (length started) then Inr () else Inl (Panic ''there was an error''), started @ [c])"
  by (simp add: start_command_def)

text \<open>The pages are opened in order up to the first command that cannot be started.\<close>

lemma open_all_spec:
  "\<exists>n. snd (open_all ok urls started) = started @ map (\<lambda>u. [''cmd'', ''/c'', ''start'', cmd_escape u]) (take n urls) \<and>
     (fst (open_all ok urls started) = Inr () \<longleftrightarrow> (\<forall>i < length urls. ok (length started + i))) \<and>
     (fst (open_all ok urls started) = Inr () \<longrightarrow> n = length urls)"
proof (induction urls arbitrary: started)
  case Nil
  then show ?case by simp
next
  case (Cons u urls)
  let ?c = "[''cmd'', ''/c'', ''start'', cmd_escape u]"
  show ?case
  proof (cases "ok (length started)")
    case True
    obtain n where n: "snd (open_all ok urls (started @ [?c])) =
        (started @ [?c]) @ map (\<lambda>u. [''cmd'', ''/c'', ''start'', cmd_escape u]) (take n urls)"
      "fst (open_all ok urls (started @ [?c])) = Inr () \<longleftrightarrow> (\<forall>i < length urls. ok (length (started @ [?c]) + i))"
      "fst (open_all ok urls (started @ [?c])) = Inr () \<longrightarrow> n = length urls" using Cons by blast
    have "(\<forall>i < length (u # urls). ok (length started + i)) \<longleftrightarrow> (\<forall>i < length urls. ok (Suc (length started + i)))"
      using True by (auto simp: less_Suc_eq_0_disj)
    with n True show ?thesis
      by (intro exI [of _ "Suc n"]) (simp add: open_in_browser_def start_command_cases)
  next
    case False
    then show ?thesis
      by (intro exI [of _ 1]) (auto simp: open_in_browser_def start_command_cases intro: exI [of _ 0])
  qed
qed

text \<open>The helper starts the browser for the nine pages in order, stopping at the first command that fails, and ends well
  exactly when every command could be started and its output written; the shell reads back the very pages, with no
  ampersand left to end a command.\<close>

theorem open_urls_in_order:
  "\<exists>n. map (\<lambda>c. cmd_read (last c)) (take 9 (snd (open_urls_main ok written))) = take n opened_urls \<and>
     list_all (\<lambda>c. CHR ''&'' \<notin> set (cmd_bare (last c))) (snd (open_urls_main ok written)) \<and>
     (fst (open_urls_main ok written) = Inr () \<longleftrightarrow> (\<forall>i < 10. ok i) \<and> written)"
proof -
  have len: "length opened_urls = 9" by (simp add: opened_urls_def)
  obtain n where n: "snd (open_all ok opened_urls []) = map (\<lambda>u. [''cmd'', ''/c'', ''start'', cmd_escape u]) (take n opened_urls)"
    "fst (open_all ok opened_urls []) = Inr () \<longleftrightarrow> (\<forall>i < 9. ok i)" "fst (open_all ok opened_urls []) = Inr () \<longrightarrow> n = 9"
    using open_all_spec [of ok opened_urls "[]"] len by auto
  let ?f = "\<lambda>u. [''cmd'', ''/c'', ''start'', cmd_escape u]" and ?main = "open_urls_main ok written"
  have read: "map (\<lambda>c. cmd_read (last c)) (map ?f us) = us" and bare: "list_all (\<lambda>c. CHR ''&'' \<notin> set (cmd_bare (last c))) (map ?f us)"
    for us by (simp_all add: comp_def cmd_escape_read list_all_iff cmd_escape_bare)
  have ten: "(\<forall>i < 10. ok i) \<longleftrightarrow> (\<forall>i < 9. ok i) \<and> ok 9"
    using less_Suc_eq [of _ 9] by auto
  show ?thesis
  proof (cases "fst (open_all ok opened_urls [])")
    case (Inl e)
    then have m: "?main = (Inl e, map ?f (take n opened_urls))"
      using n(1) by (cases "open_all ok opened_urls []") (simp add: open_urls_main_def)
    have "take 9 (map ?f (take n opened_urls)) = map ?f (take n opened_urls)" using len by simp
    moreover have "\<not> (\<forall>i < 9. ok i)" using n(2) Inl by simp
    ultimately show ?thesis unfolding m ten using read bare by (intro exI [of _ n]) (simp del: map_map list.map)
  next
    case (Inr u)
    then have all: "\<forall>i < 9. ok i" "n = 9" using n(2,3) by simp_all
    then have m: "?main = (if ok 9 then expect (if written then Some () else None) ''called Result::unwrap() on an Err value''
        else Inl (Panic ''there was an error''), map ?f opened_urls @ [[''cmd'', ''/C'', ''dir'']])"
      using n(1) Inr len by (cases "open_all ok opened_urls []") (simp add: open_urls_main_def start_command_cases)
    have "take 9 (map ?f opened_urls @ [[''cmd'', ''/C'', ''dir'']]) = map ?f opened_urls" using len by simp
    then show ?thesis unfolding m ten using read [of opened_urls] bare [of opened_urls] all len
      by (intro exI [of _ 9]) (simp del: map_map list.map)
  qed
qed
end
