(* ===== verification/RqLog.thy ===== *)
theory RqLog
  imports F64Text
begin

text \<open>
  \<open>rqcommon/src/utils/rqlog.rs\<close> and the benchmarks of \<open>rqcommon/src/utils/time.rs\<close>: what goes to the log and
  what to the console. Which lines a logger keeps is decided elsewhere; here are the lines it is given. A benchmark runs
  its function once and reports the time, unless the function panics.
\<close>

section \<open>The macros\<close>

record log_output =
  log_info :: "string list"
  console :: "string list"

definition info_line :: "string \<Rightarrow> log_output \<Rightarrow> log_output" where
  "info_line msg out = out\<lparr>log_info := log_info out @ [msg]\<rparr>"

definition print_line :: "string \<Rightarrow> log_output \<Rightarrow> log_output" where
  "print_line msg out = out\<lparr>console := console out @ [msg]\<rparr>"

definition log_and_println :: "string \<Rightarrow> log_output \<Rightarrow> log_output" where
  "log_and_println msg out = print_line msg (info_line msg out)"

definition log_and_if_println :: "bool \<Rightarrow> string \<Rightarrow> log_output \<Rightarrow> log_output" where
  "log_and_if_println is_print msg out =
     (let out = info_line msg out in if is_print then print_line msg out else out)"

section \<open>Benchmarks\<close>

text \<open>
  \<open>start\<close> and \<open>stop\<close> are the readings of the monotonic clock, in nanoseconds; the function works on the output and a
  state of its own.
\<close>

definition elapsed_microsec :: "nat \<Rightarrow> f64" where
  "elapsed_microsec ns = as_secs_f64 ns * F64_Fin 1000000"

definition elapsed_text :: "string \<Rightarrow> nat \<Rightarrow> string" where
  "elapsed_text name ns = ''Elapsed Time of '' @ name @ '': '' @ show_f64_2 (elapsed_microsec ns) @ ''us''"

definition benchmark_elapsed_time ::
  "string \<Rightarrow> ('s \<times> log_output \<Rightarrow> unit outcome \<times> 's \<times> log_output) \<Rightarrow> nat \<Rightarrow> nat \<Rightarrow> 's \<times> log_output \<Rightarrow> unit outcome \<times> 's \<times> log_output" where
  "benchmark_elapsed_time name f start stop st =
     (case f st of
        (Inl e, st) \<Rightarrow> (Inl e, st)
      | (Inr _, s, out) \<Rightarrow> (Inr (), s, log_and_println (elapsed_text name (stop - start)) out))"

definition benchmark_elapsed_time_async ::
  "string \<Rightarrow> ('s \<times> log_output \<Rightarrow> unit outcome \<times> 's \<times> log_output) \<Rightarrow> nat \<Rightarrow> nat \<Rightarrow> 's \<times> log_output \<Rightarrow> unit outcome \<times> 's \<times> log_output" where
  "benchmark_elapsed_time_async name f start stop st =
     (case f st of
        (Inl e, st) \<Rightarrow> (Inl e, st)
      | (Inr _, s, out) \<Rightarrow> (Inr (), s, info_line (elapsed_text name (stop - start)) out))"

section \<open>The time reported\<close>

lemma rnd_step:
  assumes "0 \<le> x" and "x = 0 \<or> 1 / 10 ^ 12 \<le> x" and "L \<le> x" and "x \<le> U"
  shows "L * (1 - eps64) \<le> rnd x" and "rnd x \<le> U * (1 + eps64)"
proof -
  have e: "\<bar>rnd x - x\<bar> \<le> eps64 * \<bar>x\<bar>"
  proof (cases "x = 0")
    case False
    have "(2::rat) powi (-1022) \<le> 2 powi (-40)" by (rule powi2_mono) simp
    also have "\<dots> \<le> 1 / 10 ^ 12" by (simp add: power_int_def power_divide)
    finally show ?thesis using assms False by (intro rnd_error) auto
  qed simp
  have "x * (1 - eps64) \<le> rnd x" "rnd x \<le> x * (1 + eps64)"
    using e assms(1) by (auto simp: abs_le_iff algebra_simps)
  moreover have "L * (1 - eps64) \<le> x * (1 - eps64)" "x * (1 + eps64) \<le> U * (1 + eps64)"
    using assms eps64_bounds by (auto intro!: mult_right_mono)
  ultimately show "L * (1 - eps64) \<le> rnd x" "rnd x \<le> U * (1 + eps64)" by linarith+
qed

lemma f64_round_ns:
  assumes "0 \<le> x" and "x = 0 \<or> 1 / 10 ^ 12 \<le> x" and "x \<le> 2 ^ 200"
  shows "f64_round False x = F64_Fin (rnd x)"
proof (cases "x = 0")
  case True
  then show ?thesis by (simp add: f64_round_def f64_zero_def)
next
  case False
  then have x: "1 / 10 ^ 12 \<le> x" using assms(2) by simp
  have "(1 / 10 ^ 12) * (1 - eps64) \<le> rnd x" "rnd x \<le> 2 ^ 200 * (1 + eps64)"
    using rnd_step [OF assms(1,2) x assms(3)] .
  moreover have "0 < (1 / 10 ^ 12) * (1 - eps64)" "2 ^ 200 * (1 + eps64) < (2::rat) ^ 1024"
    using eps64_bounds by (simp_all add: eps64_def)
  ultimately have "0 < rnd x" "rnd x < 2 ^ 1024" by linarith+
  then show ?thesis using False by (simp add: f64_round_def)
qed

lemma f64_ns_ops:
  assumes "0 \<le> x" and "0 \<le> y"
  shows "F64_Fin x + F64_Fin y = f64_round False (x + y)" and "F64_Fin x * F64_Fin y = f64_round False (x * y)"
  using assms by (simp_all add: f64_add_def f64_mul_def)

lemma elapsed_microsec_value:
  assumes "ns div 10 ^ 9 \<le> 2 ^ 53"
  defines "us \<equiv> of_nat ns / 1000 :: rat"
  obtains x where "elapsed_microsec ns = F64_Fin x" and "0 \<le> x" and "us * (1 - eps64) ^ 3 \<le> x" and "x \<le> us * (1 + eps64) ^ 3"
proof -
  define s n :: nat where "s = ns div 10 ^ 9" and "n = ns mod 10 ^ 9"
  define q w :: rat where "q = of_nat n / 10 ^ 9" and "w = of_nat s + q"
  define y z :: rat where "y = of_nat s + rnd q" and "z = rnd y * 1000000"
  have n: "n < 10 ^ 9" and ns: "ns = s * 10 ^ 9 + n" and s: "s \<le> 2 ^ 53" using assms(1) by (simp_all add: s_def n_def)
  have q: "0 \<le> q" "q = 0 \<or> 1 / 10 ^ 9 \<le> q" "q \<le> 1" using n by (auto simp: q_def)
  have us: "us = w * 1000000" by (simp add: us_def ns q_def w_def field_simps)
  note e = eps64_bounds
  have s0: "0 \<le> eps64 * of_nat s" using e by simp
  have 1: "q * (1 - eps64) \<le> rnd q" "rnd q \<le> q * (1 + eps64)" by (rule rnd_step; use q in auto)+
  have y: "w * (1 - eps64) \<le> y" "y \<le> w * (1 + eps64)" using 1 s0 by (simp_all add: y_def w_def algebra_simps)
  have r0: "0 \<le> rnd q" using q(1) by (rule rnd_nonneg)
  have y0: "0 \<le> y" using r0 by (simp add: y_def)
  have counts: "f64_of_nat s = F64_Fin (of_nat s)" "f64_of_nat n = F64_Fin (of_nat n)"
    using s n by (auto intro!: f64_of_nat_exact)
  have round_q: "f64_round False q = F64_Fin (rnd q)" using q by (intro f64_round_ns) auto
  have "as_secs_f64 ns = f64_of_nat s + f64_of_nat n / F64_Fin (10 ^ 9)" by (simp only: as_secs_f64_def s_def n_def)
  also have "f64_of_nat n / F64_Fin (10 ^ 9) = F64_Fin (rnd q)"
    using round_q by (simp add: counts f64_div_Fin q_def)
  finally have secs: "as_secs_f64 ns = f64_round False y"
    using f64_ns_ops(1) [of "of_nat s" "rnd q"] r0 by (simp only: counts y_def of_nat_0_le_iff)
  show thesis
  proof (cases "ns = 0")
    case True
    then have "s = 0" "q = 0" by (simp_all add: s_def q_def n_def)
    then have "as_secs_f64 ns = F64_Fin 0" by (simp add: secs y_def f64_round_def f64_zero_def)
    then have "elapsed_microsec ns = F64_Fin 0" by (simp add: elapsed_microsec_def f64_mul_def f64_round_def f64_zero_def)
    then show ?thesis using True by (intro that [of 0]) (simp_all add: us_def)
  next
    case False
    then have "1 \<le> (of_nat ns :: rat)" by simp
    then have w: "1 / 10 ^ 9 \<le> w" using us by (simp add: us_def)
    have w2: "w \<le> 2 ^ 53 + 1" using q(3) s by (simp add: w_def)
    have lo: "1 / 10 ^ 11 \<le> w * (1 - eps64)" "1 / 10 ^ 11 \<le> w * (1 - eps64) ^ 2"
      using w e mult_mono [of "1 / 10 ^ 9" w "1/100" "1 - eps64"] mult_mono [of "1 / 10 ^ 9" w "1/100" "(1 - eps64) ^ 2"]
        power_mono [of "1/10" "1 - eps64" 2] by (simp_all add: power_divide)
    have hi: "w * (1 + eps64) \<le> 2 ^ 55" "w * (1 + eps64) ^ 2 \<le> 2 ^ 56"
      using w w2 e mult_mono [of w "2 ^ 54" "1 + eps64" 2] mult_mono [of w "2 ^ 54" "(1 + eps64) ^ 2" 4]
        power_mono [of "1 + eps64" 2 2] by simp_all
    have "(1 :: rat) / 10 ^ 12 \<le> 1 / 10 ^ 11" by simp
    with y(1) lo(1) have y1: "1 / 10 ^ 12 \<le> y" by linarith
    have 2: "w * (1 - eps64) ^ 2 \<le> rnd y" "rnd y \<le> w * (1 + eps64) ^ 2"
      using rnd_step [OF y0 disjI2 [OF y1] y] by (simp_all add: power2_eq_square mult.assoc)
    have z: "us * (1 - eps64) ^ 2 \<le> z" "z \<le> us * (1 + eps64) ^ 2" "0 \<le> z" "1 / 10 ^ 12 \<le> z"
      using 2 lo by (simp_all add: z_def us)
    have 3: "us * (1 - eps64) ^ 3 \<le> rnd z" "rnd z \<le> us * (1 + eps64) ^ 3"
      using rnd_step [OF z(3) disjI2 z(1,2)] z(4) by (simp_all add: power2_eq_square power3_eq_cube mult.assoc)
    have "f64_round False y = F64_Fin (rnd y)" using y y0 lo hi by (intro f64_round_ns) auto
    moreover have "f64_round False z = F64_Fin (rnd z)" using z 2 hi by (intro f64_round_ns) (auto simp: z_def)
    moreover have "0 \<le> rnd y" using y0 by (rule rnd_nonneg)
    ultimately have "elapsed_microsec ns = F64_Fin (rnd z)"
      using f64_ns_ops(2) [of "rnd y" 1000000] by (simp add: elapsed_microsec_def secs z_def)
    then show ?thesis using 3 rnd_nonneg [OF z(3)] by (intro that)
  qed
qed

lemma eps_cube: "1 - 4 * eps64 \<le> (1 - eps64) ^ 3" "(1 + eps64) ^ 3 \<le> 1 + 4 * eps64"
  by (simp_all add: eps64_def power3_eq_cube)

section \<open>Properties\<close>

text \<open>A benchmark runs its function exactly once, ends as it ends and leaves the state it leaves; when it returns, and
  only then, one line is added, to the log and, in the synchronous case, to the console. The microseconds it reports are
  off by at most half a hundredth and four roundings of the time on the clock (up to \<open>2\<^sup>5\<^sup>3\<close> seconds).\<close>

theorem benchmark_reports:
  assumes "f (s, out) = (r, s', out')" and "(stop - start) div 10 ^ 9 \<le> 2 ^ 53"
  shows "\<exists>n. \<bar>of_nat n / 100 - of_nat (stop - start) / 1000\<bar> \<le> 1 / 200 + 4 * eps64 * (of_nat (stop - start) / 1000 :: rat) \<and>
    (let line = ''Elapsed Time of '' @ name @ '': '' @ decimal_text n (-2) @ ''us'' in
     benchmark_elapsed_time name f start stop (s, out) =
       (r, s', if isl r then out' else out'\<lparr>log_info := log_info out' @ [line], console := console out' @ [line]\<rparr>) \<and>
     benchmark_elapsed_time_async name f start stop (s, out) =
       (r, s', if isl r then out' else out'\<lparr>log_info := log_info out' @ [line]\<rparr>))"
proof -
  let ?us = "of_nat (stop - start) / 1000 :: rat"
  obtain x where x: "elapsed_microsec (stop - start) = F64_Fin x" "0 \<le> x" "?us * (1 - eps64) ^ 3 \<le> x" "x \<le> ?us * (1 + eps64) ^ 3"
    using elapsed_microsec_value [OF assms(2)] .
  have "?us * (1 - 4 * eps64) \<le> ?us * (1 - eps64) ^ 3" "?us * (1 + eps64) ^ 3 \<le> ?us * (1 + 4 * eps64)"
    by (rule mult_left_mono, rule eps_cube, simp)+
  then have "?us * (1 - 4 * eps64) \<le> x" "x \<le> ?us * (1 + 4 * eps64)" using x by linarith+
  then have "?us - 4 * eps64 * ?us \<le> x" "x \<le> ?us + 4 * eps64 * ?us"
    using right_diff_distrib [of ?us 1 "4 * eps64"] distrib_left [of ?us 1 "4 * eps64"] mult.commute [of ?us "4 * eps64"]
    by linarith+
  then have "\<bar>x - ?us\<bar> \<le> 4 * eps64 * ?us" by linarith
  then have "\<bar>of_nat (nat (rne (x * 100))) / 100 - ?us\<bar> \<le> 1 / 200 + 4 * eps64 * ?us"
    using rounded_hundredths [of x] x(2) by linarith
  then show ?thesis
    using assms(1) x(1,2)
    by (intro exI [of _ "nat (rne (x * 100))"])
      (auto simp: benchmark_elapsed_time_def benchmark_elapsed_time_async_def elapsed_text_def log_and_println_def
        print_line_def info_line_def Let_def split: sum.split)
qed

theorem benchmark_reports_witness:
  "\<exists>n. \<bar>of_nat n / 100 - 3/2\<bar> \<le> (1 / 100 :: rat) \<and>
    benchmark_elapsed_time ''f'' (\<lambda>(s, out). (Inr (), Suc s, out)) 500 2000 (0, \<lparr>log_info = [], console = []\<rparr>) =
      (Inr (), Suc 0, \<lparr>log_info = [''Elapsed Time of f: '' @ decimal_text n (-2) @ ''us''],
         console = [''Elapsed Time of f: '' @ decimal_text n (-2) @ ''us'']\<rparr>)"
proof -
  have "q \<le> 1 / 200 + 6 * eps64 \<Longrightarrow> q \<le> 1 / 100" for q by (simp add: eps64_def)
  with benchmark_reports [of "\<lambda>(s, out). (Inr (), Suc s, out)" 0 "\<lparr>log_info = [], console = []\<rparr>" "Inr ()" "Suc 0"
      "\<lparr>log_info = [], console = []\<rparr>" 2000 500 "''f''"]
  show ?thesis by (auto simp: Let_def)
qed

end
