(* ===== verification/QuoteAge.thy ===== *)
theory QuoteAge
  imports Brokers
begin

text \<open>
  How old a quote of the cache may be: \<open>place_orders\<close> (\<open>brokers_watcher.rs\<close>) writes that a quote of more than two
  minutes is stale, and the start of a stream (\<open>mark_value_cache.rs\<close>) keeps the quotes of the streams before it. Neither
  has any effect on the orders.
\<close>

section \<open>The log has no effect on a placement\<close>

definition same_orders :: "'a \<times> 'c trade_io \<Rightarrow> 'a \<times> 'c trade_io \<Rightarrow> bool" where
  "same_orders p q \<longleftrightarrow> fst p = fst q \<and> submissions (snd p) = submissions (snd q)"

lemma place_order_log_blind:
  "submissions io = submissions io' \<Longrightarrow>
    same_orders (place_order api sim gy dc od p io) (place_order api sim gy dc od p io')"
  by (auto simp: same_orders_def place_order_def log_io_def Let_def split: option.split)

lemma run_plan_log_blind:
  "submissions io = submissions io' \<Longrightarrow> same_orders (run_plan api sim gy dc plan io) (run_plan api sim gy dc plan io')"
proof (induction plan arbitrary: io io')
  case (Cons q plan)
  obtain od s where q: "q = (od, s)" by fastforce
  show ?case
  proof (cases s)
    case (Inr p)
    obtain r io1 io1' where 1: "place_order api sim gy dc od p io = (r, io1)" "place_order api sim gy dc od p io' = (r, io1')"
      "submissions io1 = submissions io1'"
      using place_order_log_blind [OF Cons.prems, of api sim gy dc od p] unfolding same_orders_def by (metis prod.collapse)
    from Cons.IH [OF 1(3)] show ?thesis by (auto simp: q Inr 1 same_orders_def split: sum.split)
  qed (simp add: q same_orders_def Cons.prems)
qed (simp add: same_orders_def)

lemma place_orders_values:
  assumes "\<And>t. get_mark_value cache t = get_mark_value cache' t"
  shows "same_orders (place_orders api gws cache orders sim io) (place_orders api gws cache' orders sim io)"
proof -
  have prices: "order_prices cache orders = order_prices cache' orders" by (simp add: order_prices_def fun_eq_iff assms)
  define k where "k c = cached_prices (get_mark_timevalues c (map ticker orders)) Map.empty io" for c
  have k: "fst (k c) = order_prices c orders" "submissions (snd (k c)) = submissions io" for c
    using cached_prices_orders [of c orders io] cached_prices_submissions [OF surjective_pairing, of _ _ io]
    by (simp_all add: k_def)
  have p: "place_orders api gws c orders sim io = (if orders = [] then (Inr (), io) else
      case gateway_client gws Gyantal of None \<Rightarrow> (Inr (), snd (k c)) | Some gy \<Rightarrow>
      (case gateway_client gws DcMain of None \<Rightarrow> (Inr (), snd (k c)) | Some dc \<Rightarrow>
        run_plan api sim gy dc (order_plan api dc (fst (k c)) orders) (snd (k c))))" for c
    by (simp add: place_orders_def k_def split_def Let_def place_loops_plan [unfolded split_def] split: option.split)
  have "submissions (snd (k cache)) = submissions (snd (k cache'))" by (simp add: k)
  from run_plan_log_blind [OF this, of api sim] show ?thesis
    unfolding p k prices by (auto simp: k same_orders_def split: option.split)
qed

section \<open>Properties\<close>

text \<open>The quotes of a cache with other times.\<close>

definition aged :: "(string \<Rightarrow> instant \<Rightarrow> instant) \<Rightarrow> mark_value_cache \<Rightarrow> mark_value_cache" where
  "aged f c = c\<lparr>mark_timevalues := (\<lambda>t. map_option (\<lambda>(v, ts). (v, f t ts)) (mark_timevalues c t))\<rparr>"

text \<open>C40: A placement ends the same way and submits the same orders at the same limits whatever the age of the cached
  quotes, and the start of a new stream before it changes nothing: a quote of an earlier day is traded at like one of this
  second.\<close>

theorem stale_quotes_trade:
  "fst (place_orders api gws (start_quote_stream ok (aged f cache)) orders sim io) = fst (place_orders api gws cache orders sim io) \<and>
   submissions (snd (place_orders api gws (start_quote_stream ok (aged f cache)) orders sim io)) =
     submissions (snd (place_orders api gws cache orders sim io))"
proof -
  have "get_mark_value (start_quote_stream ok (aged f cache)) t = get_mark_value cache t" for t
    by (auto simp: get_mark_value_def start_quote_stream_def aged_def Let_def split: option.split)
  from place_orders_values [OF this, of api gws orders sim io] show ?thesis by (simp add: same_orders_def)
qed

end
