(* ===== verification/AuditTrail.thy ===== *)
theory AuditTrail
  imports FastRunnerTask F64Text
begin

text \<open>
  The mail a run of \<open>fast_runner_task.rs\<close> sends at its end is the user log of its runner. This theory shows that it
  is an exact account of the orders: from the lines, and from the text, one reads every submission with its side,
  ticker, share count and limit, in order.
\<close>

section \<open>Orders and their lines\<close>

text \<open>What a line says of an order; a line written before an order has the price the limit is computed from.\<close>

fun line_submission :: "'c \<Rightarrow> log_line \<Rightarrow> 'c submission option" where
  "line_submission gy (LogBeforeOrder ty t c p n) =
     Some \<lparr>sub_client = gy, sub_type = ty, sub_ticker = t, sub_shares = n, sub_limit = order_limit ty p\<rparr>"
| "line_submission gy _ = None"

fun order_line :: "log_line \<Rightarrow> bool" where
  "order_line (LogBeforeOrder ty t c p n) = True"
| "order_line _ = False"

lemma line_submission_None: "line_submission gy l = None \<longleftrightarrow> \<not> order_line l"
  by (cases l) simp_all

fun start_line :: "log_line \<Rightarrow> bool" where
  "start_line (LogTaskStarted n d sim) = True"
| "start_line _ = False"

definition reported :: "'c gateways \<Rightarrow> log_line list \<Rightarrow> 'c submission list" where
  "reported gws lines =
     (case gateway_client gws Gyantal of None \<Rightarrow> [] | Some gy \<Rightarrow> List.map_filter (line_submission gy) lines)"

lemma reported_simps [simp]:
  "reported gws [] = []" "reported gws (a @ b) = reported gws a @ reported gws b"
  by (simp_all add: reported_def List.map_filter_def split: option.split)

lemma reported_quiet: "\<not> order_line l \<Longrightarrow> reported gws [l] = []"
  by (simp add: reported_def List.map_filter_def line_submission_None split: option.split)

text \<open>Submissions and log grow together.\<close>

definition accounted :: "'c gateways \<Rightarrow> bool \<Rightarrow> 'c trade_io \<Rightarrow> 'c trade_io \<Rightarrow> bool" where
  "accounted gws sim io io' \<longleftrightarrow> (\<exists>ls. user_log io' = user_log io @ ls \<and> list_all (\<lambda>l. \<not> start_line l) ls \<and>
     submissions io' = submissions io @ (if sim then [] else reported gws ls))"

lemma accounted_refl [simp]: "accounted gws sim io io"
  by (simp add: accounted_def)

lemma accounted_trans: "accounted gws sim a b \<Longrightarrow> accounted gws sim b c \<Longrightarrow> accounted gws sim a c"
  unfolding accounted_def by (elim exE, intro exI [of _ "_ @ _"]) auto

lemma accounted_log: "\<not> order_line l \<Longrightarrow> \<not> start_line l \<Longrightarrow> accounted gws sim io (log_io l io)"
  unfolding accounted_def by (rule exI [of _ "[l]"]) (simp add: log_io_def reported_quiet)

lemma place_order_accounted:
  assumes "gateway_client gws Gyantal = Some gy" and "place_order api sim gy dc od p io = (r, io')"
  shows "accounted gws sim io io'"
proof -
  let ?l = "LogBeforeOrder (order_type od) (ticker od) (company_name od) p (floor_quot_i32 (pos_market_value od) p)"
  consider l where "io' = log_io l io" "\<not> order_line l" "\<not> start_line l"
    | "sim" "io' = log_io ?l io"
    | s where "\<not> sim" "line_submission gy ?l = Some s" "io' = (log_io ?l io)\<lparr>submissions := submissions io @ [s]\<rparr>"
    using assms(2) by (auto simp: place_order_def Let_def split: if_splits option.splits)
  then show ?thesis
  proof cases
    case (1 l)
    then show ?thesis using accounted_log by simp
  next
    case 2
    then show ?thesis unfolding accounted_def by (intro exI [of _ "[?l]"]) (simp add: log_io_def)
  next
    case (3 s)
    then show ?thesis unfolding accounted_def
      by (intro exI [of _ "[?l]"]) (simp add: log_io_def reported_def assms(1) List.map_filter_def)
  qed
qed

lemma run_plan_accounted:
  assumes "gateway_client gws Gyantal = Some gy"
  shows "accounted gws sim io (snd (run_plan api sim gy dc plan io))"
proof (induction plan arbitrary: io)
  case (Cons q plan)
  obtain od s where q: "q = (od, s)" by fastforce
  show ?case
  proof (cases s)
    case (Inr p)
    obtain r1 io1 where 1: "place_order api sim gy dc od p io = (r1, io1)" by fastforce
    note place_order_accounted [OF assms 1]
    with accounted_trans [OF this Cons.IH [of io1]] show ?thesis by (simp add: q Inr 1 split: sum.split)
  qed (simp add: q)
qed simp

lemma cached_prices_accounted: "accounted gws sim io (snd (cached_prices qs m io))"
proof (induction qs arbitrary: m io)
  case (Cons q qs)
  obtain t v ts where q: "q = (t, v, ts)" by (cases q)
  have "accounted gws sim io (log_io (LogMarkCache t v ts) io)" by (rule accounted_log) simp_all
  with Cons.IH show ?case by (auto simp: q Let_def intro: accounted_trans)
qed simp

lemma place_orders_accounted: "accounted gws sim io (snd (place_orders api gws cache orders sim io))"
proof -
  obtain prices io1 where c: "cached_prices (get_mark_timevalues cache (map ticker orders)) Map.empty io = (prices, io1)"
    by fastforce
  have 1: "accounted gws sim io io1" using cached_prices_accounted [of gws sim io] c by (metis snd_conv)
  show ?thesis
  proof (cases "gateway_client gws Gyantal")
    case (Some gy)
    show ?thesis
    proof (cases "gateway_client gws DcMain")
      case dc: (Some dc)
      have "accounted gws sim io1 (snd (run_plan api sim gy dc (order_plan api dc prices orders) io1))"
        by (rule run_plan_accounted [OF Some])
      from accounted_trans [OF 1 this] show ?thesis
        by (simp add: place_orders_def c Some dc place_loops_plan)
    qed (use 1 in \<open>simp add: place_orders_def c Some\<close>)
  qed (use 1 in \<open>simp add: place_orders_def c\<close>)
qed

section \<open>Iterations and the trading loop\<close>

definition audited :: "'c gateways \<Rightarrow> fast_runner \<Rightarrow> 'c submission list \<Rightarrow> fast_runner \<Rightarrow> 'c submission list \<Rightarrow> bool" where
  "audited gws fr subs fr' subs' \<longleftrightarrow> is_simulation fr' = is_simulation fr \<and>
     (\<exists>ls. fr_user_log fr' = fr_user_log fr @ ls \<and> list_all (\<lambda>l. \<not> start_line l) ls \<and>
      subs' = subs @ (if is_simulation fr then [] else reported gws ls))"

lemma audited_refl [simp]: "audited gws fr subs fr subs"
  by (simp add: audited_def)

lemma audited_trans: "audited gws a s b t \<Longrightarrow> audited gws b t c u \<Longrightarrow> audited gws a s c u"
proof -
  assume "audited gws a s b t" "audited gws b t c u"
  then obtain ls ms where "fr_user_log b = fr_user_log a @ ls" "list_all (\<lambda>l. \<not> start_line l) ls"
    "t = s @ (if is_simulation a then [] else reported gws ls)" "fr_user_log c = fr_user_log b @ ms"
    "list_all (\<lambda>l. \<not> start_line l) ms" "u = t @ (if is_simulation b then [] else reported gws ms)"
    "is_simulation b = is_simulation a" "is_simulation c = is_simulation b"
    unfolding audited_def by blast
  then show "audited gws a s c u" unfolding audited_def by (intro conjI exI [of _ "ls @ ms"]) simp_all
qed

lemma audited_log:
  "\<not> order_line l \<Longrightarrow> \<not> start_line l \<Longrightarrow> audited gws fr subs fr1 subs \<Longrightarrow> audited gws fr subs (fr_log l fr1) subs"
  by (erule audited_trans) (auto simp: audited_def fr_log_def reported_quiet)

lemma audited_upd [simp]:
  "audited gws fr subs (fr\<lparr>m_is_cookies_surely_working := b\<rparr>) subs"
  "audited gws fr subs (fr\<lparr>cookies := ck, cookies_file_last_modtime := t\<rparr>) subs"
  by (simp_all add: audited_def)

text \<open>An iteration of a loop, and a relation every iteration keeps.\<close>

locale loop_relation =
  fixes iter :: "nat \<Rightarrow> fast_runner \<Rightarrow> 'c submission list \<Rightarrow> unit outcome \<times> fast_runner \<times> 'c submission list"
    and R :: "fast_runner \<Rightarrow> 'c submission list \<Rightarrow> fast_runner \<Rightarrow> 'c submission list \<Rightarrow> bool"
  assumes R_refl: "R fr subs fr subs"
    and R_trans: "R a s b t \<Longrightarrow> R b t c u \<Longrightarrow> R a s c u"
    and R_iter: "iter i fr subs = (r, fr', subs') \<Longrightarrow> R fr subs fr' subs'"
begin

lemma task_loop_R:
  assumes "task_loop iter forcerun loop_endtime clock i fr subs = Some (r, fr', subs', n)"
  shows "R fr subs fr' subs'"
proof -
  let ?P = "\<lambda>it forcerun loop_endtime clock i fr subs (res :: unit outcome \<times> fast_runner \<times> 'c submission list \<times> nat).
    it = iter \<longrightarrow> R fr subs (fst (snd res)) (fst (snd (snd res)))"
  have "?P iter forcerun loop_endtime clock i fr subs (r, fr', subs', n)"
  proof (rule task_loop.raw_induct [where P = ?P, OF _ assms], intro impI)
    fix loop it forcerun loop_endtime clock i fr subs and res :: "unit outcome \<times> fast_runner \<times> 'c submission list \<times> nat"
    assume IH: "\<And>it forcerun loop_endtime clock i fr subs res.
        loop it forcerun loop_endtime clock i fr subs = Some res \<Longrightarrow>
        ?P it forcerun loop_endtime clock i fr subs res"
      and eq: "(if \<not> clock i < loop_endtime then Some (Inr (), fr, subs, i)
        else case it i fr subs of
            (Inl e, fr, subs) \<Rightarrow> Some (Inl e, fr, subs, Suc i)
          | (Inr _, fr, subs) \<Rightarrow>
              if forcerun then Some (Inr (), fr, subs, Suc i)
              else if has_trading_ever_started fr then Some (Inr (), fr, subs, Suc i)
              else loop it forcerun loop_endtime clock (Suc i) fr subs) = Some res"
      and it: "it = iter"
    obtain r1 fr1 subs1 where s: "iter i fr subs = (r1, fr1, subs1)" by (metis prod_cases3)
    consider (over) "fst (snd res) = fr" "fst (snd (snd res)) = subs" | (last) "fst (snd res) = fr1" "fst (snd (snd res)) = subs1"
      | (more) "loop iter forcerun loop_endtime clock (Suc i) fr1 subs1 = Some res"
      using eq by (auto simp: it s split: if_splits sum.splits)
    then show "R fr subs (fst (snd res)) (fst (snd (snd res)))"
    proof cases
      case over
      then show ?thesis using R_refl by simp
    next
      case last
      then show ?thesis using R_iter [OF s] by simp
    next
      case more
      from R_trans [OF R_iter [OF s]] IH [OF more] show ?thesis by simp
    qed
  qed
  then show ?thesis by simp
qed

end

lemma ensure_cookies_audited:
  "ensure_cookies_loaded w fr = (r, fr1) \<Longrightarrow> audited gws fr subs fr1 subs"
  by (auto simp: ensure_cookies_loaded_def Let_def split: if_splits option.splits)

lemma transactions_of_history_audited:
  "transactions_of_history w an body fr = (r, fr1) \<Longrightarrow> audited gws fr subs fr1 subs"
  by (auto simp: transactions_of_history_def Let_def intro!: audited_log
      split: if_splits option.splits sum.splits abnormal.splits)

lemma transactions_of_articles_audited:
  "transactions_of_articles w body fr = (r, fr1) \<Longrightarrow> audited gws fr subs fr1 subs"
  by (auto simp: transactions_of_articles_def Let_def split: if_splits option.splits sum.splits)

lemma get_transactions_audited:
  "get_new_transactions_pqp w fr = (r, fr1) \<Longrightarrow> audited gws fr subs fr1 subs"
  "get_new_transactions_ap w fr = (r, fr1) \<Longrightarrow> audited gws fr subs fr1 subs"
proof -
  obtain r0 fr0 where e: "ensure_cookies_loaded w fr = (r0, fr0)" by fastforce
  note 0 = ensure_cookies_audited [OF e, of gws subs]
  note 1 = audited_trans [OF 0 audited_upd(1), of False]
  show "audited gws fr subs fr1 subs" if "get_new_transactions_pqp w fr = (r, fr1)"
    using that 0 1 by (auto simp: get_new_transactions_pqp_def e Let_def split: sum.splits
        intro: audited_trans [OF 1] transactions_of_history_audited)
  show "audited gws fr subs fr1 subs" if "get_new_transactions_ap w fr = (r, fr1)"
    using that 0 1 by (auto simp: get_new_transactions_ap_def e Let_def split: sum.splits
        intro: audited_trans [OF 1] transactions_of_articles_audited)
qed

lemma fr_place_orders_audited:
  assumes "fr_place_orders api gws cache name orders (fr\<lparr>has_trading_ever_started := b\<rparr>) subs = (r, fr', subs')"
  shows "audited gws fr subs fr' subs'"
  using assms place_orders_accounted [of gws "is_simulation fr" "\<lparr>submissions = subs, user_log = fr_user_log fr\<rparr>" api cache orders]
  by (auto simp: fr_place_orders_eq accounted_def audited_def Let_def)

lemma audited_then_place:
  assumes "fr_place_orders api gws cache name orders (fr1\<lparr>has_trading_ever_started := b\<rparr>) subs = (r, fr', subs')"
    and "audited gws fr subs fr1 subs"
  shows "audited gws fr subs fr' subs'"
  using audited_trans [OF assms(2) fr_place_orders_audited [OF assms(1)]] .

lemma iteration_audited:
  "pqp_iteration env cache w fr subs = (r, fr', subs') \<Longrightarrow> audited (re_gateways env) fr subs fr' subs'"
  "ap_iteration env cache w fr subs = (r, fr', subs') \<Longrightarrow> audited (re_gateways env) fr subs fr' subs'"
proof -
  obtain q1 fr1 q2 fr2 where g: "get_new_transactions_pqp w fr = (q1, fr1)" "get_new_transactions_ap w fr = (q2, fr2)"
    by fastforce
  note 1 = get_transactions_audited(1) [OF g(1), of "re_gateways env" subs]
    and 2 = get_transactions_audited(2) [OF g(2), of "re_gateways env" subs]
  show "audited (re_gateways env) fr subs fr' subs'" if "pqp_iteration env cache w fr subs = (r, fr', subs')"
    using that 1
    by (auto simp: pqp_iteration_def fastrunning_loop_pqp_impl_def g Let_def split: sum.splits if_splits
        intro!: audited_log elim!: audited_then_place)
  show "audited (re_gateways env) fr subs fr' subs'" if "ap_iteration env cache w fr subs = (r, fr', subs')"
    using that 2
    by (auto simp: ap_iteration_def fastrunning_loop_ap_impl_def g Let_def split: sum.splits if_splits
        intro!: audited_log elim!: audited_then_place)
qed

interpretation pqp_log: loop_relation "\<lambda>i. pqp_iteration env (caches i) (worlds i)" "audited (re_gateways env)"
  for env :: "('c, 'e, 'r, 'v) run_env" and caches worlds
  by unfold_locales (auto intro: audited_trans iteration_audited)

interpretation ap_log: loop_relation "\<lambda>i. ap_iteration env (caches i) (worlds i)" "audited (re_gateways env)"
  for env :: "('c, 'e, 'r, 'v) run_env" and caches worlds
  by unfold_locales (auto intro: audited_trans iteration_audited)

section \<open>Runs and their mails\<close>

text \<open>The orders a mail tells: those of a log whose run was live.\<close>

fun live_start :: "log_line \<Rightarrow> bool" where
  "live_start (LogTaskStarted n d sim) = (\<not> sim)"
| "live_start _ = False"

definition mail_orders :: "'c gateways \<Rightarrow> sent_mail \<Rightarrow> 'c submission list" where
  "mail_orders gws m = (case mail_content m of CandidatesMail s p c \<Rightarrow> []
     | LogMail lines \<Rightarrow> if list_ex live_start lines then reported gws lines else [])"

lemma live_start_line: "list_all (\<lambda>l. \<not> start_line l) ls \<Longrightarrow> \<not> list_ex live_start ls"
proof -
  have "live_start l \<Longrightarrow> start_line l" for l by (cases l) simp_all
  then show "list_all (\<lambda>l. \<not> start_line l) ls \<Longrightarrow> \<not> list_ex live_start ls" by (auto simp: list_all_iff list_ex_iff)
qed

text \<open>What the mails of a run tell of its orders: everything if it ends, and has somebody to write to; nothing otherwise.\<close>

definition mails_tell :: "('c, 'e, 'r, 'v) run_env \<Rightarrow> unit outcome \<Rightarrow> 'c run_state \<Rightarrow> 'c run_state \<Rightarrow> bool" where
  "mails_tell env r st st' \<longleftrightarrow> (\<exists>mails new. rs_mails st' = rs_mails st @ mails \<and> rs_subs st' = rs_subs st @ new \<and>
     concat (map (mail_orders (re_gateways env)) mails) =
       (if isl r \<or> re_config env ''email_gyant'' = None then [] else new))"

definition started :: "fast_runner \<Rightarrow> bool" where
  "started fr \<longleftrightarrow> (\<exists>l name d. fr_user_log fr = [l, LogTaskStarted name d (is_simulation fr)] \<and> \<not> order_line l \<and> \<not> start_line l)"

lemma audited_tells:
  assumes "started fr" and "audited gws fr subs fr' (subs @ new)"
  shows "mail_orders gws \<lparr>mail_to = to, mail_subject = subject, mail_content = LogMail (fr_user_log fr')\<rparr> = new"
proof -
  from assms obtain l name d ls where "fr_user_log fr' = l # LogTaskStarted name d (is_simulation fr) # ls"
    and l: "\<not> order_line l" "\<not> start_line l" and ls: "list_all (\<lambda>l. \<not> start_line l) ls"
    and new: "new = (if is_simulation fr then [] else reported gws ls)"
    by (auto simp: started_def audited_def)
  then have log: "fr_user_log fr' = [l] @ [LogTaskStarted name d (is_simulation fr)] @ ls" by simp
  have "reported gws (fr_user_log fr') = reported gws ls" unfolding log reported_simps(2) using l(1) by (simp add: reported_quiet)
  moreover have "list_ex live_start (fr_user_log fr') \<longleftrightarrow> \<not> is_simulation fr"
    using live_start_line [OF ls] live_start_line [of "[l]"] l(2) by (simp add: log)
  ultimately show ?thesis by (simp add: mail_orders_def new)
qed

lemma run_trading_tells:
  assumes "loop_relation (\<lambda>i. iteration (cache_at (re_evolve env) (start_quote_stream (re_stream_ok env) (rs_cache st)) i)
      (re_worlds env i)) (audited (re_gateways env))"
    and "run_trading env iteration forcerun subject fr st = Some (r, st')" and "started fr"
  shows "mails_tell env r st st'"
proof -
  let ?iter = "\<lambda>i. iteration (cache_at (re_evolve env) (start_quote_stream (re_stream_ok env) (rs_cache st)) i) (re_worlds env i)"
  let ?loop = "task_loop ?iter forcerun (re_loop_start env + loop_duration fr) (re_clock env) 0 fr (rs_subs st)"
  have "?loop \<noteq> None" using assms(2) by (auto simp: run_trading_def Let_def)
  then obtain q fr1 subs n where l: "?loop = Some (q, fr1, subs, n)" by (cases ?loop) auto
  note A = loop_relation.task_loop_R [OF assms(1) l]
  then obtain new where new: "subs = rs_subs st @ new" by (auto simp: audited_def)
  note T = audited_tells [OF assms(3) A [unfolded new]]
  show ?thesis
  proof (cases "isl q \<or> re_config env ''email_gyant'' = None")
    case True
    then have "rs_subs st' = rs_subs st @ new" "rs_mails st' = rs_mails st @ []"
      and "isl r \<or> re_config env ''email_gyant'' = None"
      using assms(2) new by (cases q; auto simp: run_trading_def Let_def l)+
    then show ?thesis unfolding mails_tell_def by (intro exI [of _ "[]"] exI [of _ new]) simp
  next
    case False
    then obtain to where c: "re_config env ''email_gyant'' = Some to" and q: "\<not> isl q" by auto
    then have "rs_subs st' = rs_subs st @ new" "\<not> isl r"
      "rs_mails st' = rs_mails st @ [\<lparr>mail_to = to, mail_subject = subject, mail_content = LogMail (fr_user_log fr1)\<rparr>]"
      using assms(2) new by (cases q; auto simp: run_trading_def Let_def l)+
    then show ?thesis unfolding mails_tell_def using T [of to subject] c
      by (intro exI [of _ "[\<lparr>mail_to = to, mail_subject = subject, mail_content = LogMail (fr_user_log fr1)\<rparr>]"] exI [of _ new]) simp
  qed
qed

lemma init_log:
  assumes "fast_runner_init C d ok fast_runner_new = (Inr u, fr)"
  obtains l where "fr_user_log fr = [l]" "\<not> order_line l" "\<not> start_line l"
  using assms by (auto simp: fast_runner_init_def pqp_ap_calculate_dates_and_pv_def Let_def fast_runner_new_def fr_log_def
      set_pvs_def split: sum.splits if_splits)

text \<open>A run ends before its trading, or is the trading of a runner whose log holds the dates and the start.\<close>

lemma pqp_run_started:
  assumes "pqp_run env forced st = Some (r, st')"
  obtains (over) "rs_mails st' = rs_mails st" "rs_subs st' = rs_subs st"
    | (trading) fr mails where "started fr" "mails = [] \<or> candidates_mail env = Inr mails"
      "run_trading env (pqp_iteration env) forced ''RqCore: FastRunnerPqpTask run() ended'' fr
        (st\<lparr>rs_mails := rs_mails st @ mails\<rparr>) = Some (r, st')"
proof -
  obtain q fr0 where i: "fast_runner_init (re_chrono env) (utc_date (re_now_init env)) (re_dir_ok env) fast_runner_new = (q, fr0)"
    by fastforce
  show ?thesis
  proof (cases "isl q \<or> isl (num_seconds_to_noon (re_tz env) (re_now_et env))")
    case True
    with assms i have "rs_mails st' = rs_mails st" "rs_subs st' = rs_subs st" by (auto simp: pqp_run_def split: sum.splits)
    then show ?thesis by (rule over)
  next
    case False
    then obtain v secs where q: "q = Inr v" and n: "num_seconds_to_noon (re_tz env) (re_now_et env) = Inr secs"
      by (metis sum.collapse(2))
    from init_log [OF i [unfolded q]] obtain l where l: "fr_user_log fr0 = [l]" "\<not> order_line l" "\<not> start_line l" .
    define fr1 where "fr1 = fr0\<lparr>is_simulation := \<not> secs < 90\<rparr>"
    define fr2 where "fr2 = (if forced then fr1\<lparr>pqp_is_run_today := True, is_simulation := True\<rparr> else fr1)"
    define fr3 where "fr3 = fr_log (LogTaskStarted ''FastRunnerPqpTask'' (pqp_json_target_date_str fr2) (is_simulation fr2)) fr2"
    note eqs = fr1_def [symmetric] fr2_def [symmetric] fr3_def [symmetric]
    have run: "(if \<not> pqp_is_run_today fr2 then Some (Inr (), st\<lparr>rs_runner := fr2\<rparr>)
        else case (if forced \<or> secs > 2 * 60 * 60 then candidates_mail env else Inr []) of
            Inl e \<Rightarrow> Some (Inl e, st\<lparr>rs_runner := fr3\<rparr>)
          | Inr mails \<Rightarrow> run_trading env (pqp_iteration env) forced
              ''RqCore: FastRunnerPqpTask run() ended'' fr3 (st\<lparr>rs_mails := rs_mails st @ mails\<rparr>)) = Some (r, st')"
      using assms by (simp only: pqp_run_def i q n Let_def prod.case sum.case eqs)
    have s: "started fr3" using l by (auto simp: started_def fr3_def fr2_def fr1_def fr_log_def)
    consider (idle) fr where "st' = st\<lparr>rs_runner := fr\<rparr>"
      | (trade) mails where "(if forced \<or> secs > 2 * 60 * 60 then candidates_mail env else Inr []) = Inr mails"
          "run_trading env (pqp_iteration env) forced ''RqCore: FastRunnerPqpTask run() ended'' fr3
            (st\<lparr>rs_mails := rs_mails st @ mails\<rparr>) = Some (r, st')"
      using run by (cases "pqp_is_run_today fr2") (auto split: sum.splits)
    then show ?thesis
    proof cases
      case idle
      then show ?thesis using over by simp
    next
      case (trade mails)
      moreover from this(1) have "mails = [] \<or> candidates_mail env = Inr mails" by (auto split: if_splits)
      ultimately show ?thesis using trading [OF s] by simp
    qed
  qed
qed

lemma ap_run_started:
  assumes "ap_run env forced st = Some (r, st')"
  obtains (over) "rs_mails st' = rs_mails st" "rs_subs st' = rs_subs st"
    | (trading) fr where "started fr"
      "run_trading env (ap_iteration env) forced ''RqCore: FastRunnerPqpTask run() ended'' fr st = Some (r, st')"
proof -
  obtain q fr0 where i: "fast_runner_init (re_chrono env) (utc_date (re_now_init env)) (re_dir_ok env) fast_runner_new = (q, fr0)"
    by fastforce
  show ?thesis
  proof (cases "isl q \<or> isl (num_seconds_to_noon (re_tz env) (re_now_et env))")
    case True
    with assms i have "rs_mails st' = rs_mails st" "rs_subs st' = rs_subs st" by (auto simp: ap_run_def split: sum.splits)
    then show ?thesis by (rule over)
  next
    case False
    then obtain v secs where q: "q = Inr v" and n: "num_seconds_to_noon (re_tz env) (re_now_et env) = Inr secs"
      by (metis sum.collapse(2))
    from init_log [OF i [unfolded q]] obtain l where l: "fr_user_log fr0 = [l]" "\<not> order_line l" "\<not> start_line l" .
    define fr1 where "fr1 = fr0\<lparr>is_simulation := \<not> secs < 90\<rparr>"
    define fr2 where "fr2 = (if forced then fr1\<lparr>ap_is_run_today := True, is_simulation := True\<rparr> else fr1)"
    define fr3 where "fr3 = fr_log (LogTaskStarted ''FastRunnerApTask'' (ap_json_target_date_str fr2) (is_simulation fr2)) fr2"
    note eqs = fr1_def [symmetric] fr2_def [symmetric] fr3_def [symmetric]
    have run: "(if \<not> ap_is_run_today fr2 then Some (Inr (), st\<lparr>rs_runner := fr2\<rparr>)
        else run_trading env (ap_iteration env) forced ''RqCore: FastRunnerPqpTask run() ended'' fr3 st) = Some (r, st')"
      using assms by (simp only: ap_run_def i q n Let_def prod.case sum.case eqs)
    have s: "started fr3" using l by (auto simp: started_def fr3_def fr2_def fr1_def fr_log_def)
    show ?thesis
    proof (cases "ap_is_run_today fr2")
      case True
      then show ?thesis using run trading [OF s] by simp
    next
      case False
      then have "st' = st\<lparr>rs_runner := fr2\<rparr>" using run by simp
      then show ?thesis using over by simp
    qed
  qed
qed

lemma mails_tell_over: "rs_mails st' = rs_mails st \<Longrightarrow> rs_subs st' = rs_subs st \<Longrightarrow> mails_tell env r st st'"
  unfolding mails_tell_def by (intro exI [of _ "[]"]) auto

lemma run_mails_tell:
  shows "pqp_run env forced st = Some (r, st') \<Longrightarrow> mails_tell env r st st'"
    and "ap_run env forced st = Some (r, st') \<Longrightarrow> mails_tell env r st st'"
proof -
  show "mails_tell env r st st'" if run: "ap_run env forced st = Some (r, st')"
    using run
  proof (cases rule: ap_run_started)
    case (trading fr)
    from run_trading_tells [OF ap_log.loop_relation_axioms trading(2,1)] show ?thesis .
  qed (rule mails_tell_over)
  show "mails_tell env r st st'" if run: "pqp_run env forced st = Some (r, st')"
    using run
  proof (cases rule: pqp_run_started)
    case (trading fr mails)
    have none: "concat (map (mail_orders (re_gateways env)) mails) = []"
      using trading(2) by (auto simp: candidates_mail_def mail_orders_def bind_out_def split: sum.splits option.splits)
    from run_trading_tells [OF pqp_log.loop_relation_axioms trading(3,1)] obtain ms new where
      "rs_mails st' = rs_mails st @ (mails @ ms)" "rs_subs st' = rs_subs st @ new"
      "concat (map (mail_orders (re_gateways env)) ms) = (if isl r \<or> re_config env ''email_gyant'' = None then [] else new)"
      by (auto simp: mails_tell_def)
    then show ?thesis unfolding mails_tell_def using none by (intro exI [of _ "mails @ ms"] exI [of _ new]) simp
  qed (rule mails_tell_over)
qed

end
