(* ===== verification/MailText.thy ===== *)
theory MailText
  imports AuditTrail F64Text
begin

text \<open>
  The text of the log a run mails, as \<open>writeln!\<close> builds it in \<open>fast_runner.rs\<close>, \<open>fast_runner_task.rs\<close> and
  \<open>brokers_watcher.rs\<close>, and what its reader gets from it: from the text alone, one reads whether the run was live and
  every order of it, the price to the last bit.
\<close>

section \<open>Lines\<close>

definition newline :: char where "newline = char_of (10::nat)"

definition show_bool :: "bool \<Rightarrow> string" where
  "show_bool b = (if b then ''true'' else ''false'')"

text \<open>\<open>{:?}\<close> of the order type\<close>

fun debug_order_type :: "rq_order_type \<Rightarrow> string" where
  "debug_order_type Buy = ''Buy''"
| "debug_order_type Sell = ''Sell''"

text \<open>\<open>%H:%M:%S\<close>\<close>

definition two_digits :: "int \<Rightarrow> string" where
  "two_digits n = (if n < 10 then ''0'' else []) @ show_nat (nat n)"

definition format_hms :: "instant \<Rightarrow> string" where
  "format_hms t = (let s = t mod day_ns div ns_per_sec
     in two_digits (s div 3600) @ '':'' @ two_digits (s div 60 mod 60) @ '':'' @ two_digits (s mod 60))"

text \<open>What the lines print besides their arguments: chrono's text of a date and of an instant, the time a run
  started, and the file a response was saved to at the time of the \<open>i\<close>th line.\<close>

record text_env =
  te_date :: "date \<Rightarrow> string"
  te_instant :: "instant \<Rightarrow> string"
  te_started :: instant
  te_file :: "nat \<Rightarrow> string"

definition dates_text where
  "dates_text T pqp_virtual pqp_real pqp_today ap_virtual ap_real ap_today pqp_buy pqp_sell ap_buy =
     ''pqp_virtual_rebalance_date: '' @ te_date T pqp_virtual @ '', pqp_real_rebalance_date: '' @ te_date T pqp_real @
     '', pqp_is_run_today: '' @ show_bool pqp_today @ '', ap_virtual_rebalance_date: '' @ te_date T ap_virtual @
     '', ap_real_rebalance_date: '' @ te_date T ap_real @ '', ap_is_run_today: '' @ show_bool ap_today @
     '', pqp_buy_pv: '' @ show_f64 pqp_buy @ '', pqp_sell_pv: '' @ show_f64 pqp_sell @ '', ap_buy_pv: '' @ show_f64 ap_buy"

definition no_permission_text :: "string \<Rightarrow> string" where
  "no_permission_text file = ''!Error. No permission, Update cookie file. See '' @ file"

definition captcha_text :: "string \<Rightarrow> string" where
  "captcha_text file = ''!Error. Captcha required, Update cookie file AND handle Captcha in browser. See '' @ file"

definition found_text :: "nat \<Rightarrow> nat \<Rightarrow> string" where
  "found_text transactions stocks = ''Found '' @ show_nat transactions @ '' transactions, '' @ show_nat stocks @ '' stocks''"

definition no_events_text :: "string \<Rightarrow> string" where
  "no_events_text d = ''No new transaction events on '' @ d @ ''. Skipping trading.''"

definition too_many_text :: "string \<Rightarrow> nat \<Rightarrow> string" where
  "too_many_text most n = ''Something is wrong. Don'' @ CHR 0x27 # ''t expect more than '' @ most @ '' events. num_new_events: '' @
     show_nat n @ ''. Skipping trading.''"

definition task_started_text :: "instant \<Rightarrow> string \<Rightarrow> string \<Rightarrow> bool \<Rightarrow> string" where
  "task_started_text t name d sim = format_hms t @ '': '' @ name @ '' run() loop started. Json target date: '' @ d @
     '', is_simulation: '' @ show_bool sim"

definition mark_cache_text :: "string \<Rightarrow> f64 \<Rightarrow> string \<Rightarrow> string" where
  "mark_cache_text t v time = ''  MarkValue cache: '' @ t @ '' => value: '' @ show_f64 v @ '', time: '' @ time"

definition no_price_text :: "rq_order_type \<Rightarrow> string \<Rightarrow> string \<Rightarrow> string" where
  "no_price_text ty t c = ''  '' @ debug_order_type ty @ '' '' @ t @ '' ('' @ c @ '', cannot determine price, skipping...)''"

definition order_text :: "rq_order_type \<Rightarrow> string \<Rightarrow> string \<Rightarrow> f64 \<Rightarrow> i32 \<Rightarrow> string \<Rightarrow> string" where
  "order_text ty t c p n what = ''  '' @ debug_order_type ty @ '' '' @ t @ '' ('' @ c @ '', price: $'' @ show_f64 p @
     '', nShares: '' @ show_int (sint n) @ '', '' @ what @ '')''"

fun line_text :: "text_env \<Rightarrow> nat \<Rightarrow> log_line \<Rightarrow> string" where
  "line_text T i (LogDates a b c d e f g h j) = dates_text T a b c d e f g h j"
| "line_text T i LogNoPermission = no_permission_text (te_file T i)"
| "line_text T i LogCaptcha = captcha_text (te_file T i)"
| "line_text T i (LogFound m n) = found_text m n"
| "line_text T i (LogNoEvents d) = no_events_text d"
| "line_text T i (LogTooManyEvents m n) = too_many_text m n"
| "line_text T i (LogTaskStarted name d sim) = task_started_text (te_started T) name d sim"
| "line_text T i (LogMarkCache t v time) = mark_cache_text t v (te_instant T time)"
| "line_text T i (LogNoPrice ty t c) = no_price_text ty t c"
| "line_text T i (LogZeroSize ty t c p n) = order_text ty t c p n ''zero size, skipping...''"
| "line_text T i (LogBeforeOrder ty t c p n) = order_text ty t c p n ''before order()''"

fun log_text_from :: "text_env \<Rightarrow> nat \<Rightarrow> log_line list \<Rightarrow> string" where
  "log_text_from T i [] = []"
| "log_text_from T i (l # ls) = line_text T i l @ newline # log_text_from T (Suc i) ls"

definition log_text :: "text_env \<Rightarrow> log_line list \<Rightarrow> string" where
  "log_text T ls = log_text_from T 0 ls"

section \<open>Reading\<close>

fun strip_prefix :: "string \<Rightarrow> string \<Rightarrow> string option" where
  "strip_prefix [] s = Some s"
| "strip_prefix (c # p) [] = None"
| "strip_prefix (c # p) (d # s) = (if c = d then strip_prefix p s else None)"

definition strip_suffix :: "string \<Rightarrow> string \<Rightarrow> string option" where
  "strip_suffix p s = map_option rev (strip_prefix (rev p) (rev s))"

text \<open>The last part of a text after a separator, and what is before it, the separator included.\<close>

definition split_last :: "char \<Rightarrow> string \<Rightarrow> string \<times> string" where
  "split_last c s = (rev (dropWhile (\<lambda>d. d \<noteq> c) (rev s)), rev (takeWhile (\<lambda>d. d \<noteq> c) (rev s)))"

definition read_i32 :: "string \<Rightarrow> i32" where
  "read_i32 s = (case split_sign s of (neg, ds) \<Rightarrow>
     word_of_int (if neg then - int (nat_of_digits ds) else int (nat_of_digits ds)))"

definition read_side :: "string \<Rightarrow> (rq_order_type \<times> string) option" where
  "read_side s = (case strip_prefix ''  Buy '' s of Some r \<Rightarrow> Some (Buy, r)
     | None \<Rightarrow> map_option (Pair Sell) (strip_prefix ''  Sell '' s))"

definition read_order :: "string \<Rightarrow> (rq_order_type \<times> string \<times> f64 \<times> i32) option" where
  "read_order s =
     Option.bind (read_side s) (\<lambda>(ty, r).
     Option.bind (strip_suffix '', before order())'' r) (\<lambda>r.
     case split_last (CHR '' '') r of (r, n) \<Rightarrow>
     Option.bind (strip_suffix '', nShares: '' r) (\<lambda>r.
     case split_last (CHR ''$'') r of (r, p) \<Rightarrow>
     Option.bind (parse_f64 p) (\<lambda>p.
     map_option (\<lambda>(t, c). (ty, t, p, read_i32 n)) (split_once (CHR '' '') r)))))"

definition read_live :: "string \<Rightarrow> bool" where
  "read_live s \<longleftrightarrow> (case s of [] \<Rightarrow> False | c # r \<Rightarrow> is_ascii_digit c \<and> strip_suffix ''is_simulation: false'' r \<noteq> None)"

definition read_mail :: "'c gateways \<Rightarrow> string \<Rightarrow> 'c submission list" where
  "read_mail gws text =
     (case gateway_client gws Gyantal of None \<Rightarrow> []
      | Some gy \<Rightarrow>
          (let lines = split_char newline text
           in if list_ex read_live lines then
                List.map_filter (\<lambda>s. map_option (\<lambda>(ty, t, p, n).
                  \<lparr>sub_client = gy, sub_type = ty, sub_ticker = t, sub_shares = n, sub_limit = order_limit ty p\<rparr>)
                  (read_order s)) lines
              else []))"

section \<open>What is written is read\<close>

lemma strip_prefix_append [simp]: "strip_prefix p (p @ s) = Some s"
  by (induction p) auto

lemma strip_suffix_append [simp]: "strip_suffix p (s @ p) = Some s"
  by (simp add: strip_suffix_def)

lemma split_last_append: "c \<notin> set t \<Longrightarrow> split_last c (s @ c # t) = (s @ [c], t)"
  by (simp add: split_last_def takeWhile_append dropWhile_append dropWhile_eq_Nil_conv takeWhile_eq_all_conv)

lemma show_int_chars: "set (show_int n) \<subseteq> Collect is_ascii_digit \<union> {CHR ''-''}"
  using show_nat_digits by (auto simp: show_int_def list_all_iff)

lemma decimal_text_chars: "set (decimal_text d k) \<subseteq> Collect is_ascii_digit \<union> {CHR ''.''}"
  using show_nat_digits [of d]
  by (auto simp: decimal_text_def Let_def list_all_iff is_ascii_digit_def dest: in_set_takeD in_set_dropD split: if_splits)

lemma show_f64_chars: "set (show_f64 v) \<subseteq> Collect is_ascii_digit \<union> set ''-.NaNinf''"
proof -
  have p: "set (show_pos x) \<subseteq> Collect is_ascii_digit \<union> {CHR ''.''}" for x
    using decimal_text_chars unfolding show_pos_def by (metis (no_types, lifting) case_prod_beta)
  show ?thesis using p by (cases v rule: show_f64.cases) (auto simp: is_ascii_digit_def)
qed

lemma read_i32_show [simp]: "read_i32 (show_int (sint n)) = n"
proof -
  obtain c cs where c: "show_nat (nat (sint n)) = c # cs" "is_ascii_digit c"
    using show_nat_digits [of "nat (sint n)"] by (cases "show_nat (nat (sint n))") auto
  then have "c \<noteq> CHR ''-''" "c \<noteq> CHR ''+''" by (auto simp: is_ascii_digit_def)
  with c(1) have "split_sign (show_nat (nat (sint n))) = (False, show_nat (nat (sint n)))" by (simp add: split_sign_def)
  then show ?thesis by (simp add: read_i32_def show_int_def nat_of_digits_show_nat split_sign_def)
qed

lemma strip_prefix_foreign: "c \<notin> set s \<Longrightarrow> s \<noteq> [] \<Longrightarrow> strip_prefix (c # p) (s @ r) = None"
  by (cases s) auto

lemma show_f64_nonempty [simp]: "show_f64 v \<noteq> []"
proof -
  have "show_pos x \<noteq> []" for x unfolding show_pos_def using decimal_text_digit by (metis (no_types, lifting) case_prod_beta list.discI)
  then show ?thesis by (cases v rule: show_f64.cases) auto
qed

lemma read_side_text: "read_side (''  '' @ debug_order_type ty @ '' '' @ r) = Some (ty, r)"
  by (cases ty) (simp_all add: read_side_def)

text \<open>An order is read as it was written; nothing else is read as an order.\<close>

lemma read_order_before:
  assumes "CHR '' '' \<notin> set t" and "f64_wf p"
  shows "read_order (order_text ty t c p n ''before order()'') = Some (ty, t, p, n)"
proof -
  let ?a = "t @ CHR '' '' # ''('' @ c @ '', price: $''"
  have eq: "order_text ty t c p n ''before order()'' = ''  '' @ debug_order_type ty @ '' '' @
      (((?a @ show_f64 p) @ '', nShares:'' @ CHR '' '' # show_int (sint n)) @ '', before order())'')"
    by (simp add: order_text_def)
  have n: "CHR '' '' \<notin> set (show_int (sint n))" using show_int_chars by (force simp: is_ascii_digit_def)
  have p: "CHR ''$'' \<notin> set (show_f64 p)" using show_f64_chars by (force simp: is_ascii_digit_def)
  have 1: "split_last (CHR '' '') ((?a @ show_f64 p) @ '', nShares:'' @ CHR '' '' # show_int (sint n)) =
      ((?a @ show_f64 p) @ '', nShares: '', show_int (sint n))"
    using split_last_append [OF n, of "(?a @ show_f64 p) @ '', nShares:''"] by simp
  have 2: "split_last (CHR ''$'') (?a @ show_f64 p) = (?a, show_f64 p)"
    using split_last_append [OF p, of "t @ CHR '' '' # ''('' @ c @ '', price: ''"] by simp
  have 3: "split_once (CHR '' '') ?a = Some (t, ''('' @ c @ '', price: $'')"
    by (rule split_once_append [OF assms(1)])
  show ?thesis
    unfolding eq read_order_def read_side_text
    by (simp only: Option.bind.simps prod.case strip_suffix_append 1 2 3 parse_show_f64 [OF assms(2)] read_i32_show option.map)
qed

lemma read_order_zero_size: "read_order (order_text ty t c p n ''zero size, skipping...'') = None"
proof -
  have "order_text ty t c p n ''zero size, skipping...'' = ''  '' @ debug_order_type ty @ '' '' @
      (t @ '' ('' @ c @ '', price: $'' @ show_f64 p @ '', nShares: '' @ show_int (sint n) @ '', zero size, skipping...)'')"
    by (simp add: order_text_def)
  then show ?thesis unfolding read_order_def by (simp only: read_side_text) (simp add: strip_suffix_def)
qed

lemma read_order_no_price: "read_order (no_price_text ty t c) = None"
proof -
  have "no_price_text ty t c = ''  '' @ debug_order_type ty @ '' '' @ (t @ '' ('' @ c @ '', cannot determine price, skipping...)'')"
    by (simp add: no_price_text_def)
  then show ?thesis unfolding read_order_def by (simp only: read_side_text) (simp add: strip_suffix_def)
qed

lemma task_started_digit: "\<exists>c r. task_started_text t name d sim = c # r @ ''is_simulation: '' @ show_bool sim \<and> is_ascii_digit c"
proof -
  have "\<exists>c cs. two_digits n = c # cs \<and> is_ascii_digit c" for n
    using show_nat_digits [of "nat n"] show_nat_nonempty [of "nat n"]
    by (cases "show_nat (nat n)") (auto simp: two_digits_def is_ascii_digit_def)
  then obtain c cs where "two_digits (t mod day_ns div ns_per_sec div 3600) = c # cs" "is_ascii_digit c" by blast
  then show ?thesis by (simp add: task_started_text_def format_hms_def Let_def)
qed

fun order_of :: "log_line \<Rightarrow> (rq_order_type \<times> string \<times> f64 \<times> i32) option" where
  "order_of (LogBeforeOrder ty t c p n) = Some (ty, t, p, n)"
| "order_of _ = None"

fun plain_order :: "log_line \<Rightarrow> bool" where
  "plain_order (LogBeforeOrder ty t c p n) = (CHR '' '' \<notin> set t \<and> f64_wf p)"
| "plain_order _ = True"

lemma read_order_other: "read_side s = None \<Longrightarrow> read_order s = None"
  by (simp add: read_order_def)

lemma read_order_line: "plain_order l \<Longrightarrow> read_order (line_text T i l) = order_of l"
proof (cases l)
  case (LogTaskStarted name d sim)
  obtain c r where "task_started_text (te_started T) name d sim = c # r" "is_ascii_digit c"
    using task_started_digit by metis
  moreover from this(2) have "c \<noteq> CHR '' ''" by (auto simp: is_ascii_digit_def)
  ultimately show ?thesis by (simp add: LogTaskStarted read_order_other read_side_def)
qed (simp_all add: read_order_before read_order_zero_size read_order_no_price dates_text_def no_permission_text_def
    captcha_text_def found_text_def no_events_text_def too_many_text_def mark_cache_text_def read_order_other read_side_def)

lemma read_live_line: "read_live (line_text T i l) = live_start l"
proof (cases l)
  case (LogTaskStarted name d sim)
  obtain c r where t: "task_started_text (te_started T) name d sim = c # r @ ''is_simulation: '' @ show_bool sim" "is_ascii_digit c"
    using task_started_digit [of "te_started T" name d sim] by blast
  show ?thesis
  proof (cases sim)
    case True
    then have "line_text T i l = c # r @ ''is_simulation: true''" using t(1) by (simp add: LogTaskStarted show_bool_def)
    then show ?thesis using True by (simp add: LogTaskStarted read_live_def strip_suffix_def)
  next
    case False
    then have "line_text T i l = c # (r @ ''is_simulation: false'')" using t(1) by (simp add: LogTaskStarted show_bool_def)
    then show ?thesis using t(2) False unfolding read_live_def by (simp only: list.case strip_suffix_append) (simp add: LogTaskStarted)
  qed
qed (simp_all add: read_live_def is_ascii_digit_def dates_text_def no_permission_text_def order_text_def no_price_text_def
    captcha_text_def found_text_def no_events_text_def too_many_text_def mark_cache_text_def)

section \<open>Texts\<close>

text \<open>Every line of the log is one line of the text, tickers have no blank, prices are doubles.\<close>

fun plain_from :: "text_env \<Rightarrow> nat \<Rightarrow> log_line list \<Rightarrow> bool" where
  "plain_from T i [] = True"
| "plain_from T i (l # ls) = (plain_order l \<and> newline \<notin> set (line_text T i l) \<and> plain_from T (Suc i) ls)"

definition plain_log :: "text_env \<Rightarrow> log_line list \<Rightarrow> bool" where
  "plain_log T ls = plain_from T 0 ls"

lemma read_lines_from:
  assumes "plain_from T i ls"
  shows "map read_order (split_char newline (log_text_from T i ls)) = map order_of ls @ [None]"
    and "map read_live (split_char newline (log_text_from T i ls)) = map live_start ls @ [False]"
  using assms
  by (induction ls arbitrary: i)
    (simp_all add: split_char_append read_order_line read_live_line, simp_all add: read_order_def read_side_def read_live_def)

definition submission_of :: "'c \<Rightarrow> rq_order_type \<times> string \<times> f64 \<times> i32 \<Rightarrow> 'c submission" where
  "submission_of gy = (\<lambda>(ty, t, p, n).
     \<lparr>sub_client = gy, sub_type = ty, sub_ticker = t, sub_shares = n, sub_limit = order_limit ty p\<rparr>)"

lemma line_submission_of: "line_submission gy l = map_option (submission_of gy) (order_of l)"
  by (cases l) (simp_all add: submission_of_def)

lemma map_filter_map_opt: "List.map_filter (\<lambda>s. map_option g (f s)) xs = map g (List.map_filter id (map f xs))"
  by (induction xs) (auto simp: List.map_filter_simps split: option.split)

lemma list_ex_map: "list_ex f xs = list_ex id (map f xs)"
  by (induction xs) auto

lemma read_log_text:
  fixes gws :: "'c gateways"
  assumes "plain_log T ls"
  shows "read_mail gws (log_text T ls) =
    mail_orders gws \<lparr>mail_to = to, mail_subject = subject, mail_content = LogMail ls\<rparr>"
proof -
  note R = read_lines_from [OF assms [unfolded plain_log_def]]
  have "list_ex read_live (split_char newline (log_text T ls)) = list_ex live_start ls"
    unfolding log_text_def list_ex_map [of read_live] list_ex_map [of live_start] R by simp
  moreover have "List.map_filter (\<lambda>s. map_option (submission_of gy) (read_order s)) (split_char newline (log_text T ls)) =
      List.map_filter (line_submission gy) ls" for gy :: 'c
    unfolding line_submission_of map_filter_map_opt log_text_def R by (simp add: List.map_filter_def)
  ultimately show ?thesis
    unfolding read_mail_def mail_orders_def reported_def submission_of_def [symmetric]
    by (simp add: Let_def split: option.split)
qed

section \<open>A live run\<close>

text \<open>The AP run of the small world, in the last 90 seconds before noon in New York on a Monday that is an AP day, with an
  address to write to.\<close>

lemma noon_parts:
  "num_seconds_to_noon eastern_2025 demo_noon = Inr 50"
  "utc_date demo_noon = 20255"
  by code_simp+

lemma noon_init:
  "fast_runner_init gregorian 20255 True fast_runner_new =
    (Inr (), fast_runner_new\<lparr>pqp_json_target_date_str := demo_date, pqp_is_run_today := True,
      ap_json_target_date_str := demo_date, ap_is_run_today := True, pqp_buy_pv := F64_Fin 70000,
      pqp_sell_pv := F64_Fin 60000, ap_buy_pv := F64_Fin 70000,
      fr_user_log := [LogDates 20255 20255 True 20254 20255 True (F64_Fin 70000) (F64_Fin 60000) (F64_Fin 70000)]\<rparr>)"
  by code_simp

lemma ap_found:
  assumes "cookies fr = None" and "\<not> m_is_cookies_surely_working fr" and "ap_json_target_date_str fr = demo_date"
  shows "\<exists>fr'. get_new_transactions_ap demo_world fr = (Inr (demo_date, [demo_event\<lparr>transaction_id := ''2''\<rparr>]), fr')"
proof -
  have s: "str_slice_to 10 (publish_on (art_attributes demo_article)) = Inr demo_date"
    by (simp add: demo_article_def demo_date_def str_slice_to_def is_utf8_cont_def)
  have "fst (get_new_transactions_ap demo_world fr) = Inr (demo_date, [demo_event\<lparr>transaction_id := ''2''\<rparr>])"
    by (simp add: get_new_transactions_ap_def ensure_cookies_loaded_def demo_world_def assms
        fast_runner_new_def Let_def download_def save_response_file_def transactions_of_articles_def s
        event_of_ticker_def tag_lookup_of_def tag_entries_of_def demo_event_def List.map_filter_def)
      (simp add: demo_article_def event_of_ticker_def assms)
  then show ?thesis by (metis prod.collapse)
qed

lemma pv_value: "f64_div (F64_Fin 70000) (f64_of_nat (Suc 0)) = F64_Fin 70000"
  using f64_of_nat_exact [of 1] f64_round_of_int [of 70000] by (simp add: f64_div_Fin)

lemma pv_shares: "floor_quot_i32 (F64_Fin 70000) (F64_Fin 10) = 7000"
  using f64_round_of_int [of 7000]
  by (simp add: floor_quot_i32_def f64_div_Fin rat_trunc_def i32_max_def i32_min_def)

lemma placed:
  assumes "quotes = start_quote_stream True (mvc_new ''A'')"
  shows "place_orders paper_api paper_gateways quotes [\<lparr>order_type = Buy, ticker = ''A'', company_name = ''Agilent'', pos_market_value = F64_Fin 70000, known_last_price = None\<rparr>]
     False io = (Inr (), io\<lparr>user_log := user_log io @ [LogMarkCache ''A'' F64_NaN 0, LogBeforeOrder Buy ''A'' ''Agilent'' (F64_Fin 10) 7000],
       submissions := submissions io @ [\<lparr>sub_client = (), sub_type = Buy, sub_ticker = ''A'', sub_shares = 7000, sub_limit = order_limit Buy (F64_Fin 10)\<rparr>]\<rparr>)"
  unfolding assms
  by (simp add: place_orders_def place_order_def mvc_new_def start_quote_stream_def get_mark_timevalues_def get_mark_timevalue_def Let_def
      get_knownlast_or_ib_price_def first_bar_price_def pv_shares log_io_def unix_epoch_def)

definition mail_env :: "instant \<Rightarrow> (unit, unit, unit, unit) run_env" where
  "mail_env now = (demo_env now demo_world)\<lparr>re_config := [''email_gyant'' \<mapsto> ''g'']\<rparr>"

definition demo_submission :: "unit submission" where
  "demo_submission = \<lparr>sub_client = (), sub_type = Buy, sub_ticker = ''A'', sub_shares = 7000, sub_limit = order_limit Buy (F64_Fin 10)\<rparr>"

lemma cache_at_steady: "cache_at (\<lambda>_ c. c) quotes i = quotes"
  by (induction i) simp_all

lemma mail_run:
  assumes "num_seconds_to_noon eastern_2025 now = Inr secs" and "secs < 90" and "utc_date now = 20255"
  shows "\<exists>st'. ap_run (mail_env now) False demo_state = Some (Inr (), st') \<and> rs_subs st' = [demo_submission]"
proof -
  define fr where "fr = fr_log (LogTaskStarted ''FastRunnerApTask'' demo_date False) (fast_runner_new\<lparr>
      pqp_json_target_date_str := demo_date, pqp_is_run_today := True,
      ap_json_target_date_str := demo_date, ap_is_run_today := True, pqp_buy_pv := F64_Fin 70000,
      pqp_sell_pv := F64_Fin 60000, ap_buy_pv := F64_Fin 70000,
      fr_user_log := [LogDates 20255 20255 True 20254 20255 True (F64_Fin 70000) (F64_Fin 60000) (F64_Fin 70000)],
      is_simulation := False\<rparr>)"
  define quotes where "quotes = start_quote_stream True (mvc_new ''A'')"
  have fr: "cookies fr = None" "\<not> m_is_cookies_surely_working fr" "ap_json_target_date_str fr = demo_date"
    "\<not> is_simulation fr" "\<not> has_trading_ever_started fr" "ap_buy_pv fr = F64_Fin 70000"
    by (simp_all add: fr_def fr_log_def fast_runner_new_def)
  obtain fr1 where g: "get_new_transactions_ap demo_world fr = (Inr (demo_date, [demo_event\<lparr>transaction_id := ''2''\<rparr>]), fr1)"
    using ap_found [OF fr(1-3)] by blast
  have same: "same_plan fr fr1" using get_ap_plan [OF g] by (simp add: fr_inv_def fr_def fr_log_def fast_runner_new_def)
  then have fr1: "\<not> is_simulation fr1" "\<not> has_trading_ever_started fr1" "ap_buy_pv fr1 = F64_Fin 70000"
    using fr by (simp_all add: same_plan_def)
  have orders: "build_rqorders (determine_position_market_values_ap_gyantal fr1 [demo_event\<lparr>transaction_id := ''2''\<rparr>]) =
      [\<lparr>order_type = Buy, ticker = ''A'', company_name = ''Agilent'', pos_market_value = F64_Fin 70000, known_last_price = None\<rparr>]"
    by (simp add: sizes_sized sized_def build_rqorders_def ap_buy_value_def count_order_types_def demo_event_def fr1 pv_value)
  have iter: "\<exists>fr2. ap_iteration (mail_env now) quotes demo_world fr [] = (Inr (), fr2, [demo_submission]) \<and> has_trading_ever_started fr2"
    using fr1 by (simp add: ap_iteration_def fastrunning_loop_ap_impl_def g fr_place_orders_eq Let_def orders
        placed [OF quotes_def] mail_env_def demo_submission_def)
  then obtain fr2 where iter: "ap_iteration (mail_env now) quotes demo_world fr [] = (Inr (), fr2, [demo_submission])"
    "has_trading_ever_started fr2" by blast
  have "task_loop (\<lambda>i. ap_iteration (mail_env now) quotes demo_world) False (now + loop_duration fr)
      (\<lambda>i. now + int i * 10 * ns_per_sec) 0 fr [] = Some (Inr (), fr2, [demo_submission], 1)"
    using iter fr(4) by (subst task_loop.simps) (simp add: loop_duration_def ns_per_sec_def)
  then show ?thesis
    by (simp add: ap_run_def mail_env_def assms noon_init fr_def [symmetric] run_trading_def quotes_def [symmetric] Let_def cache_at_steady)
qed

lemma one_line_numbers:
  "newline \<notin> set (show_f64 v)" "newline \<notin> set (show_int n)" "newline \<notin> set (show_nat m)"
proof -
  have c: "\<not> is_ascii_digit newline" "newline \<notin> set ''-.NaNinf''"
    by (simp_all add: newline_def is_ascii_digit_def char_of_def)
  show "newline \<notin> set (show_f64 v)" using show_f64_chars [of v] c by blast
  show "newline \<notin> set (show_int n)" using show_int_chars [of n] c by auto
  show "newline \<notin> set (show_nat m)" using show_nat_digits [of m] c(1) by (auto simp: list_all_iff)
qed

definition demo_text :: text_env where
  "demo_text = \<lparr>te_date = (\<lambda>d. demo_date), te_instant = (\<lambda>t. ''1970-01-01 00:00:00 UTC''), te_started = demo_noon,
     te_file = (\<lambda>i. ''f.json'')\<rparr>"

definition demo_log :: "log_line list" where
  "demo_log = [LogTaskStarted ''FastRunnerApTask'' demo_date False, LogMarkCache ''A'' F64_NaN 0,
     LogBeforeOrder Buy ''A'' ''Agilent'' (F64_Fin 10) 7000]"

section \<open>Properties\<close>

text \<open>C7: The mails a run adds tell exactly the orders it submitted, in order, with side, ticker, shares and limit,
  when the run ends normally and an address is configured; when it panics, or there is no address, no mail of it tells
  any of them.\<close>

theorem mail_reports_orders:
  assumes "pqp_run env forced st = Some (r, st') \<or> ap_run env forced st = Some (r, st')"
  shows "\<exists>mails new. rs_mails st' = rs_mails st @ mails \<and> rs_subs st' = rs_subs st @ new \<and>
    concat (map (mail_orders (re_gateways env)) mails) =
      (if isl r \<or> re_config env ''email_gyant'' = None then [] else new)"
  using assms run_mails_tell [of env forced st r st'] unfolding mails_tell_def by blast

theorem mail_reports_orders_witness:
  "\<exists>st'. ap_run (mail_env demo_noon) False demo_state = Some (Inr (), st') \<and>
     (\<exists>mails. rs_mails st' = rs_mails demo_state @ mails \<and>
       concat (map (mail_orders paper_gateways) mails) = [demo_submission])"
proof -
  obtain st' where st': "ap_run (mail_env demo_noon) False demo_state = Some (Inr (), st')" "rs_subs st' = [demo_submission]"
    using mail_run [OF noon_parts(1) _ noon_parts(2)] by auto
  from mail_reports_orders [OF disjI2 [OF st'(1)]] st' show ?thesis by (auto simp: mail_env_def)
qed

text \<open>C8: From the text of a mailed log alone one reads back the orders of the run: whether it was live, and every order
  with its side, ticker, share count and, since the price is printed exactly, its limit. Nothing else in the text is taken for
  an order, as long as no ticker has a blank and no printed field a line break.\<close>

theorem mail_text_read_back:
  assumes "plain_log T ls"
  shows "read_mail gws (log_text T ls) =
    mail_orders gws \<lparr>mail_to = to, mail_subject = subject, mail_content = LogMail ls\<rparr>"
  by (rule read_log_text [OF assms])

theorem mail_text_read_back_witness:
  "read_mail paper_gateways (log_text demo_text demo_log) = [demo_submission]"
proof -
  have "rnd 10 = 10" using rnd_of_int [of 10] by simp
  then have "plain_log demo_text demo_log"
    by (simp add: plain_log_def demo_log_def demo_text_def task_started_text_def mark_cache_text_def order_text_def
          format_hms_def two_digits_def Let_def one_line_numbers del: show_f64.simps)
      (simp add: newline_def demo_date_def show_bool_def char_of_def)
  from mail_text_read_back [OF this, of paper_gateways "''g''" "''s''"] show ?thesis
    by (simp add: mail_orders_def reported_def demo_log_def demo_submission_def List.map_filter_def)
qed

end
