(* ===== verification/LateTrigger.thy ===== *)
theory LateTrigger
  imports TradingDay MailText
begin

text \<open>
  What a late wake-up does to a FastRunner task: the scheduler (\<open>rqtask_scheduler.rs\<close>) answers the missed trigger at
  once and the last trigger of the morning in time, and both runs (\<open>fast_runner_task.rs\<close>) trade for real.
\<close>

section \<open>The mode of a run\<close>

text \<open>No iteration changes whether the runner trades for real.\<close>

definition keeps_mode :: "fast_runner \<Rightarrow> 'c submission list \<Rightarrow> fast_runner \<Rightarrow> 'c submission list \<Rightarrow> bool" where
  "keeps_mode fr subs fr' subs' \<longleftrightarrow> (fr_inv fr \<longrightarrow> fr_inv fr' \<and> is_simulation fr' = is_simulation fr)"

lemma trading_mode:
  "trading_iteration api gws cache orders fr subs r fr' subs' \<Longrightarrow> keeps_mode fr subs fr' subs'"
  by (auto simp: trading_iteration_def keeps_mode_def same_plan_def)

lemma idle_mode: "idle_iteration fr subs fr' subs' \<Longrightarrow> keeps_mode fr subs fr' subs'"
  by (auto simp: idle_iteration_def keeps_mode_def same_plan_def)

lemma pqp_mode: "fastrunning_loop_pqp_impl api gws cache w fr subs = (r, fr', subs') \<Longrightarrow> keeps_mode fr subs fr' subs'"
  by (cases "fr_inv fr") (auto elim!: loop_pqp_cases intro: trading_mode idle_mode, simp add: keeps_mode_def)

lemma ap_mode: "fastrunning_loop_ap_impl api gws cache w fr subs = (r, fr', subs') \<Longrightarrow> keeps_mode fr subs fr' subs'"
  by (cases "fr_inv fr") (auto elim!: loop_ap_cases intro: trading_mode idle_mode, simp add: keeps_mode_def)

interpretation pqp_modes: loop_relation "\<lambda>i fr subs. fastrunning_loop_pqp_impl api gws (cache i) (w i) fr subs" keeps_mode
  by unfold_locales (auto simp: keeps_mode_def dest: pqp_mode)

interpretation ap_modes: loop_relation "\<lambda>i fr subs. fastrunning_loop_ap_impl api gws (cache i) (w i) fr subs" keeps_mode
  by unfold_locales (auto simp: keeps_mode_def dest: ap_mode)

lemma run_trading_mode:
  assumes "loop_relation (\<lambda>i. iteration (cache_at (re_evolve env) (start_quote_stream (re_stream_ok env) (rs_cache st)) i)
      (re_worlds env i)) keeps_mode"
    and "run_trading env iteration forced subject fr st = Some (r, st')" and "fr_inv fr"
  shows "is_simulation (rs_runner st') = is_simulation fr"
proof -
  let ?loop = "task_loop (\<lambda>i. iteration (cache_at (re_evolve env) (start_quote_stream (re_stream_ok env) (rs_cache st)) i)
      (re_worlds env i)) forced (re_loop_start env + loop_duration fr) (re_clock env) 0 fr (rs_subs st)"
  have "?loop \<noteq> None" using assms(2) by (auto simp: run_trading_def Let_def)
  then obtain q fr1 subs n where l: "?loop = Some (q, fr1, subs, n)" by (cases ?loop) auto
  from loop_relation.task_loop_R [OF assms(1) l] assms(3) have "is_simulation fr1 = is_simulation fr" by (simp add: keeps_mode_def)
  moreover have "rs_runner st' = fr1"
    using assms(2) by (cases q; cases "re_config env ''email_gyant''"; auto simp: run_trading_def Let_def l)+
  ultimately show ?thesis by simp
qed


lemma fr_inv_fields [simp]:
  "fr_inv (fr_log l fr) = fr_inv fr" "fr_inv (fr\<lparr>is_simulation := b\<rparr>) = fr_inv fr"
  by (simp_all add: fr_inv_def)

lemma init_ok:
  assumes "chrono_laws C"
  obtains u fr where "fast_runner_init C d True fast_runner_new = (Inr u, fr)" and "fr_inv fr"
proof -
  obtain fr where "fast_runner_init C d True fast_runner_new = (Inr (), fr)"
    by (simp add: fast_runner_init_def chrono_laws.dates_and_pv_eq [OF assms] Let_def)
  with init_runner [OF assms this] that show thesis by blast
qed

text \<open>A run that is not forced and reads the clock in the window trades for real.\<close>

lemma pqp_run_real:
  assumes "chrono_laws (re_chrono env)" and "re_dir_ok env" and "live_at (re_tz env) (re_now_et env)"
    and "pqp_run env False st = Some (r, st')"
  shows "\<not> is_simulation (rs_runner st')"
proof -
  obtain secs where secs: "num_seconds_to_noon (re_tz env) (re_now_et env) = Inr secs" "secs < 90"
    using assms(3) by (auto simp: live_at_def split: sum.splits)
  obtain u fr where fr: "fast_runner_init (re_chrono env) (utc_date (re_now_init env)) True fast_runner_new = (Inr u, fr)" "fr_inv fr"
    by (rule init_ok [OF assms(1)])
  define fr1 where "fr1 = fr_log (LogTaskStarted ''FastRunnerPqpTask'' (pqp_json_target_date_str fr) False)
    (fr\<lparr>is_simulation := False\<rparr>)"
  have fr1: "fr_inv fr1" "\<not> is_simulation fr1" using fr(2) by (simp_all add: fr1_def)
  have loop: "loop_relation (\<lambda>i. pqp_iteration env (cache_at (re_evolve env) (start_quote_stream (re_stream_ok env) (rs_cache st1)) i)
      (re_worlds env i)) keeps_mode" for st1 :: "'a run_state"
    unfolding pqp_iteration_def by (rule pqp_modes.loop_relation_axioms)
  show ?thesis
    using assms(2,4) fr(1) secs run_trading_mode [OF loop _ fr1(1)] fr1
    by (auto simp: pqp_run_def Let_def simp flip: fr1_def split: if_splits sum.splits)
qed

lemma ap_run_real:
  assumes "chrono_laws (re_chrono env)" and "re_dir_ok env" and "live_at (re_tz env) (re_now_et env)"
    and "ap_run env False st = Some (r, st')"
  shows "\<not> is_simulation (rs_runner st')"
proof -
  obtain secs where secs: "num_seconds_to_noon (re_tz env) (re_now_et env) = Inr secs" "secs < 90"
    using assms(3) by (auto simp: live_at_def split: sum.splits)
  obtain u fr where fr: "fast_runner_init (re_chrono env) (utc_date (re_now_init env)) True fast_runner_new = (Inr u, fr)" "fr_inv fr"
    by (rule init_ok [OF assms(1)])
  define fr1 where "fr1 = fr_log (LogTaskStarted ''FastRunnerApTask'' (ap_json_target_date_str fr) False)
    (fr\<lparr>is_simulation := False\<rparr>)"
  have fr1: "fr_inv fr1" "\<not> is_simulation fr1" using fr(2) by (simp_all add: fr1_def)
  have loop: "loop_relation (\<lambda>i. ap_iteration env (cache_at (re_evolve env) (start_quote_stream (re_stream_ok env) (rs_cache st1)) i)
      (re_worlds env i)) keeps_mode" for st1 :: "'a run_state"
    unfolding ap_iteration_def by (rule ap_modes.loop_relation_axioms)
  show ?thesis
    using assms(2,4) fr(1) secs run_trading_mode [OF loop _ fr1(1)] fr1
    by (auto simp: ap_run_def Let_def simp flip: fr1_def split: if_splits sum.splits)
qed

lemma task_run_real:
  assumes "chrono_laws (re_chrono env)" and "re_dir_ok env" and "live_at (re_tz env) (re_now_et env)"
    and "task_name t \<in> fast_runners" and "task_ok Z t" and "task_run env t st = Some (r, st')"
  shows "\<not> is_simulation (rs_runner st')"
  using assms pqp_run_real [OF assms(1-3)] ap_run_real [OF assms(1-3)] by (cases t) (auto simp: fast_runners_def)

section \<open>The clock in the window\<close>

lemma live_clock:
  assumes Z: "tz_steady Z (hms 3 0 0)" and "live_at Z now"
  shows "hms 11 58 30 < snd (tz_local Z now)"
proof -
  note laws = tz_steady.axioms(1) [OF Z]
  obtain n where n: "tz_earliest Z (fst (tz_local Z now)) (hms 12 0 0) = Some n" "n - now < 90 * ns_per_sec"
    by (rule live_window [OF assms(2)])
  obtain e where e: "tz_earliest Z (fst (tz_local Z now)) (hms 3 0 0) = Some e"
    using tz_laws.earliest_ex [OF laws, of "hms 3 0 0"] by (auto simp: hms_def ns_per_sec_def day_ns_def)
  have "n - e = hms 12 0 0 - hms 3 0 0"
    using tz_steady.steady [OF Z e n(1)] by (simp add: hms_def ns_per_sec_def)
  then have "e \<le> now" using n(2) by (simp add: hms_def ns_per_sec_def)
  then have safe: "hms 3 0 0 \<le> snd (tz_local Z now)"
    using tz_laws.clock_mono [OF laws, of e now] tz_laws.earliest_local [OF laws e] by simp
  have "n - now < hms 12 0 0 - hms 3 0 0" "hms 3 0 0 \<le> hms 12 0 0" "hms 3 0 0 < day_ns"
    using n(2) by (simp_all add: hms_def ns_per_sec_def day_ns_def)
  with tz_steady.close_before(2) [OF Z n(1) _ _ _ _ safe] n(2) show ?thesis by (simp add: hms_def ns_per_sec_def)
qed

text \<open>Between 11:58:30 and a task's last target, the next trigger is that target.\<close>

lemma next_is_last:
  assumes Z: "tz_steady Z (hms 3 0 0)" and "targets = pqp_targets \<or> targets = ap_targets"
    and "tz_local Z c = (d, u)" and "hms 11 58 30 < u" and "u < last_target targets"
  shows "\<exists>v. earliest_of (map (localtimeonly2future_datetime_tz Z c) targets) = Inr v \<and> tz_local Z v = (d, last_target targets)"
proof -
  note laws = tz_steady.axioms(1) [OF Z]
  have T: "\<And>t. t \<in> set targets \<Longrightarrow> hms 3 0 0 \<le> t \<and> t < day_ns" "targets \<noteq> []" "last_target targets \<in> set targets"
    using assms(2) by (auto simp: last_target_def pqp_targets_def ap_targets_def hms_def ns_per_sec_def day_ns_def)
  from earliest_future [OF laws T(1,2), of c] obtain v where
    v: "earliest_of (map (localtimeonly2future_datetime_tz Z c) targets) = Inr v" "c < v" "snd (tz_local Z v) \<in> set targets"
      "v \<le> localtimeonly2future_datetime_tz Z c (last_target targets)" using T(3) by blast
  obtain w where w: "tz_earliest Z d (last_target targets) = Some w"
    using tz_laws.earliest_ex [OF laws] T(1) [OF T(3)] by blast
  then have "v \<le> w" using v(4) assms(3,5) by (simp add: localtimeonly2future_datetime_tz_def)
  then have d: "fst (tz_local Z v) = d"
    using tz_laws.date_mono [OF laws, of v w] tz_laws.date_mono [OF laws, of c v] v(2) assms(3) tz_laws.earliest_local [OF laws w]
    by simp
  have "hms 3 0 0 \<le> u" using assms(4) by (simp add: hms_def ns_per_sec_def)
  then have "u \<le> snd (tz_local Z v)" using tz_laws.clock_mono [OF laws, of c v] v(2) d assms(3) by simp
  with assms(2,4) v(3) have "snd (tz_local Z v) = last_target targets"
    by (auto simp: last_target_def pqp_targets_def ap_targets_def hms_def ns_per_sec_def)
  with v(1) d show ?thesis by (simp add: prod_eq_iff)
qed

lemma update_to_last:
  assumes "tz_steady Z (hms 3 0 0)" and "task_name t \<in> fast_runners" and "task_update Z c t = Inr t'"
    and "tz_local Z c = (d, u)" and "hms 11 58 30 < u" and "u < last_target (targets_of (task_name t))"
  shows "tz_local Z (next_time t') = (d, last_target (targets_of (task_name t)))"
  using assms(2,3,6) next_is_last [OF assms(1) _ assms(4,5), of pqp_targets] next_is_last [OF assms(1) _ assms(4,5), of ap_targets]
  by (cases t) (auto simp: targets_of_def fast_runners_def pqp_get_next_trigger_time_impl_def
      ap_get_next_trigger_time_impl_def outcome_simps)


section \<open>Two turns\<close>

lemma spawn_due_update:
  assumes "spawn_due T clk due tasks spawned = (Inr u, tasks', spawned')" and "distinct due" and "\<forall>i \<in> set due. i < length tasks"
  shows "if j \<in> set due then update_next_trigger_time T (clk j) (tasks ! j) = Inr (tasks' ! j) else tasks' ! j = tasks ! j"
  using assms
proof (induction due arbitrary: tasks spawned)
  case (Cons i due)
  then obtain t where t: "update_next_trigger_time T (clk i) (tasks ! i) = Inr t"
    and rest: "spawn_due T clk due (tasks[i := t]) (spawned @ [i]) = (Inr u, tasks', spawned')"
    by (auto split: sum.splits)
  from Cons.IH [OF rest] Cons.prems(2,3)
  have "if j \<in> set due then update_next_trigger_time T (clk j) (tasks[i := t] ! j) = Inr (tasks' ! j) else tasks' ! j = tasks[i := t] ! j"
    by simp
  with t Cons.prems(2,3) show ?case by (cases "j = i") auto
qed simp

lemma begun_once:
  assumes "i \<in> set (collect_due T now tasks)"
  shows "runs_of i (map (\<lambda>i. \<lparr>rb_task = i, rb_trigger = f i, rb_now = now'\<rparr>) (collect_due T now tasks)) =
    [\<lparr>rb_task = i, rb_trigger = f i, rb_now = now'\<rparr>]"
proof -
  have "filter (\<lambda>r. rb_task r = i) (map (\<lambda>i. \<lparr>rb_task = i, rb_trigger = f i, rb_now = now'\<rparr>) is) =
      (if i \<in> set is then [\<lparr>rb_task = i, rb_trigger = f i, rb_now = now'\<rparr>] else [])" if "distinct is" for "is"
    using that by (induction "is") auto
  then show ?thesis using assms by (simp add: runs_of_def)
qed

text \<open>A turn at which task \<open>i\<close> is due.\<close>

lemma due_turn:
  assumes "tz_laws Z (hms 3 0 0)" and "list_all (task_ok Z) (ss_tasks s)" and "i < length (ss_tasks s)"
    and "next_time (ss_tasks s ! i) \<le> now" and "ss_wake s \<le> now" and "\<forall>j. now \<le> clk j"
  obtains s' where "scheduler_step (rq_tasks Z) P s s'"
    and "runs_of i (ss_log s') = runs_of i (ss_log s) @ [\<lparr>rb_task = i, rb_trigger = next_time (ss_tasks s ! i), rb_now = now\<rparr>]"
    and "task_update Z (clk i) (ss_tasks s ! i) = Inr (ss_tasks s' ! i)"
    and "list_all (task_ok Z) (ss_tasks s')" and "map task_name (ss_tasks s') = map task_name (ss_tasks s)"
    and "ss_wake s' \<le> next_time (ss_tasks s' ! i)"
proof -
  let ?due = "collect_due (rq_tasks Z) now (ss_tasks s)"
  have i: "i \<in> set ?due" using assms(3,4) by (simp add: set_collect_due)
  from task_contract.iteration_spec [OF rq_tasks_contract [OF assms(1)] assms(6,2), of "[]"]
  obtain tasks' d where t: "scheduler_iteration (rq_tasks Z) now clk [] (ss_tasks s) = (Inr d, tasks', ?due)"
    "length tasks' = length (ss_tasks s)" "list_all (task_ok Z) tasks'" "map task_name tasks' = map task_name (ss_tasks s)"
    "list_all (\<lambda>t. now < next_time t) tasks'"
    "d = (if tasks' = [] then 60 * ns_per_sec else max 0 (Min (next_time ` set tasks') - now))" by auto
  let ?s = "\<lparr>ss_tasks = tasks', ss_wake = now + d, ss_log = ss_log s @
      map (\<lambda>i. \<lparr>rb_task = i, rb_trigger = get_next_trigger_time (rq_tasks Z) (ss_tasks s ! i), rb_now = now\<rparr>) ?due\<rparr>"
  have step: "scheduler_step (rq_tasks Z) P s ?s"
    by (rule scheduler_step.turn [OF assms(5,6) _ t(1)]) simp
  obtain u spawned where "spawn_due (rq_tasks Z) clk ?due (ss_tasks s) [] = (Inr u, tasks', spawned)"
    using t(1) by (auto simp: scheduler_iteration_def split: prod.splits sum.splits)
  from spawn_due_update [OF this, of i] i have upd: "task_update Z (clk i) (ss_tasks s ! i) = Inr (tasks' ! i)"
    by (simp add: set_collect_due)
  have mem: "tasks' ! i \<in> set tasks'" using assms(3) t(2) by simp
  then have "Min (next_time ` set tasks') \<le> next_time (tasks' ! i)" "now < next_time (tasks' ! i)" "tasks' \<noteq> []"
    using t(5) by (auto simp: list_all_iff)
  then have "now + d \<le> next_time (tasks' ! i)" using t(6) by simp
  with step upd begun_once [OF i] t(3,4) show thesis by (intro that [of ?s]) (simp_all add: runs_of_def)
qed

section \<open>Properties\<close>

text \<open>C5: A FastRunner task whose trigger is overdue when the scheduler wakes up less than 90 seconds before noon in New
  York, but before the task's last trigger of the day (after a sleep from half past eleven to 11:58:40, say), trades twice:
  that turn begins a run for the overdue trigger, the turn that follows at or after the last trigger, still in the window, begins another one
  for it on the same day; and every run of the task that reads the clock in the window trades for real, since each run has a
  runner of its own and neither knows of the other.\<close>

theorem late_trigger_trades_twice:
  assumes "tz_steady Z (hms 3 0 0)" and "list_all (task_ok Z) (ss_tasks s)" and "i < length (ss_tasks s)"
    and "task_name (ss_tasks s ! i) \<in> fast_runners" and "next_time (ss_tasks s ! i) \<le> now" and "ss_wake s \<le> now"
    and "live_at Z now" and "tz_local Z now = (d, t)" and "\<forall>j. now \<le> clk j"
    and "tz_local Z (clk i) = (d, u)" and "u < last_target (targets_of (task_name (ss_tasks s ! i)))"
    and "live_at Z now'" and "tz_local Z now' = (d, t')" and "last_target (targets_of (task_name (ss_tasks s ! i))) \<le> t'"
  shows "(\<exists>s1 s2 trigger. scheduler_step (rq_tasks Z) P s s1 \<and> scheduler_step (rq_tasks Z) P s1 s2 \<and>
      runs_of i (ss_log s2) = runs_of i (ss_log s) @
        [\<lparr>rb_task = i, rb_trigger = next_time (ss_tasks s ! i), rb_now = now\<rparr>, \<lparr>rb_task = i, rb_trigger = trigger, rb_now = now'\<rparr>] \<and>
      tz_local Z trigger = (d, last_target (targets_of (task_name (ss_tasks s ! i)))) \<and> next_time (ss_tasks s ! i) < trigger) \<and>
    (\<forall>(env :: ('c, 'e, 'r, 'v) run_env) st r st'. chrono_laws (re_chrono env) \<and> re_dir_ok env \<and> re_tz env = Z \<and> live_at Z (re_now_et env) \<and>
      task_run env (ss_tasks s ! i) st = Some (r, st') \<longrightarrow> \<not> is_simulation (rs_runner st'))"
proof -
  note laws = tz_steady.axioms(1) [OF assms(1)]
  let ?last = "last_target (targets_of (task_name (ss_tasks s ! i)))"
  obtain s1 where s1: "scheduler_step (rq_tasks Z) P s s1"
    "runs_of i (ss_log s1) = runs_of i (ss_log s) @ [\<lparr>rb_task = i, rb_trigger = next_time (ss_tasks s ! i), rb_now = now\<rparr>]"
    "task_update Z (clk i) (ss_tasks s ! i) = Inr (ss_tasks s1 ! i)" "list_all (task_ok Z) (ss_tasks s1)"
    "map task_name (ss_tasks s1) = map task_name (ss_tasks s)" "ss_wake s1 \<le> next_time (ss_tasks s1 ! i)"
    by (rule due_turn [OF laws assms(2,3,5,6,9)])
  have "hms 11 58 30 < t" using live_clock [OF assms(1,7)] assms(8) by simp
  moreover from this have "hms 3 0 0 \<le> t" by (simp add: hms_def ns_per_sec_def)
  then have "t \<le> u" using tz_laws.clock_mono [OF laws, of now "clk i"] assms(8,9,10) by simp
  ultimately have last: "tz_local Z (next_time (ss_tasks s1 ! i)) = (d, ?last)"
    using update_to_last [OF assms(1,4) s1(3) assms(10) _ assms(11)] by simp
  have due: "next_time (ss_tasks s1 ! i) \<le> now'"
  proof (rule ccontr)
    assume "\<not> ?thesis"
    then have le: "now' \<le> next_time (ss_tasks s1 ! i)" "now' \<noteq> next_time (ss_tasks s1 ! i)" by auto
    have safe: "hms 3 0 0 \<le> t'" using live_clock [OF assms(1,12)] assms(13) by (simp add: hms_def ns_per_sec_def)
    then have "t' = ?last" using tz_laws.clock_mono [OF laws le(1)] assms(13,14) last by simp
    then have "now' = next_time (ss_tasks s1 ! i)" using last assms(13) safe by (intro tz_steady.same_instant [OF assms(1)]) simp_all
    with le(2) show False by simp
  qed
  have i1: "i < length (ss_tasks s1)" using arg_cong [OF s1(5), of length] assms(3) by simp
  obtain s2 where s2: "scheduler_step (rq_tasks Z) P s1 s2"
    "runs_of i (ss_log s2) = runs_of i (ss_log s1) @ [\<lparr>rb_task = i, rb_trigger = next_time (ss_tasks s1 ! i), rb_now = now'\<rparr>]"
    by (rule due_turn [OF laws s1(4) i1 due, of "\<lambda>_. now'"]) (use s1(6) due in auto)
  have "t < ?last" using \<open>t \<le> u\<close> assms(11) by simp
  then have "now < next_time (ss_tasks s1 ! i)"
    using tz_laws.clock_mono [OF laws, of "next_time (ss_tasks s1 ! i)" now] last assms(8) \<open>hms 3 0 0 \<le> t\<close> by (force simp: not_le)
  then have "next_time (ss_tasks s ! i) < next_time (ss_tasks s1 ! i)" using assms(5) by simp
  with s1(1,2) s2 last have two: "\<exists>s1 s2 trigger. scheduler_step (rq_tasks Z) P s s1 \<and> scheduler_step (rq_tasks Z) P s1 s2 \<and>
      runs_of i (ss_log s2) = runs_of i (ss_log s) @
        [\<lparr>rb_task = i, rb_trigger = next_time (ss_tasks s ! i), rb_now = now\<rparr>, \<lparr>rb_task = i, rb_trigger = trigger, rb_now = now'\<rparr>] \<and>
      tz_local Z trigger = (d, ?last) \<and> next_time (ss_tasks s ! i) < trigger"
    by (intro exI [of _ s1] exI [of _ s2] exI [of _ "next_time (ss_tasks s1 ! i)"]) simp
  have ok: "task_ok Z (ss_tasks s ! i)" using assms(2,3) by (simp add: list_all_length)
  show ?thesis
  proof (rule conjI [OF two], intro allI impI, elim conjE)
    fix env :: "('c, 'e, 'r, 'v) run_env" and st st' :: "'c run_state" and r
    assume a: "chrono_laws (re_chrono env)" "re_dir_ok env" and z: "re_tz env = Z" "live_at Z (re_now_et env)"
      and run: "task_run env (ss_tasks s ! i) st = Some (r, st')"
    have "live_at (re_tz env) (re_now_et env)" using z by simp
    from task_run_real [OF a this assms(4) ok run] show "\<not> is_simulation (rs_runner st')" .
  qed
qed


text \<open>The late Monday: the AP task, asleep from half past eleven to 11:58:40, submits the same order twice.\<close>

theorem late_trigger_trades_twice_witness:
  "\<exists>(s2 :: rq_task sched_state) trigger.
     runs_of 2 (ss_log s2) = [\<lparr>rb_task = 2, rb_trigger = monday 15 30 20, rb_now = monday 15 58 40\<rparr>,
       \<lparr>rb_task = 2, rb_trigger = trigger, rb_now = monday 15 59 20\<rparr>] \<and>
     tz_local eastern_2025 trigger = (20255, hms 11 59 20) \<and>
     map (\<lambda>r. run_submissions (mail_env (rb_now r)) (FastRunnerApTask (rb_trigger r) False) demo_state) (runs_of 2 (ss_log s2)) =
       [[demo_submission], [demo_submission]]"
proof -
  let ?s = "\<lparr>ss_tasks = hb_pqp_ap (monday 15 39 0) (monday 15 30 10) (monday 15 30 20), ss_wake = monday 15 29 0, ss_log = []\<rparr>"
  have ok: "list_all (task_ok eastern_2025) (ss_tasks ?s)"
    using scheduled_tasks_ok [OF eastern_laws.tz_laws_axioms late_monday_start] by simp
  have local: "tz_local eastern_2025 (monday 15 58 40) = (20255, hms 11 58 40)" "tz_local eastern_2025 (monday 15 59 20) = (20255, hms 11 59 20)"
    by (simp_all add: eastern_2025_def eastern_defs monday_def day_ns_def hms_def ns_per_sec_def)
  have ap: "last_target (targets_of ''FastRunnerApTask'') = hms 11 59 20" "hms 11 58 40 < hms 11 59 20"
    by (simp_all add: last_target_def targets_of_def ap_targets_def hms_def ns_per_sec_def)
  have task: "task_name (ss_tasks ?s ! 2) = ''FastRunnerApTask''" "next_time (ss_tasks ?s ! 2) = monday 15 30 20"
    "2 < length (ss_tasks ?s)" by (simp_all add: hb_pqp_ap_def)
  have fr: "task_name (ss_tasks ?s ! 2) \<in> fast_runners" by (simp add: fast_runners_def hb_pqp_ap_def)
  have due: "next_time (ss_tasks ?s ! 2) \<le> monday 15 58 40" "ss_wake ?s \<le> monday 15 58 40" by (simp_all add: hb_pqp_ap_def monday_order)
  have u: "hms 11 58 40 < last_target (targets_of (task_name (ss_tasks ?s ! 2)))"
    "last_target (targets_of (task_name (ss_tasks ?s ! 2))) \<le> hms 11 59 20" unfolding task(1) by (simp_all add: ap)
  have clk: "\<forall>j :: nat. monday 15 58 40 \<le> monday 15 58 40" by simp
  from late_trigger_trades_twice [where P = "\<lambda>_. False", OF eastern_steady.tz_steady_axioms ok task(3) fr due
      monday_live(1) local(1) clk local(1) u(1) monday_live(3) local(2) u(2), THEN conjunct1]
  obtain s2 :: "rq_task sched_state" and trigger where "runs_of 2 (ss_log s2) = runs_of 2 (ss_log ?s) @
      [\<lparr>rb_task = 2, rb_trigger = next_time (ss_tasks ?s ! 2), rb_now = monday 15 58 40\<rparr>,
       \<lparr>rb_task = 2, rb_trigger = trigger, rb_now = monday 15 59 20\<rparr>]"
     and trigger: "tz_local eastern_2025 trigger = (20255, last_target (targets_of (task_name (ss_tasks ?s ! 2))))" by blast
  then have two: "runs_of 2 (ss_log s2) = [\<lparr>rb_task = 2, rb_trigger = monday 15 30 20, rb_now = monday 15 58 40\<rparr>,
       \<lparr>rb_task = 2, rb_trigger = trigger, rb_now = monday 15 59 20\<rparr>]" "tz_local eastern_2025 trigger = (20255, hms 11 59 20)"
    unfolding task ap by (simp_all add: runs_of_def)
  have noon: "num_seconds_to_noon eastern_2025 (monday 15 58 40) = Inr 80" "num_seconds_to_noon eastern_2025 (monday 15 59 20) = Inr 40"
    "utc_date (monday 15 58 40) = 20255" "utc_date (monday 15 59 20) = 20255" by code_simp+
  have "run_submissions (mail_env now) (FastRunnerApTask t False) demo_state = [demo_submission]"
    if "num_seconds_to_noon eastern_2025 now = Inr secs" "secs < 90" "utc_date now = 20255" for now secs t
    using mail_run [OF that] by (auto simp: run_submissions_def)
  from this [OF noon(1) _ noon(3)] this [OF noon(2) _ noon(4)] two show ?thesis
    by (intro exI [of _ s2] exI [of _ trigger]) simp
qed

end
