(* ===== verification/Spec2Isabelle.thy ===== *)
theory Spec2Isabelle
  imports ServerDay OpenUrls RqLog QuoteAge LateTrigger
begin

text \<open>
  RqCore is a trading server. A scheduler begins the tasks of two strategies (PQP and AP) at fixed times of the
  New York day; a task downloads the strategy's new transactions from a web site, sizes the orders by a
  portfolio value and, in the last run before noon, hands them to Interactive Brokers. A cache of streamed
  prices serves the order limits. Beside the scheduler the process has a console menu and a web server with
  Google login, a request log, diagnostics and websockets. This development models the Rust code under
  \<open>src/rqcoresrv/src\<close> and \<open>src/common\<close> function by function, in the names of the source.

  \<^bold>\<open>Conventions.\<close> A Rust function is a HOL function; state is passed in and returned. What a panic ends is \<open>Inl
  (Panic message)\<close>, what never returns (a request that is never answered, say) is \<open>Inl Hang\<close> or, for loops, \<open>None\<close> of
  a \<open>partial_function\<close>; a computation ends when it is neither (\<open>ends\<close> in \<open>Prelude\<close>). That every request is answered or
  fails is the hypothesis \<open>run_answered\<close> where the end of a run is claimed. Doubles are exact (\<open>F64\<close>: binary64 with
  round to nearest even as an instance of the classes of \<open>*\<close> and \<open>/\<close>, the predicate \<open>f64_wf\<close> of the values a double
  can have, and the saturating casts; \<open>F64Text\<close>: Rust's text of a double, the shortest decimal that is read back
  as the same double, with the proof that it is), \<open>u16\<close>, \<open>u32\<close>, \<open>i32\<close> and \<open>usize\<close> are words, strings are their UTF-8
  bytes (\<open>RustStr\<close>), instants are nanoseconds since 1970. Each call of the clock, the network, the file system and
  a crate is an argument: a record of functions (\<open>ib_api\<close>, \<open>sa_world\<close>, \<open>run_env\<close>, \<open>tz\<close>, \<open>chrono\<close>, \<open>gsheet_world\<close>, \<open>mail_lib\<close>,
  \<open>google_world\<close>, \<open>percent_lib\<close>, \<open>tls_files\<close>). Where the code relies on documented laws of such a crate they are a
  locale (\<open>chrono_laws\<close>, \<open>tz_laws\<close>, \<open>tz_steady\<close>, \<open>percent_laws\<close>), interpreted on the Gregorian calendar, on the US
  Eastern rules of 2025 and on RFC 3986. The other locales are contracts between components of the program:
  \<open>quote_store\<close> (cache), \<open>strategy\<close> (the trading loop and the two strategies), \<open>loop_relation\<close> (the loop and what its
  iterations keep, the account of the orders and the mode of the run), \<open>task_contract\<close> (the scheduler and its
  tasks), \<open>bounded_log\<close> (the request log), and \<open>simulation\<close> (a machine and its abstraction, twice: members and
  visitors).

  \<^bold>\<open>Theories.\<close>
  \<^item> \<open>MarkValueCache\<close> (\<open>memdb/src/mark_value_cache.rs\<close>): the prices and the quote stream counted by its users. A step
    relation interleaves starts, stops, failing starts and updates; the invariant says that no stream runs
    without a user.
  \<^item> \<open>ServerIp\<close> (\<open>server_ip.rs\<close>), \<open>Brokers\<close> (\<open>broker-common\<close>), \<open>RoboTrader\<close>: addresses, gateways, executions and order
    placement. A placement refines a plan (known prices first); share counts, limits and the total cost are
    bounded, roundings included. \<open>QuoteAge\<close>: the age of a cached quote has no effect on it.
  \<^item> \<open>SaData\<close>, \<open>FastRunner\<close> (\<open>fast_runner.rs\<close>): decoded structures, events, dates and portfolio values, cookies, and one
    iteration of each strategy.
  \<^item> \<open>FastRunnerTask\<close> (\<open>fast_runner_task.rs\<close>), with \<open>Calendar\<close> (\<open>utils/time.rs\<close>): trigger times and a whole run. The
    trading loop has no bound of its own; a run ends, normally or with a panic, once the clock is past the
    loop's end and every request is answered or fails (\<open>run_terminates\<close>), and the sleeps of a simulated one allow
    at most eight iterations. \<open>run_stream_balance\<close> places a run among other users of the quote stream, whose
    starts may fail and whose streams deliver quotes while it runs.
  \<^item> \<open>AuditTrail\<close>, \<open>MailText\<close>: the mail at the end of a run. Every order is in the log before it is submitted, so the
    mails of a run that ends tell exactly its orders, and those of a run that panics none; \<open>line_text\<close> is the text
    of each line where the code writes it, and a reader gets the orders back from the text, the prices to the
    last bit. The trading loop meets the log through the locale \<open>loop_relation\<close>.
  \<^item> \<open>TaskScheduler\<close> (\<open>rqtask_scheduler.rs\<close>): a turn of the scheduler, the step relation of its turns, the three tasks
    and those \<open>main\<close> schedules. \<open>LiveRuns\<close> puts it together with the condition for live trading: one live run a day
    and task while the scheduler is punctual. \<open>TradingDay\<close> gives the begun runs their bodies: what all runs of a
    day submit together is bounded, by 16 orders while they are in time and by 32 however late they are, as long
    as each run reads its clock before the next trigger of its task. \<open>LateTrigger\<close> shows that two live runs of a
    task are real: after a late wake-up each of them trades.
  \<^item> \<open>RqConfig\<close> (\<open>runningenv.rs\<close>, \<open>rqhelper.rs\<close>), \<open>GSheets\<close> (\<open>rqgsheets.rs\<close>), \<open>RqEmail\<close> (\<open>rqemail.rs\<close>): the configuration file
    and its round trip, cell names and their round trip with the overflow cases, sending mail.
  \<^item> \<open>UserAccount\<close> (\<open>user_account.rs\<close>): the handlers over a browser's session; the invariant ties the session to an
    address Google confirmed since the last logout. \<open>AccountMachine\<close> is what they promise: a machine of visitors,
    whose address and identity are kept apart, which the handlers refine whatever writes of the session fail,
    and a machine of strangers and members, which they refine while these writes succeed.
  \<^item> \<open>HttpLog\<close>, \<open>WebServer\<close> (\<open>main_web.rs\<close>, the middlewares), \<open>WebSockets\<close>: the last fifty requests, certificates and
    sites, the protocol of the sockets. \<open>WebApp\<close> is the whole application: its services, the middlewares around
    them, many browsers that share one log, and the conversations of their websockets, each from the identity of
    the browser that opened it.
  \<^item> \<open>ServerMain\<close> (\<open>main.rs\<close>): start and end of the process and the console menu, over all of the above; nothing typed
    at the console trades. The start has the stages of \<open>init_log\<close> (which of them panics, which ends the start with
    an error), the certificates and the binding of the two ports, and \<open>start_needs_keys\<close> says for every case
    whether it panics, ends with which error, or runs; \<open>web_app_of\<close> is the web application of a started server, so
    the authorized users are those of the configuration the start has read. \<open>ServerDay\<close> puts a started server and
    its scheduler together: only two machines trade at all.
  \<^item> \<open>RqLog\<close> (\<open>rqlog.rs\<close>, \<open>utils/time.rs\<close>): the logging macros, and the benchmarks with the exactness of the time they
    print.
  \<^item> \<open>OpenUrls\<close> (\<open>tools/agy/open_urls_together\<close>): the desktop helper that opens nine pages, one command after the
    other, and stops at the first that cannot be started.

  \<^bold>\<open>What the properties show.\<close> The first group is about money: what all runs of a day and what one run may submit
  and when, that forced and simulated runs submit nothing, what a placement costs, what the mails say of it. The
  second is about the scheduler's runs, their triggers and their days. The third has the round trips, error
  cases and invariants of the remaining components. Some state what the code does where that is not what it
  means to do: a late trigger trades twice, a stale quote is traded at, a panicking run keeps the quote stream
  and sends no mail of its orders, every page is publicly cached, the value of every mail setting, the password
  too, is an authorized user. Further theorems, not among the properties, are \<open>mvc_failed_start_steals\<close>,
  \<open>history_then_analysis\<close>, \<open>off_day_orders_empty\<close>, \<open>pv_total\<close>, \<open>four_triggers_a_day\<close>, \<open>place_order_zero_price\<close>,
  \<open>future_target_in_the_past\<close>, \<open>email_keys_authorized\<close>, \<open>hello_writes_sheet\<close>, \<open>open_urls_in_order\<close>, \<open>state_decoded_twice\<close>,
  \<open>failed_login_keeps_user\<close>, \<open>index_html_needs_no_login\<close>, \<open>log_glues_query\<close>, \<open>benchmark_reports\<close>, \<open>pqp_dates_monday\<close>,
  \<open>place_orders_completes\<close>, \<open>session_cookie_accepted\<close>, \<open>site_choice\<close> and \<open>sheet_url_conversion\<close>.

  \<^bold>\<open>Bounds and assumptions.\<close> Prices are sane (\<open>usable_world\<close>) where a cost is bounded. Time is monotone in the
  scheduler's step relation. A request is one step of the application, and a browser's session is the last
  cookie it was given, over https; the cookie's lifetime of a year is only an attribute, and nobody is taken to
  forge a cookie. A zone's clock changes are over by three in the morning, local time. A build with overflow
  checks and one without are both modelled where they differ (\<open>GSheets\<close>).

  \<^bold>\<open>Not modelled.\<close> The logger itself: which lines it keeps and where, and the progress lines that only go to the
  log or the console (those of the run's mail are modelled). The text of the mail with the candidate tickers,
  which prints lists with the escapes of \<open>{:?}\<close>; its content is. The framework's serving of static files, its
  compression of the responses (the middleware \<open>Compress\<close>, which may refuse a request for its accepted encodings)
  and the installation of the TLS provider. Memory and real parallelism are not modelled: threads appear as
  interleavings of the operations that hold a lock.
\<close>

end
